(* ===== verification/Prelude.thy ===== *)
theory Prelude
  imports Complex_Main
    "HOL-Library.AList" "HOL-Library.Char_ord" "HOL-Library.List_Lexorder"
    "HOL-Library.Product_Lexorder" "HOL-Library.Word"
begin

text \<open>
  What the components of the document search service share.

  Exceptions are values of \<open>exn\<close> and a fallible call returns \<open>exn + 'a\<close> (\<open>Inl\<close> is the
  raised exception).  A stateful call returns the pair of its outcome and the state after it.
  A Python \<open>dict\<close> is an association list in insertion order, written with \<open>AList.update\<close>
  (assignment keeps the position of an existing key), read with \<open>map_of\<close>, and shortened with
  \<open>AList.delete\<close>.  JSON values are the datatype \<open>json\<close>.

  A Python string is a list of characters; a character stands for one of the code points
  0 to 255, and \<open>py_lower\<close>, \<open>py_strip\<close>, \<open>collapse_ws\<close> and \<open>word_runs\<close> follow Python's
  \<open>str.lower\<close>, \<open>str.strip\<close>, \<open>re.sub("\s+", " ")\<close> and \<open>re.findall("[a-z0-9]+")\<close> on that range.
\<close>

named_theorems component_defs \<open>unfolding rules of the components' operations\<close>
named_theorems text_simps \<open>rewriting of the text functions\<close>

subsection \<open>Exceptions, JSON, results\<close>

datatype json =
    JNull
  | JBool bool
  | JInt int
  | JFloat real
  | JStr string
  | JArr "json list"
  | JObj "(string \<times> json) list"

text \<open>
  The exceptions the service raises itself (\<open>core/errors.py\<close>) and the ones of the language
  and of the libraries that the code distinguishes or lets through.
\<close>

datatype app_error =
    BadRequestError "string option"
  | UnauthorizedError "string option"
  | ForbiddenError "string option"
  | NotFoundError "string option"
  | PayloadTooLargeError "string option"
  | RateLimitedError real int
  | DependencyUnavailableError string

datatype exn =
    AppErr app_error
  | ConnectionError string
  | RuntimeErr string
  | ValueErr
  | TypeErr
  | KeyErr
  | AssertionErr
  | ZeroDivisionErr
  | OverflowErr
  | ValidationErr
  | DatabaseErr
  | ClientErr string

type_synonym 'a result = "exn + 'a"

fun is_ok :: "'a result \<Rightarrow> bool" where
  "is_ok (Inr x) = True"
| "is_ok (Inl e) = False"

subsection \<open>Text\<close>

definition py_isspace :: "char \<Rightarrow> bool" where
  "py_isspace c =
     (let n = of_char c :: nat
      in (9 \<le> n \<and> n \<le> 13) \<or> (28 \<le> n \<and> n \<le> 32) \<or> n = 133 \<or> n = 160)"

definition lower_char :: "char \<Rightarrow> char" where
  "lower_char c =
     (let n = of_char c :: nat
      in if (65 \<le> n \<and> n \<le> 90) \<or> (192 \<le> n \<and> n \<le> 222 \<and> n \<noteq> 215)
         then char_of (n + 32) else c)"

definition py_lower :: "string \<Rightarrow> string" where
  "py_lower s = map lower_char s"

definition py_strip :: "string \<Rightarrow> string" where
  "py_strip s = rev (dropWhile py_isspace (rev (dropWhile py_isspace s)))"

function collapse_ws :: "string \<Rightarrow> string" where
  "collapse_ws [] = []"
| "collapse_ws (c # cs) =
     (if py_isspace c
      then CHR '' '' # collapse_ws (dropWhile py_isspace cs)
      else c # collapse_ws cs)"
  by pat_completeness auto
termination
  by (relation "measure length") (auto simp: le_imp_less_Suc length_dropWhile_le)

definition word_char :: "char \<Rightarrow> bool" where
  "word_char c =
     (let n = of_char c :: nat in (97 \<le> n \<and> n \<le> 122) \<or> (48 \<le> n \<and> n \<le> 57))"

function word_runs :: "string \<Rightarrow> string list" where
  "word_runs [] = []"
| "word_runs (c # cs) =
     (if word_char c
      then (c # takeWhile word_char cs) # word_runs (dropWhile word_char cs)
      else word_runs cs)"
  by pat_completeness auto
termination
  by (relation "measure length") (auto simp: le_imp_less_Suc length_dropWhile_le)

definition digit_char :: "nat \<Rightarrow> char" where
  "digit_char d = char_of (48 + d)"

fun str_nat :: "nat \<Rightarrow> string" where
  "str_nat n = (if n < 10 then [digit_char n] else str_nat (n div 10) @ [digit_char (n mod 10)])"

definition str_int :: "int \<Rightarrow> string" where
  "str_int i = (if i < 0 then ''-'' @ str_nat (nat (- i)) else str_nat (nat i))"

definition str_flag :: "bool \<Rightarrow> string" where
  "str_flag b = (if b then ''1'' else ''0'')"

text \<open>\<open>int(x)\<close> of a float truncates towards zero; \<open>round(x, k)\<close> rounds half to even.\<close>

definition py_int :: "real \<Rightarrow> int" where
  "py_int x = (if 0 \<le> x then \<lfloor>x\<rfloor> else \<lceil>x\<rceil>)"

definition round_half_even :: "real \<Rightarrow> int" where
  "round_half_even x =
     (let f = \<lfloor>x\<rfloor>; d = x - of_int f
      in if d < 1/2 then f else if d > 1/2 then f + 1 else if even f then f else f + 1)"

definition py_round :: "nat \<Rightarrow> real \<Rightarrow> real" where
  "py_round k x = of_int (round_half_even (x * 10 ^ k)) / 10 ^ k"

text \<open>\<open>xs[a:b]\<close> for non-negative bounds.\<close>

definition slice :: "nat \<Rightarrow> nat \<Rightarrow> 'a list \<Rightarrow> 'a list" where
  "slice a b xs = take (b - a) (drop a xs)"

text \<open>\<open>xs[a:b]\<close> for any bounds: a negative bound counts from the end, both are clipped.\<close>

definition py_bound :: "nat \<Rightarrow> int \<Rightarrow> nat" where
  "py_bound n i = nat (if i < 0 then max 0 (int n + i) else min i (int n))"

definition py_slice :: "int \<Rightarrow> int \<Rightarrow> 'a list \<Rightarrow> 'a list" where
  "py_slice a b xs = slice (py_bound (length xs) a) (py_bound (length xs) b) xs"

declare str_nat.simps [simp del]

subsection \<open>Lemmas on lists and dictionaries\<close>

lemma map_of_update [simp]: "map_of (AList.update k v d) k' = (if k' = k then Some v else map_of d k')"
  by (simp add: update_conv')

lemma map_of_delete [simp]: "map_of (AList.delete k d) k' = (if k' = k then None else map_of d k')"
  by (simp add: delete_conv')

lemma distinct_keys_update [intro]: "distinct (map fst d) \<Longrightarrow> distinct (map fst (AList.update k v d))"
  by (rule distinct_update)

lemma distinct_keys_delete [intro]: "distinct (map fst d) \<Longrightarrow> distinct (map fst (AList.delete k d))"
  by (rule distinct_delete)

lemma keys_update: "fst ` set (AList.update k v d) = insert k (fst ` set d)"
  using dom_update [of k v d] by (simp add: dom_map_of_conv_image_fst)

lemma find_Some_in: "find P xs = Some x \<Longrightarrow> x \<in> set xs \<and> P x"
  by (auto simp: find_Some_iff)

lemma sort_key_set [simp]: "set (sort_key f xs) = set xs"
  by simp

lemma slice_set: "set (slice a b xs) \<subseteq> set xs"
  using set_take_subset [of "b - a" "drop a xs"] set_drop_subset [of a xs]
  by (simp add: slice_def)

lemma length_slice: "length (slice a b xs) = min (b - a) (length xs - a)"
  by (simp add: slice_def)

lemma py_slice_set: "set (py_slice a b xs) \<subseteq> set xs"
  by (simp add: py_slice_def slice_set)

lemma py_slice_nonneg:
  assumes "0 \<le> a" "0 \<le> b"
  shows "py_slice a b xs = slice (nat a) (nat b) xs"
proof -
  have "take (min (nat b) (length xs) - min (nat a) (length xs)) (drop (min (nat a) (length xs)) xs)
      = take (nat b - nat a) (drop (nat a) xs)"
    by (cases "nat a \<le> length xs") (auto simp: min_def)
  moreover have "py_bound (length xs) a = min (nat a) (length xs)" "py_bound (length xs) b = min (nat b) (length xs)"
    using assms by (auto simp: py_bound_def min_def)
  ultimately show ?thesis by (simp add: py_slice_def slice_def)
qed

lemma length_py_slice_le: "0 \<le> a \<Longrightarrow> 0 \<le> n \<Longrightarrow> int (length (py_slice a (a + n) xs)) \<le> n"
  by (simp add: py_slice_nonneg length_slice nat_add_distrib)

lemma sorted_wrt_slice: "sorted_wrt P xs \<Longrightarrow> sorted_wrt P (slice a b xs)"
  by (simp add: slice_def sorted_wrt_drop sorted_wrt_take)

lemma sorted_wrt_py_slice: "sorted_wrt P xs \<Longrightarrow> sorted_wrt P (py_slice a b xs)"
  by (simp add: py_slice_def sorted_wrt_slice)

lemma update_new: "k \<notin> fst ` set d \<Longrightarrow> AList.update k v d = d @ [(k, v)]"
  by (induction d) auto

lemma fold_update_new:
  "distinct (map f xs) \<Longrightarrow> (\<And>x. x \<in> set xs \<Longrightarrow> f x \<notin> fst ` set d) \<Longrightarrow>
   fold (\<lambda>x. AList.update (f x) (g x)) xs d = d @ map (\<lambda>x. (f x, g x)) xs"
proof (induction xs arbitrary: d)
  case (Cons x xs)
  have "fold (\<lambda>x. AList.update (f x) (g x)) (x # xs) d = fold (\<lambda>x. AList.update (f x) (g x)) xs (d @ [(f x, g x)])"
    using Cons.prems(2) [of x] by (simp add: update_new)
  also have "\<dots> = (d @ [(f x, g x)]) @ map (\<lambda>x. (f x, g x)) xs"
  proof (rule Cons.IH)
    show "distinct (map f xs)" using Cons.prems(1) by simp
    show "f y \<notin> fst ` set (d @ [(f x, g x)])" if "y \<in> set xs" for y
      using Cons.prems(1) Cons.prems(2) [of y] that by auto (metis image_eqI)
  qed
  finally show ?case by simp
qed simp

lemma append_eq_first_sep:
  assumes "xs @ c # ys = xs' @ c # ys'" and "c \<notin> set xs" and "c \<notin> set xs'"
  shows "xs = xs' \<and> ys = ys'"
  using assms
proof (induction xs arbitrary: xs')
  case Nil
  then show ?case by (cases xs') auto
next
  case (Cons a xs)
  then show ?case by (cases xs') auto
qed

lemma append_eq_last_sep:
  assumes "xs @ c # ys = xs' @ c # ys'" and "c \<notin> set ys" and "c \<notin> set ys'"
  shows "xs = xs' \<and> ys = ys'"
proof -
  have "rev ys @ c # rev xs = rev ys' @ c # rev xs'"
    using arg_cong [OF assms(1), of rev] by simp
  with assms(2,3) have "rev ys = rev ys' \<and> rev xs = rev xs'"
    by (intro append_eq_first_sep) auto
  then show ?thesis by simp
qed

subsection \<open>Lemmas on decimal text\<close>

lemma digit_char_eq_iff: "a < 10 \<Longrightarrow> b < 10 \<Longrightarrow> digit_char a = digit_char b \<longleftrightarrow> a = b"
  unfolding digit_char_def by (simp add: char_of_eq_iff take_bit_eq_mod)

lemma of_char_digit: "d < 10 \<Longrightarrow> of_char (digit_char d) = (48 + d :: nat)"
  unfolding digit_char_def by (simp add: take_bit_eq_mod)

lemma set_str_nat: "c \<in> set (str_nat n) \<Longrightarrow> \<exists>d<10. c = digit_char d"
proof (induction n rule: str_nat.induct)
  case (1 n)
  show ?case
  proof (cases "n < 10")
    case True
    with "1.prems" show ?thesis by (auto simp: str_nat.simps [of n])
  next
    case False
    with "1.prems" have "c \<in> set (str_nat (n div 10)) \<or> c = digit_char (n mod 10)"
      by (auto simp: str_nat.simps [of n])
    moreover have "n mod 10 < 10" by simp
    ultimately show ?thesis using "1.IH" False by blast
  qed
qed

lemma str_nat_nonempty [simp]: "str_nat n \<noteq> []"
  by (subst str_nat.simps) simp

lemma str_nat_inject: "str_nat m = str_nat n \<Longrightarrow> m = n"
proof (induction m arbitrary: n rule: str_nat.induct)
  case (1 m)
  have m: "str_nat m = (if m < 10 then [digit_char m] else str_nat (m div 10) @ [digit_char (m mod 10)])"
    and n: "str_nat n = (if n < 10 then [digit_char n] else str_nat (n div 10) @ [digit_char (n mod 10)])"
    by (rule str_nat.simps)+
  show ?case
  proof (cases "m < 10")
    case True
    with "1.prems" m have "str_nat n = [digit_char m]" by simp
    with n have "n < 10 \<and> digit_char n = digit_char m"
      by (metis append_self_conv2 butlast_snoc butlast.simps(2) list.inject str_nat_nonempty)
    with True digit_char_eq_iff [of n m] show ?thesis by simp
  next
    case False
    with "1.prems" m n have "\<not> n < 10" "str_nat (m div 10) = str_nat (n div 10)"
      "digit_char (m mod 10) = digit_char (n mod 10)"
      by (auto split: if_splits)
    with "1.IH" False have "m div 10 = n div 10" "m mod 10 = n mod 10"
      by (auto simp: digit_char_eq_iff)
    then show ?thesis by (metis div_mult_mod_eq)
  qed
qed

lemma char_notin_str_nat: "(of_char c :: nat) < 48 \<or> 58 \<le> (of_char c :: nat) \<Longrightarrow> c \<notin> set (str_nat n)"
proof
  assume c: "(of_char c :: nat) < 48 \<or> 58 \<le> (of_char c :: nat)" and "c \<in> set (str_nat n)"
  then obtain d where "d < 10" "c = digit_char d" using set_str_nat by blast
  with c show False by (auto simp: of_char_digit)
qed

lemma char_notin_str_int:
  "(of_char c :: nat) < 45 \<or> 58 \<le> (of_char c :: nat) \<Longrightarrow> c \<notin> set (str_int i)"
  by (auto simp: str_int_def char_notin_str_nat)

lemma str_int_inject: "str_int i = str_int j \<Longrightarrow> i = j"
proof -
  assume eq: "str_int i = str_int j"
  have minus: "CHR ''-'' \<notin> set (str_nat n)" for n
    by (rule char_notin_str_nat) simp
  have ne: "CHR ''-'' # xs \<noteq> str_nat n" for xs n
  proof
    assume "CHR ''-'' # xs = str_nat n"
    then have "CHR ''-'' \<in> set (str_nat n)" by (metis list.set_intros(1))
    with minus show False by blast
  qed
  from eq ne show "i = j"
    by (auto simp: str_int_def dest: str_nat_inject split: if_splits)
       (metis ne)+
qed

lemma str_int_nonempty [simp]: "str_int i \<noteq> []"
  by (simp add: str_int_def)

lemma str_flag_inject: "str_flag a = str_flag b \<longleftrightarrow> a = b"
  by (simp add: str_flag_def)

subsection \<open>Lemmas on case folding and white space\<close>

lemma lower_char_cases:
  obtains (same) "lower_char c = c"
  | (up) "(65 \<le> (of_char c :: nat) \<and> (of_char c :: nat) \<le> 90) \<or>
          (192 \<le> (of_char c :: nat) \<and> (of_char c :: nat) \<le> 222 \<and> (of_char c :: nat) \<noteq> 215)"
         "(of_char (lower_char c) :: nat) = of_char c + 32"
proof (cases "(65 \<le> (of_char c :: nat) \<and> (of_char c :: nat) \<le> 90) \<or>
              (192 \<le> (of_char c :: nat) \<and> (of_char c :: nat) \<le> 222 \<and> (of_char c :: nat) \<noteq> 215)")
  case True
  then have "(of_char (lower_char c) :: nat) = of_char c + 32"
    by (auto simp: lower_char_def Let_def take_bit_eq_mod)
  with True show thesis by (rule up)
next
  case False
  then have "lower_char c = c" unfolding lower_char_def Let_def by (simp only: if_False)
  then show thesis by (rule same)
qed

lemma lower_char_idem [text_simps]: "lower_char (lower_char c) = lower_char c"
proof (cases c rule: lower_char_cases)
  case up
  then show ?thesis unfolding lower_char_def [of "lower_char c"] Let_def by auto
qed simp

lemma lower_char_space [text_simps]: "py_isspace (lower_char c) = py_isspace c"
proof (cases c rule: lower_char_cases)
  case up
  then show ?thesis unfolding py_isspace_def Let_def by auto
qed simp

lemma lower_char_word: "word_char c \<Longrightarrow> lower_char c = c"
  by (auto simp: lower_char_def word_char_def Let_def)

lemma space_not_word: "py_isspace c \<Longrightarrow> \<not> word_char c"
  by (auto simp: py_isspace_def word_char_def Let_def)

lemma blank_not_word [simp]: "\<not> word_char CHR '' ''"
  by (simp add: word_char_def)

lemma py_lower_idem [text_simps]: "py_lower (py_lower s) = py_lower s"
  by (simp add: py_lower_def text_simps comp_def)

lemma length_py_lower [simp]: "length (py_lower s) = length s"
  by (simp add: py_lower_def)

lemma word_runs_drop_nonword:
  "\<forall>c \<in> set xs. \<not> word_char c \<Longrightarrow> word_runs (xs @ ys) = word_runs ys"
  by (induction xs) auto

lemma word_runs_append_nonword:
  "\<forall>c \<in> set ys. \<not> word_char c \<Longrightarrow> word_runs (xs @ ys) = word_runs xs"
proof (induction xs rule: word_runs.induct)
  case 1
  then show ?case using word_runs_drop_nonword [of ys "[]"] by simp
next
  case (2 c cs)
  have tk: "takeWhile word_char (cs @ ys) = takeWhile word_char cs"
    using "2.prems" by (induction cs) (auto simp: takeWhile_eq_Nil_iff hd_in_set)
  show ?case
  proof (cases "\<forall>x \<in> set cs. word_char x")
    case True
    then have dn: "dropWhile word_char (cs @ ys) = dropWhile word_char ys"
      and dc: "dropWhile word_char cs = []" and tc: "takeWhile word_char cs = cs"
      by (auto simp: takeWhile_eq_all_conv dropWhile_append2)
    have "dropWhile word_char ys = ys"
      using "2.prems" by (cases ys) auto
    moreover have "word_runs ys = []"
      using "2.prems" word_runs_drop_nonword [of ys "[]"] by simp
    ultimately show ?thesis
      using tk dn dc tc "2" by (simp del: dropWhile_eq_Nil_conv takeWhile_eq_all_conv)
  next
    case False
    then have "dropWhile word_char (cs @ ys) = dropWhile word_char cs @ ys"
      by (induction cs) auto
    with tk "2" show ?thesis by auto
  qed
qed

lemma dropWhile_split:
  obtains as where "xs = as @ dropWhile P xs" and "\<forall>c \<in> set as. P c"
proof
  show "xs = takeWhile P xs @ dropWhile P xs" by simp
  show "\<forall>c \<in> set (takeWhile P xs). P c" by (auto dest: set_takeWhileD)
qed

lemma word_runs_dropWhile_space: "word_runs (dropWhile py_isspace s) = word_runs s"
proof -
  obtain as where as: "s = as @ dropWhile py_isspace s" "\<forall>c \<in> set as. py_isspace c"
    by (rule dropWhile_split)
  then have "\<forall>c \<in> set as. \<not> word_char c" using space_not_word by blast
  then have "word_runs (as @ dropWhile py_isspace s) = word_runs (dropWhile py_isspace s)"
    by (rule word_runs_drop_nonword)
  with as(1) show ?thesis by simp
qed

lemma word_runs_strip: "word_runs (py_strip s) = word_runs s"
proof -
  let ?t = "dropWhile py_isspace s"
  obtain as where as: "rev ?t = as @ dropWhile py_isspace (rev ?t)" "\<forall>c \<in> set as. py_isspace c"
    by (rule dropWhile_split)
  have t: "?t = rev (dropWhile py_isspace (rev ?t)) @ rev as"
    using arg_cong [OF as(1), of rev] by simp
  have "\<forall>c \<in> set (rev as). \<not> word_char c" using as(2) space_not_word by auto
  then have "word_runs (rev (dropWhile py_isspace (rev ?t)) @ rev as)
      = word_runs (rev (dropWhile py_isspace (rev ?t)))"
    by (rule word_runs_append_nonword)
  with t show ?thesis by (simp add: py_strip_def word_runs_dropWhile_space)
qed

lemma hd_collapse_word:
  "collapse_ws s = c # r \<Longrightarrow> word_char c \<Longrightarrow> \<exists>t. s = c # t \<and> r = collapse_ws t"
  by (cases s) (auto split: if_splits)

lemma collapse_takeWhile_word:
  "takeWhile word_char (collapse_ws s) = takeWhile word_char s"
  by (induction s) (auto simp: space_not_word)

lemma collapse_dropWhile_word:
  "dropWhile word_char (collapse_ws s) = collapse_ws (dropWhile word_char s)"
  by (induction s) (auto simp: space_not_word)

lemma word_runs_collapse: "word_runs (collapse_ws s) = word_runs s"
proof (induction "length s" arbitrary: s rule: less_induct)
  case less
  show ?case
  proof (cases s)
    case Nil
    then show ?thesis by simp
  next
    case (Cons c cs)
    consider (space) "py_isspace c" | (word) "word_char c" | (other) "\<not> py_isspace c" "\<not> word_char c"
      by blast
    then show ?thesis
    proof cases
      case space
      have "length (dropWhile py_isspace cs) < length s"
        using Cons by (simp add: length_dropWhile_le le_imp_less_Suc)
      with less have "word_runs (collapse_ws (dropWhile py_isspace cs)) = word_runs (dropWhile py_isspace cs)"
        by blast
      with space Cons show ?thesis
        by (simp add: space_not_word word_runs_dropWhile_space)
    next
      case word
      have "length (dropWhile word_char cs) < length s"
        using Cons by (simp add: length_dropWhile_le le_imp_less_Suc)
      with less have "word_runs (collapse_ws (dropWhile word_char cs)) = word_runs (dropWhile word_char cs)"
        by blast
      moreover have "\<not> py_isspace c" using word space_not_word by blast
      ultimately show ?thesis
        using word Cons by (simp add: collapse_takeWhile_word collapse_dropWhile_word)
    next
      case other
      with less Cons show ?thesis by simp
    qed
  qed
qed

lemma lower_collapse: "py_lower (collapse_ws s) = collapse_ws (py_lower s)"
proof (induction s rule: collapse_ws.induct)
  case 1
  then show ?case by (simp add: py_lower_def)
next
  case (2 c cs)
  have dw: "map lower_char (dropWhile py_isspace cs) = dropWhile py_isspace (map lower_char cs)"
    by (induction cs) (auto simp: text_simps)
  have sp: "lower_char CHR '' '' = CHR '' ''"
    by (simp add: lower_char_def)
  show ?case
    using "2" dw sp by (simp add: py_lower_def text_simps)
qed

lemma lower_strip: "py_lower (py_strip s) = py_strip (py_lower s)"
proof -
  have dw: "map lower_char (dropWhile py_isspace cs) = dropWhile py_isspace (map lower_char cs)" for cs
    by (induction cs) (auto simp: text_simps)
  show ?thesis by (simp add: py_lower_def py_strip_def dw rev_map [symmetric])
qed

subsection \<open>Lemmas on rounding\<close>

lemma py_int_le: "0 \<le> x \<Longrightarrow> of_int (py_int x) \<le> x"
  by (simp add: py_int_def)

lemma py_int_gt: "x < of_int (py_int x) + 1"
  by (simp add: py_int_def) linarith

lemma round_half_even_bounds:
  "x - 1/2 \<le> of_int (round_half_even x)" "of_int (round_half_even x) \<le> x + 1/2"
  by (simp_all add: round_half_even_def Let_def) linarith+

lemma round_half_even_mono: "x \<le> y \<Longrightarrow> round_half_even x \<le> round_half_even y"
proof -
  assume xy: "x \<le> y"
  then have f: "\<lfloor>x\<rfloor> \<le> \<lfloor>y\<rfloor>" by (rule floor_mono)
  have low: "\<lfloor>z\<rfloor> \<le> round_half_even z" and high: "round_half_even z \<le> \<lfloor>z\<rfloor> + 1" for z
    by (simp_all add: round_half_even_def Let_def)
  show ?thesis
  proof (cases "\<lfloor>x\<rfloor> = \<lfloor>y\<rfloor>")
    case True
    with xy show ?thesis by (simp add: round_half_even_def Let_def)
  next
    case False
    with f have "\<lfloor>x\<rfloor> + 1 \<le> \<lfloor>y\<rfloor>" by simp
    with low [of y] high [of x] show ?thesis by linarith
  qed
qed

lemma py_round_mono: "x \<le> y \<Longrightarrow> py_round k x \<le> py_round k y"
  by (simp add: py_round_def divide_right_mono mult_right_mono round_half_even_mono)

lemma py_int_nonneg: "0 \<le> x \<Longrightarrow> 0 \<le> py_int x"
  by (simp add: py_int_def)

end
