(* ===== verification/Uuid.thy ===== *)
theory Uuid
  imports Prelude
begin

text \<open>
  \<open>uuid.UUID\<close> of the standard library as the service uses it: an identifier is a 128-bit
  word, \<open>str_uuid\<close> is \<open>str(u)\<close> and \<open>parse_uuid\<close> is \<open>uuid.UUID(text)\<close>, with \<open>None\<close> for the
  \<open>ValueError\<close>.  The parser keeps the liberal input rules of the library (\<open>urn:uuid:\<close>, braces,
  missing hyphens, and \<open>int(hex, 16)\<close> with its sign, prefix and underscores), because the
  worker meets identifiers that arrive from outside in a queue message.
\<close>

type_synonym uuid = "128 word"

definition hex_char :: "nat \<Rightarrow> char" where
  "hex_char d = (if d < 10 then char_of (48 + d) else char_of (87 + d))"

definition hex_val :: "char \<Rightarrow> nat option" where
  "hex_val c =
     (let n = of_char c :: nat
      in if 48 \<le> n \<and> n \<le> 57 then Some (n - 48)
         else if 97 \<le> n \<and> n \<le> 102 then Some (n - 87)
         else if 65 \<le> n \<and> n \<le> 70 then Some (n - 55)
         else None)"

fun hex_digits :: "nat \<Rightarrow> nat \<Rightarrow> string" where
  "hex_digits 0 n = []"
| "hex_digits (Suc k) n = hex_digits k (n div 16) @ [hex_char (n mod 16)]"

definition str_uuid :: "uuid \<Rightarrow> string" where
  "str_uuid u =
     (let h = hex_digits 32 (unat u)
      in slice 0 8 h @ ''-'' @ slice 8 12 h @ ''-'' @ slice 12 16 h @ ''-'' @
         slice 16 20 h @ ''-'' @ drop 20 h)"

function remove_all :: "string \<Rightarrow> string \<Rightarrow> string" where
  "remove_all p [] = []"
| "remove_all p (c # cs) =
     (if p \<noteq> [] \<and> take (length p) (c # cs) = p then remove_all p (drop (length p) (c # cs))
      else c # remove_all p cs)"
  by pat_completeness auto
termination
  by (relation "measure (length \<circ> snd)") auto

definition strip_chars :: "char set \<Rightarrow> string \<Rightarrow> string" where
  "strip_chars C s = rev (dropWhile (\<lambda>c. c \<in> C) (rev (dropWhile (\<lambda>c. c \<in> C) s)))"

text \<open>
  The digits of \<open>int(text, base)\<close>: single underscores between digits are allowed; the flag says
  that a digit has to come next.
\<close>

fun num_acc :: "nat \<Rightarrow> bool \<Rightarrow> nat \<Rightarrow> string \<Rightarrow> nat option" where
  "num_acc b us acc [] = (if us then None else Some acc)"
| "num_acc b us acc (c # cs) =
     (if c = CHR ''_'' then (if us then None else num_acc b True acc cs)
      else (case hex_val c of
              None \<Rightarrow> None
            | Some d \<Rightarrow> if d < b then num_acc b False (acc * b + d) cs else None))"

definition drop_0x :: "string \<Rightarrow> string" where
  "drop_0x t =
     (case t of
        a # b # r \<Rightarrow>
          if a = CHR ''0'' \<and> (b = CHR ''x'' \<or> b = CHR ''X'')
          then (case r of c # r' \<Rightarrow> if c = CHR ''_'' then r' else r | [] \<Rightarrow> r)
          else t
      | _ \<Rightarrow> t)"

definition signed_num :: "nat \<Rightarrow> (string \<Rightarrow> string) \<Rightarrow> string \<Rightarrow> int option" where
  "signed_num b prefix s =
     (let t = py_strip s;
          neg = (t \<noteq> [] \<and> hd t = CHR ''-'');
          t1 = (if t \<noteq> [] \<and> (hd t = CHR ''-'' \<or> hd t = CHR ''+'') then tl t else t)
      in map_option (\<lambda>n. if neg then - int n else int n) (num_acc b True 0 (prefix t1)))"

definition py_int16 :: "string \<Rightarrow> int option" where
  "py_int16 s = signed_num 16 drop_0x s"

definition py_int10 :: "string \<Rightarrow> int option" where
  "py_int10 s = signed_num 10 (\<lambda>t. t) s"

definition parse_uuid :: "string \<Rightarrow> uuid option" where
  "parse_uuid s =
     (let h = remove_all ''-'' (strip_chars {CHR ''{'', CHR ''}''}
                (remove_all ''uuid:'' (remove_all ''urn:'' s)))
      in if length h \<noteq> 32 then None
         else (case py_int16 h of
                 None \<Rightarrow> None
               | Some i \<Rightarrow> if 0 \<le> i \<and> i < 2 ^ 128 then Some (word_of_int i) else None))"

subsection \<open>The text of an identifier\<close>

lemma of_char_hex_char: "d < 16 \<Longrightarrow> (of_char (hex_char d) :: nat) = (if d < 10 then 48 + d else 87 + d)"
  by (auto simp: hex_char_def take_bit_eq_mod)

lemma hex_val_hex_char [simp]: "d < 16 \<Longrightarrow> hex_val (hex_char d) = Some d"
  unfolding hex_val_def Let_def by (auto simp: of_char_hex_char)

lemma length_hex_digits [simp]: "length (hex_digits k n) = k"
  by (induction k arbitrary: n) auto

lemma set_hex_digits: "c \<in> set (hex_digits k n) \<Longrightarrow> \<exists>d<16. c = hex_char d"
proof (induction k arbitrary: n)
  case (Suc k)
  then have "c \<in> set (hex_digits k (n div 16)) \<or> c = hex_char (n mod 16)" by auto
  moreover have "n mod 16 < 16" by simp
  ultimately show ?case using Suc.IH by blast
qed simp

definition hexish :: "char \<Rightarrow> bool" where
  "hexish c \<longleftrightarrow> (\<exists>d<16. c = hex_char d)"

lemma hexish_code:
  assumes "hexish c"
  shows "(48 \<le> (of_char c :: nat) \<and> (of_char c :: nat) \<le> 57) \<or> (97 \<le> (of_char c :: nat) \<and> (of_char c :: nat) \<le> 102)"
proof -
  from assms obtain d where "d < 16" "c = hex_char d" unfolding hexish_def by blast
  then show ?thesis by (auto simp: of_char_hex_char)
qed

lemma not_hexish [simp]:
  "\<not> hexish CHR ''u''" "\<not> hexish CHR ''-''" "\<not> hexish CHR ''{''" "\<not> hexish CHR ''}''"
  "\<not> hexish CHR '':''" "\<not> hexish CHR ''_''" "\<not> hexish CHR ''+''" "\<not> hexish CHR ''x''" "\<not> hexish CHR ''X''"
  by (auto dest: hexish_code)

lemma hexish_not_space: "hexish c \<Longrightarrow> \<not> py_isspace c"
  by (auto dest!: hexish_code simp: py_isspace_def Let_def)

lemma hex_digits_hexish: "\<forall>c \<in> set (hex_digits k n). hexish c"
  using set_hex_digits by (auto simp: hexish_def)

lemma set_str_uuid: "c \<in> set (str_uuid u) \<Longrightarrow> hexish c \<or> c = CHR ''-''"
  unfolding str_uuid_def Let_def
  using hex_digits_hexish [of 32 "unat u"]
  by (auto dest!: in_set_dropD slice_set [THEN subsetD])

lemma length_str_uuid [simp]: "length (str_uuid u) = 36"
  by (simp add: str_uuid_def Let_def length_slice)

lemma colon_notin_str_uuid: "CHR '':'' \<notin> set (str_uuid u)"
  using set_str_uuid by fastforce

subsection \<open>Reading the text back\<close>

lemma remove_all_id: "p \<noteq> [] \<Longrightarrow> hd p \<notin> set s \<Longrightarrow> remove_all p s = s"
  by (induction s) (auto simp: take_Cons' neq_Nil_conv split: if_splits)

lemma remove_char: "remove_all [x] s = filter (\<lambda>c. c \<noteq> x) s"
  by (induction s) auto

lemma strip_chars_id: "\<forall>c \<in> set s. c \<notin> C \<Longrightarrow> strip_chars C s = s"
proof -
  assume s: "\<forall>c \<in> set s. c \<notin> C"
  have id: "dropWhile (\<lambda>c. c \<in> C) t = t" if "set t \<subseteq> set s" for t
    using that s by (cases t) auto
  show ?thesis by (simp add: strip_chars_def id)
qed

lemma py_strip_id: "\<forall>c \<in> set s. \<not> py_isspace c \<Longrightarrow> py_strip s = s"
proof -
  assume s: "\<forall>c \<in> set s. \<not> py_isspace c"
  have id: "dropWhile py_isspace t = t" if "set t \<subseteq> set s" for t
    using that s by (cases t) auto
  show ?thesis by (simp add: py_strip_def id)
qed

lemma filter_hyphens_str_uuid: "filter (\<lambda>c. c \<noteq> CHR ''-'') (str_uuid u) = hex_digits 32 (unat u)"
proof -
  let ?h = "hex_digits 32 (unat u)"
  have keep: "filter (\<lambda>c. c \<noteq> CHR ''-'') t = t" if "set t \<subseteq> set ?h" for t
  proof (rule filter_True, rule ballI, rule notI)
    fix c assume "c \<in> set t" "c = CHR ''-''"
    with that hex_digits_hexish [of 32 "unat u"] not_hexish(2) show False by blast
  qed
  have "?h = take 8 ?h @ take 4 (drop 8 ?h) @ take 4 (drop 12 ?h) @ take 4 (drop 16 ?h) @ drop 20 ?h"
    using append_take_drop_id [of 8 ?h] append_take_drop_id [of 4 "drop 8 ?h"]
      append_take_drop_id [of 4 "drop 12 ?h"] append_take_drop_id [of 4 "drop 16 ?h"]
    by (simp del: append_take_drop_id hex_digits.simps add: numeral_eq_Suc drop_drop)
  moreover have "set (take k (drop i ?h)) \<subseteq> set ?h" for k i
    using set_take_subset set_drop_subset by fast
  moreover have "set (take 8 ?h) \<subseteq> set ?h" "set (drop 20 ?h) \<subseteq> set ?h"
    by (rule set_take_subset set_drop_subset)+
  ultimately show ?thesis
    by (simp add: str_uuid_def Let_def slice_def keep)
qed

lemma num_acc_digits:
  "num_acc 16 us acc (hex_digits (Suc k) n @ xs) = num_acc 16 False (acc * 16 ^ Suc k + n mod 16 ^ Suc k) xs"
proof (induction k arbitrary: us acc n xs)
  case 0
  have "hex_char (n mod 16) \<noteq> CHR ''_''"
    using not_hexish(6) unfolding hexish_def by (metis mod_less_divisor zero_less_numeral)
  then show ?case by simp
next
  case (Suc k)
  have ne: "hex_char (n mod 16) \<noteq> CHR ''_''"
    using not_hexish(6) unfolding hexish_def by (metis mod_less_divisor zero_less_numeral)
  have split: "n mod 16 ^ Suc (Suc k) = (n div 16 mod 16 ^ Suc k) * 16 + n mod 16"
    by (metis add.commute mod_mult2_eq mult.commute power_Suc)
  have "num_acc 16 us acc (hex_digits (Suc (Suc k)) n @ xs)
      = num_acc 16 us acc (hex_digits (Suc k) (n div 16) @ (hex_char (n mod 16) # xs))"
    by simp
  also have "\<dots> = num_acc 16 False (acc * 16 ^ Suc k + n div 16 mod 16 ^ Suc k) (hex_char (n mod 16) # xs)"
    by (rule Suc.IH)
  also have "\<dots> = num_acc 16 False (acc * 16 ^ Suc (Suc k) + n mod 16 ^ Suc (Suc k)) xs"
    unfolding split using ne by (simp add: algebra_simps)
  finally show ?case .
qed

lemma drop_0x_hexish: "\<forall>c \<in> set s. hexish c \<Longrightarrow> drop_0x s = s"
  by (auto simp: drop_0x_def split: list.splits)

lemma py_int16_digits: "n < 16 ^ Suc k \<Longrightarrow> py_int16 (hex_digits (Suc k) n) = Some (int n)"
proof -
  assume n: "n < 16 ^ Suc k"
  let ?h = "hex_digits (Suc k) n"
  have hx: "\<forall>c \<in> set ?h. hexish c" by (rule hex_digits_hexish)
  then have strip: "py_strip ?h = ?h" by (intro py_strip_id) (blast dest: hexish_not_space)
  have "hd ?h \<in> set ?h" by (rule hd_in_set) simp
  with hx have "hexish (hd ?h)" by blast
  then have sign: "hd ?h \<noteq> CHR ''-''" "hd ?h \<noteq> CHR ''+''" by (metis not_hexish(2), metis not_hexish(7))
  have "num_acc 16 True 0 ?h = Some n"
    using num_acc_digits [of True 0 k n "[]"] n by simp
  with hx strip sign show ?thesis
    by (simp add: py_int16_def signed_num_def Let_def drop_0x_hexish del: hex_digits.simps)
qed

lemma parse_str_uuid [simp]: "parse_uuid (str_uuid u) = Some u"
proof -
  have u: "CHR ''u'' \<notin> set (str_uuid u)" using set_str_uuid not_hexish(1) by fastforce
  have r: "remove_all ''uuid:'' (remove_all ''urn:'' (str_uuid u)) = str_uuid u"
    using u by (simp add: remove_all_id)
  have s: "strip_chars {CHR ''{'', CHR ''}''} (str_uuid u) = str_uuid u"
    by (rule strip_chars_id) (use set_str_uuid not_hexish(3,4) in fastforce)
  have lt: "unat u < 16 ^ Suc 31" using unsigned_less [of u] by simp
  from py_int16_digits [OF this] have "py_int16 (hex_digits 32 (unat u)) = Some (int (unat u))"
    by (simp add: numeral_eq_Suc del: hex_digits.simps)
  moreover have "int (unat u) < 2 ^ 128" using unsigned_less [of u, where 'a = int] by simp
  ultimately show ?thesis
    unfolding parse_uuid_def Let_def r s remove_char filter_hyphens_str_uuid
    by (simp del: hex_digits.simps)
qed

lemma str_uuid_inject: "str_uuid u = str_uuid v \<longleftrightarrow> u = v"
  by (metis option.inject parse_str_uuid)

subsection \<open>Properties\<close>

text \<open>
  Printing an identifier and parsing it back is the identity on all 128-bit values, and the printed
  form always has 36 characters.
\<close>

theorem uuid_round_trip: "parse_uuid (str_uuid u) = Some u \<and> length (str_uuid u) = 36"
  by simp

end
