(* ===== verification/Errors.thy ===== *)
theory Errors
  imports Uuid
begin

text \<open>
  \<open>core/errors.py\<close>, \<open>schemas/common.py\<close> and \<open>api/exception_handlers.py\<close>: the status code, error
  code, message and details of every domain error, and the handlers that turn an exception
  into the uniform error envelope.  A response is its status, its headers and its JSON body.
\<close>

record http_response =
  resp_status :: int
  resp_headers :: "(string \<times> string) list"
  resp_body :: json

fun status_code :: "app_error \<Rightarrow> int" where
  "status_code (BadRequestError m) = 400"
| "status_code (UnauthorizedError m) = 401"
| "status_code (ForbiddenError m) = 403"
| "status_code (NotFoundError m) = 404"
| "status_code (PayloadTooLargeError m) = 413"
| "status_code (RateLimitedError r l) = 429"
| "status_code (DependencyUnavailableError d) = 503"

fun error_code :: "app_error \<Rightarrow> string" where
  "error_code (BadRequestError m) = ''bad_request''"
| "error_code (UnauthorizedError m) = ''unauthorized''"
| "error_code (ForbiddenError m) = ''forbidden''"
| "error_code (NotFoundError m) = ''not_found''"
| "error_code (PayloadTooLargeError m) = ''payload_too_large''"
| "error_code (RateLimitedError r l) = ''rate_limited''"
| "error_code (DependencyUnavailableError d) = ''dependency_unavailable''"

definition message_or :: "string option \<Rightarrow> string \<Rightarrow> string" where
  "message_or m dflt = (case m of Some s \<Rightarrow> if s = [] then dflt else s | None \<Rightarrow> dflt)"

fun error_message :: "app_error \<Rightarrow> string" where
  "error_message (BadRequestError m) = message_or m ''The request is invalid.''"
| "error_message (UnauthorizedError m) = message_or m ''Missing or invalid API credentials.''"
| "error_message (ForbiddenError m) =
     message_or m ''The authenticated tenant may not access this resource.''"
| "error_message (NotFoundError m) = message_or m ''Resource not found.''"
| "error_message (PayloadTooLargeError m) =
     message_or m ''Document payload exceeds the configured limit.''"
| "error_message (RateLimitedError r l) = ''Per-tenant rate limit exceeded.''"
| "error_message (DependencyUnavailableError d) =
     ''Dependency '' @ [CHR 0x27] @ d @ [CHR 0x27] @ '' is unavailable. Please retry.''"

fun error_details :: "app_error \<Rightarrow> (string \<times> json) list" where
  "error_details (RateLimitedError r l) =
     [(''retry_after_seconds'', JFloat (py_round 3 r)), (''limit_per_minute'', JInt l)]"
| "error_details (DependencyUnavailableError d) = [(''dependency'', JStr d)]"
| "error_details e = []"

definition envelope :: "string \<Rightarrow> string \<Rightarrow> string \<Rightarrow> (string \<times> json) list \<Rightarrow> json" where
  "envelope request_id c message details =
     JObj [(''error'', JObj
       [(''code'', JStr c), (''message'', JStr message),
        (''request_id'', JStr request_id), (''details'', JObj details)])]"

definition retry_after_header :: "real \<Rightarrow> int" where
  "retry_after_header r = max 1 (py_int r + 1)"

definition handle_app_error :: "string \<Rightarrow> app_error \<Rightarrow> http_response" where
  "handle_app_error request_id e =
     \<lparr>resp_status = status_code e,
      resp_headers =
        (case e of RateLimitedError r l \<Rightarrow> [(''Retry-After'', str_int (retry_after_header r))] | _ \<Rightarrow> []),
      resp_body = envelope request_id (error_code e) (error_message e) (error_details e)\<rparr>"

text \<open>One entry of \<open>RequestValidationError.errors()\<close>: its location path and its message.\<close>

datatype loc_item = LocStr string | LocInt int

fun str_loc :: "loc_item \<Rightarrow> string" where
  "str_loc (LocStr s) = s"
| "str_loc (LocInt i) = str_int i"

record validation_item =
  vi_loc :: "loc_item list"
  vi_msg :: "string option"

fun join_dots :: "string list \<Rightarrow> string" where
  "join_dots [] = []"
| "join_dots [x] = x"
| "join_dots (x # y # xs) = x @ ''.'' @ join_dots (y # xs)"

definition validation_field :: "validation_item \<Rightarrow> json" where
  "validation_field v =
     JObj [(''field'', JStr (join_dots (map str_loc (drop 1 (vi_loc v))))),
           (''reason'', JStr (case vi_msg v of Some m \<Rightarrow> m | None \<Rightarrow> ''invalid''))]"

definition handle_validation_error :: "string \<Rightarrow> validation_item list \<Rightarrow> http_response" where
  "handle_validation_error request_id errs =
     \<lparr>resp_status = 422, resp_headers = [],
      resp_body = envelope request_id ''validation_error'' ''Request validation failed.''
        [(''fields'', JArr (take 20 (map validation_field errs)))]\<rparr>"

definition handle_http_exception :: "string \<Rightarrow> int \<Rightarrow> string \<Rightarrow> http_response" where
  "handle_http_exception request_id st detail =
     (let c = (if st = 401 then ''unauthorized'' else if st = 403 then ''forbidden''
               else if st = 404 then ''not_found'' else if st = 405 then ''method_not_allowed''
               else ''http_error'')
      in \<lparr>resp_status = st, resp_headers = [], resp_body = envelope request_id c detail []\<rparr>)"

definition handle_unexpected :: "string \<Rightarrow> http_response" where
  "handle_unexpected request_id =
     \<lparr>resp_status = 500, resp_headers = [],
      resp_body = envelope request_id ''internal_error'' ''An internal error occurred. Please retry.'' []\<rparr>"

text \<open>The registration order resolves by exception class: domain errors first, the rest is unexpected.\<close>

definition handle_exn :: "string \<Rightarrow> exn \<Rightarrow> http_response" where
  "handle_exn request_id e =
     (case e of AppErr a \<Rightarrow> handle_app_error request_id a | _ \<Rightarrow> handle_unexpected request_id)"

subsection \<open>Lemmas\<close>

lemma retry_after_header_gt: "r < of_int (retry_after_header r)"
  using py_int_gt [of r] by (simp add: retry_after_header_def of_int_max)

lemma retry_after_header_pos: "1 \<le> retry_after_header r"
  by (simp add: retry_after_header_def)

lemma handle_exn_status: "400 \<le> resp_status (handle_exn i e) \<and> resp_status (handle_exn i e) < 600"
proof (cases e)
  case (AppErr a)
  then show ?thesis by (cases a) (simp_all add: handle_exn_def handle_app_error_def)
qed (simp_all add: handle_exn_def handle_unexpected_def)

subsection \<open>Properties\<close>

text \<open>
  Every exception becomes an error response with a client or server error status, and an exception that is not
  one of the domain errors gives the same response whatever it is, so that nothing of it crosses the API boundary.
\<close>

theorem error_envelope:
  "400 \<le> resp_status (handle_exn i e) \<and> resp_status (handle_exn i e) < 600 \<and>
   ((\<exists>a. e = AppErr a) \<or>
    handle_exn i e = \<lparr>resp_status = 500, resp_headers = [],
      resp_body = envelope i ''internal_error'' ''An internal error occurred. Please retry.'' []\<rparr>)"
  using handle_exn_status [of i e] by (cases e) (auto simp: handle_exn_def handle_unexpected_def)

end
