(* ===== verification/Resilience.thy ===== *)
theory Resilience
  imports Errors
begin

text \<open>
  \<open>core/resilience.py\<close>: the circuit breaker and the retry loop.  The clock readings
  (\<open>time.monotonic()\<close>) and the random jitter are arguments.  A protected call \<open>fn\<close> is a
  state-passing computation \<open>'s \<Rightarrow> 'a result \<times> 's\<close>.  \<open>cb_call\<close> is one call that runs to its end
  alone; \<open>cb_step\<close> interleaves the phases of many calls, which is how the event loop runs them
  (each phase holds the lock, the awaited call in the middle does not).  \<open>cb_gauge\<close> is the value last set in the gauge
  \<open>circuit_breaker_state\<close> under the name of the breaker.
\<close>

datatype circuit_state = CLOSED | OPEN | HALF_OPEN

record breaker =
  cb_name :: string
  failure_threshold :: int
  recovery_seconds :: real
  cb_failures :: int
  cb_opened_at :: real
  cb_state :: circuit_state
  cb_gauge :: int

fun state_value :: "circuit_state \<Rightarrow> int" where
  "state_value CLOSED = 0"
| "state_value HALF_OPEN = 1"
| "state_value OPEN = 2"

definition new_breaker :: "string \<Rightarrow> int \<Rightarrow> real \<Rightarrow> breaker" where
  "new_breaker name threshold recovery =
     \<lparr>cb_name = name, failure_threshold = threshold, recovery_seconds = recovery,
      cb_failures = 0, cb_opened_at = 0, cb_state = CLOSED, cb_gauge = 0\<rparr>"

definition set_state :: "circuit_state \<Rightarrow> breaker \<Rightarrow> breaker" where
  "set_state state b = b\<lparr>cb_state := state, cb_gauge := state_value state\<rparr>"

definition before_call :: "real \<Rightarrow> breaker \<Rightarrow> unit result \<times> breaker" where
  "before_call now b =
     (if cb_state b = OPEN
      then (if now - cb_opened_at b \<ge> recovery_seconds b
            then (Inr (), set_state HALF_OPEN b)
            else (Inl (AppErr (DependencyUnavailableError (cb_name b))), b))
      else (Inr (), b))"

definition on_success :: "breaker \<Rightarrow> breaker" where
  "on_success b = set_state CLOSED (b\<lparr>cb_failures := 0\<rparr>)"

definition on_failure :: "real \<Rightarrow> breaker \<Rightarrow> breaker" where
  "on_failure now b =
     (let b1 = b\<lparr>cb_failures := cb_failures b + 1\<rparr>
      in if cb_state b1 = HALF_OPEN \<or> cb_failures b1 \<ge> failure_threshold b1
         then set_state OPEN (b1\<lparr>cb_opened_at := now\<rparr>) else b1)"

fun is_dependency_error :: "exn \<Rightarrow> bool" where
  "is_dependency_error (AppErr (DependencyUnavailableError d)) = True"
| "is_dependency_error e = False"

definition cb_call ::
  "real \<Rightarrow> real \<Rightarrow> ('s \<Rightarrow> 'a result \<times> 's) \<Rightarrow> breaker \<Rightarrow> 's \<Rightarrow> 'a result \<times> breaker \<times> 's" where
  "cb_call now later fn b s =
     (case before_call now b of
        (Inl e, b1) \<Rightarrow> (Inl e, b1, s)
      | (Inr _, b1) \<Rightarrow>
          (case fn s of
             (Inr a, s1) \<Rightarrow> (Inr a, on_success b1, s1)
           | (Inl e, s1) \<Rightarrow>
               if is_dependency_error e then (Inl e, b1, s1)
               else (Inl e, on_failure later b1, s1)))"

definition backoff_delay :: "real \<Rightarrow> real \<Rightarrow> nat \<Rightarrow> real" where
  "backoff_delay base_delay max_delay attempt = min max_delay (base_delay * 2 ^ (attempt - 1))"

text \<open>
  The loop \<open>for attempt in range(1, attempts + 1)\<close>: \<open>n\<close> iterations are left, \<open>rnd attempt\<close> is the
  number in \<open>[0, 1]\<close> behind \<open>random.uniform(0, delay)\<close>.  The last component lists the sleeps.
\<close>

fun retry_loop ::
  "(exn \<Rightarrow> bool) \<Rightarrow> real \<Rightarrow> real \<Rightarrow> (nat \<Rightarrow> real) \<Rightarrow> ('s \<Rightarrow> 'a result \<times> 's) \<Rightarrow> nat \<Rightarrow> nat \<Rightarrow> exn option
   \<Rightarrow> 's \<Rightarrow> 'a result \<times> 's \<times> real list" where
  "retry_loop retry_on base mx rnd fn 0 attempt last_exc s =
     ((case last_exc of None \<Rightarrow> Inl AssertionErr | Some e \<Rightarrow> Inl e), s, [])"
| "retry_loop retry_on base mx rnd fn (Suc n) attempt last_exc s =
     (case fn s of
        (Inr a, s1) \<Rightarrow> (Inr a, s1, [])
      | (Inl e, s1) \<Rightarrow>
          if \<not> retry_on e then (Inl e, s1, [])
          else if n = 0 then (Inl e, s1, [])
          else (case retry_loop retry_on base mx rnd fn n (attempt + 1) (Some e) s1 of
                  (r, s2, sleeps) \<Rightarrow> (r, s2, rnd attempt * backoff_delay base mx attempt # sleeps)))"

definition with_retry ::
  "int \<Rightarrow> (exn \<Rightarrow> bool) \<Rightarrow> real \<Rightarrow> real \<Rightarrow> (nat \<Rightarrow> real) \<Rightarrow> ('s \<Rightarrow> 'a result \<times> 's) \<Rightarrow> 's
   \<Rightarrow> 'a result \<times> 's \<times> real list" where
  "with_retry attempts retry_on base mx rnd fn s =
     retry_loop retry_on base mx rnd fn (nat attempts) 1 None s"

text \<open>
  Interleaved calls.  \<open>inflight\<close> counts the calls between \<open>_before_call\<close> and their end; \<open>clock\<close>
  is the last reading of the monotonic clock.
\<close>

record cb_system =
  cbs_breaker :: breaker
  cbs_inflight :: nat
  cbs_clock :: real

inductive cb_step :: "cb_system \<Rightarrow> cb_system \<Rightarrow> bool" where
  cb_begin: "\<lbrakk>cbs_clock s \<le> now; before_call now (cbs_breaker s) = (Inr (), b)\<rbrakk> \<Longrightarrow>
     cb_step s \<lparr>cbs_breaker = b, cbs_inflight = Suc (cbs_inflight s), cbs_clock = now\<rparr>"
| cb_reject: "\<lbrakk>cbs_clock s \<le> now; before_call now (cbs_breaker s) = (Inl e, b)\<rbrakk> \<Longrightarrow>
     cb_step s \<lparr>cbs_breaker = b, cbs_inflight = cbs_inflight s, cbs_clock = now\<rparr>"
| cb_succeed: "\<lbrakk>cbs_clock s \<le> now; cbs_inflight s = Suc n\<rbrakk> \<Longrightarrow>
     cb_step s \<lparr>cbs_breaker = on_success (cbs_breaker s), cbs_inflight = n, cbs_clock = now\<rparr>"
| cb_fail: "\<lbrakk>cbs_clock s \<le> now; cbs_inflight s = Suc n\<rbrakk> \<Longrightarrow>
     cb_step s \<lparr>cbs_breaker = on_failure now (cbs_breaker s), cbs_inflight = n, cbs_clock = now\<rparr>"
| cb_pass: "\<lbrakk>cbs_clock s \<le> now; cbs_inflight s = Suc n\<rbrakk> \<Longrightarrow>
     cb_step s \<lparr>cbs_breaker = cbs_breaker s, cbs_inflight = n, cbs_clock = now\<rparr>"

inductive cb_reach :: "breaker \<Rightarrow> cb_system \<Rightarrow> bool" for b0 where
  cb_start: "cb_reach b0 \<lparr>cbs_breaker = b0, cbs_inflight = 0, cbs_clock = 0\<rparr>"
| cb_next: "cb_reach b0 s \<Longrightarrow> cb_step s t \<Longrightarrow> cb_reach b0 t"

text \<open>Closed exactly while fewer than the threshold failures have been counted since a success; the gauge shows the state.\<close>

definition cb_inv :: "breaker \<Rightarrow> bool" where
  "cb_inv b \<longleftrightarrow> 0 \<le> cb_failures b \<and> (cb_state b = CLOSED \<longleftrightarrow> cb_failures b < failure_threshold b) \<and>
     cb_gauge b = state_value (cb_state b)"

text \<open>The state of \<open>fn\<close> before its \<open>k\<close>-th further call, and the outcome of that call.\<close>

definition state_after :: "('s \<Rightarrow> 'a result \<times> 's) \<Rightarrow> nat \<Rightarrow> 's \<Rightarrow> 's" where
  "state_after fn k s = ((snd \<circ> fn) ^^ k) s"

text \<open>A call that fails once and then succeeds, counting its invocations.\<close>

definition flaky :: "nat \<Rightarrow> nat result \<times> nat" where
  "flaky k = (if k < 1 then Inl TypeErr else Inr k, k + 1)"

inductive_cases cb_stepE: "cb_step s t"

subsection \<open>The breaker\<close>

lemma before_call_inv: "cb_inv b \<Longrightarrow> cb_inv (snd (before_call now b))"
  by (auto simp: cb_inv_def set_state_def before_call_def)

lemma on_success_inv: "0 < failure_threshold b \<Longrightarrow> cb_inv (on_success b)"
  by (simp add: cb_inv_def set_state_def on_success_def)

lemma on_failure_inv: "cb_inv b \<Longrightarrow> cb_inv (on_failure now b)"
  by (cases "cb_state b") (auto simp: cb_inv_def set_state_def on_failure_def Let_def)

lemma threshold_const [simp]:
  "failure_threshold (snd (before_call now b)) = failure_threshold b"
  "failure_threshold (on_success b) = failure_threshold b"
  "failure_threshold (on_failure now b) = failure_threshold b"
  by (simp_all add: before_call_def on_success_def on_failure_def set_state_def Let_def)

lemma recovery_const [simp]:
  "recovery_seconds (snd (before_call now b)) = recovery_seconds b"
  "recovery_seconds (on_success b) = recovery_seconds b"
  "recovery_seconds (on_failure now b) = recovery_seconds b"
  by (simp_all add: before_call_def on_success_def on_failure_def set_state_def Let_def)

lemma before_call_snd: "before_call now b = (r, b') \<Longrightarrow> b' = snd (before_call now b)"
  by simp

lemma cb_step_inv:
  "cb_step s t \<Longrightarrow> 0 < failure_threshold (cbs_breaker s) \<Longrightarrow> cb_inv (cbs_breaker s) \<Longrightarrow>
   cb_inv (cbs_breaker t) \<and> failure_threshold (cbs_breaker t) = failure_threshold (cbs_breaker s)"
  by (elim cb_stepE) (auto dest!: before_call_snd simp: before_call_inv on_success_inv on_failure_inv)

lemma cb_reach_inv:
  assumes "cb_reach (new_breaker name th rec) s" and "0 < th"
  shows "cb_inv (cbs_breaker s) \<and> failure_threshold (cbs_breaker s) = th"
  using assms
proof (induction rule: cb_reach.induct)
  case cb_start
  then show ?case by (simp add: cb_inv_def new_breaker_def)
next
  case (cb_next s t)
  then show ?case using cb_step_inv by force
qed

subsection \<open>The retry loop\<close>

lemma state_after_0 [simp]: "state_after fn 0 s = s"
  by (simp add: state_after_def)

lemma state_after_Suc: "state_after fn (Suc k) s = state_after fn k (snd (fn s))"
  by (simp add: state_after_def funpow_Suc_right del: funpow.simps)

lemma retry_loop_first_success:
  assumes "k < n" and "\<And>j. j < k \<Longrightarrow> \<exists>e. fst (fn (state_after fn j s)) = Inl e \<and> retry_on e"
    and "fn (state_after fn k s) = (Inr a, s')"
  shows "fst (retry_loop retry_on base mx rnd fn n att last_exc s) = Inr a \<and>
    fst (snd (retry_loop retry_on base mx rnd fn n att last_exc s)) = s'"
  using assms
proof (induction k arbitrary: n att last_exc s)
  case 0
  then show ?case by (cases n) auto
next
  case (Suc k)
  obtain m where n: "n = Suc m" using Suc.prems(1) by (cases n) auto
  obtain e s1 where e: "fn s = (Inl e, s1)" "retry_on e"
    using Suc.prems(2) [of 0] by (cases "fn s") auto
  have IH: "fst (retry_loop retry_on base mx rnd fn m (att + 1) (Some e) s1) = Inr a \<and>
    fst (snd (retry_loop retry_on base mx rnd fn m (att + 1) (Some e) s1)) = s'"
  proof (rule Suc.IH)
    show "k < m" using Suc.prems(1) n by simp
    show "\<exists>e. fst (fn (state_after fn j s1)) = Inl e \<and> retry_on e" if "j < k" for j
      using Suc.prems(2) [of "Suc j"] that e by (simp add: state_after_Suc)
    show "fn (state_after fn k s1) = (Inr a, s')"
      using Suc.prems(3) e by (simp add: state_after_Suc)
  qed
  moreover have "m \<noteq> 0" using Suc.prems(1) n by auto
  ultimately show ?case using n e by (auto split: prod.splits)
qed

lemma retry_loop_exhausted:
  assumes "\<And>j. j \<le> n \<Longrightarrow> \<exists>e. fst (fn (state_after fn j s)) = Inl e \<and> retry_on e"
  shows "fst (retry_loop retry_on base mx rnd fn (Suc n) att last_exc s) = fst (fn (state_after fn n s)) \<and>
    fst (snd (retry_loop retry_on base mx rnd fn (Suc n) att last_exc s)) = state_after fn (Suc n) s"
  using assms
proof (induction n arbitrary: att last_exc s)
  case 0
  obtain e s1 where "fn s = (Inl e, s1)" "retry_on e"
    using 0 [of 0] by (cases "fn s") auto
  then show ?case by (simp add: state_after_Suc)
next
  case (Suc n)
  obtain e s1 where e: "fn s = (Inl e, s1)" "retry_on e"
    using Suc.prems [of 0] by (cases "fn s") auto
  have "\<exists>e. fst (fn (state_after fn j s1)) = Inl e \<and> retry_on e" if "j \<le> n" for j
    using Suc.prems [of "Suc j"] that e by (simp add: state_after_Suc)
  from Suc.IH [OF this, of "att + 1" "Some e"] e show ?case
    by (auto simp: state_after_Suc split: prod.splits)
qed

lemma backoff_delay_bounds: "0 \<le> base \<Longrightarrow> 0 \<le> mx \<Longrightarrow> 0 \<le> backoff_delay base mx k \<and> backoff_delay base mx k \<le> mx"
  by (simp add: backoff_delay_def)

lemma retry_loop_sleeps:
  assumes "0 \<le> base" "0 \<le> mx" "\<And>k. 0 \<le> rnd k \<and> rnd k \<le> 1"
  shows "length (snd (snd (retry_loop retry_on base mx rnd fn n att last_exc s))) \<le> n - 1 \<and>
    (\<forall>d \<in> set (snd (snd (retry_loop retry_on base mx rnd fn n att last_exc s))). 0 \<le> d \<and> d \<le> mx)"
proof (induction n arbitrary: att last_exc s)
  case 0
  then show ?case by simp
next
  case (Suc n)
  have d: "0 \<le> rnd att * backoff_delay base mx att \<and> rnd att * backoff_delay base mx att \<le> mx"
    using assms(3) [of att] backoff_delay_bounds [OF assms(1,2), of att]
    by (metis mult_left_le_one_le mult_nonneg_nonneg order.trans)
  show ?case
  proof (cases "fn s")
    case (Pair r s1)
    then show ?thesis
      using Suc.IH [of "att + 1" "Some (projl r)" s1] d
      by (cases r) (auto split: prod.splits)
  qed
qed

subsection \<open>Properties\<close>

text \<open>
  C31: However calls interleave, the circuit is closed exactly while fewer failures than the threshold have been counted
  since the last success, and the gauge that is scraped shows the state it is in.
\<close>

theorem breaker_invariant:
  assumes "cb_reach (new_breaker name th rec) s" "0 < th"
  shows "0 \<le> cb_failures (cbs_breaker s) \<and> (cb_state (cbs_breaker s) = CLOSED \<longleftrightarrow> cb_failures (cbs_breaker s) < th) \<and>
    cb_gauge (cbs_breaker s) = state_value (cb_state (cbs_breaker s))"
  using cb_reach_inv [OF assms] by (simp add: cb_inv_def)

theorem breaker_invariant_witness:
  "(cb_state (new_breaker ''os'' 5 10) = CLOSED \<longleftrightarrow> cb_failures (new_breaker ''os'' 5 10) < 5) \<and>
   cb_gauge (new_breaker ''os'' 5 10) = state_value (cb_state (new_breaker ''os'' 5 10))"
  using breaker_invariant [OF cb_start [of "new_breaker ''os'' 5 10"]] by simp

text \<open>
  While the circuit is open and the recovery window has not passed, a call fails fast: it raises the dependency
  error, and neither the protected function runs nor the breaker changes.
\<close>

theorem open_circuit_fails_fast:
  assumes "cb_state b = OPEN" "now - cb_opened_at b < recovery_seconds b"
  shows "cb_call now later fn b s = (Inl (AppErr (DependencyUnavailableError (cb_name b))), b, s)"
  using assms by (simp add: cb_call_def before_call_def)

theorem open_circuit_fails_fast_witness:
  "cb_call 3 4 (\<lambda>n. (Inr (), n + 1)) ((new_breaker ''os'' 1 10)\<lparr>cb_state := OPEN\<rparr>) (0 :: nat) =
   (Inl (AppErr (DependencyUnavailableError ''os'')), (new_breaker ''os'' 1 10)\<lparr>cb_state := OPEN\<rparr>, 0)"
  using open_circuit_fails_fast [of "(new_breaker ''os'' 1 10)\<lparr>cb_state := OPEN\<rparr>" 3 4] by (simp add: new_breaker_def)

text \<open>
  C32: A retried call gives the first success among its attempts with the state that attempt left; if all attempts
  raise retryable exceptions it raises the last one after exactly that many calls; and the sleeps are fewer than the attempts and each at most
  the maximum delay.
\<close>

theorem retry_semantics:
  assumes "0 \<le> base" "0 \<le> mx" "\<forall>k. 0 \<le> rnd k \<and> rnd k \<le> 1" "0 < n"
    "\<forall>j < n. (\<exists>e. fst (fn (state_after fn j s)) = Inl e \<and> retry_on e) \<or> is_ok (fst (fn (state_after fn j s)))"
  shows "(\<forall>k a s'. k < n \<longrightarrow> (\<forall>j < k. \<not> is_ok (fst (fn (state_after fn j s)))) \<longrightarrow> fn (state_after fn k s) = (Inr a, s') \<longrightarrow>
        fst (with_retry (int n) retry_on base mx rnd fn s) = Inr a \<and>
        fst (snd (with_retry (int n) retry_on base mx rnd fn s)) = s') \<and>
    ((\<forall>j < n. \<not> is_ok (fst (fn (state_after fn j s)))) \<longrightarrow>
        fst (with_retry (int n) retry_on base mx rnd fn s) = fst (fn (state_after fn (n - 1) s)) \<and>
        fst (snd (with_retry (int n) retry_on base mx rnd fn s)) = state_after fn n s) \<and>
    length (snd (snd (with_retry (int n) retry_on base mx rnd fn s))) < n \<and>
    (\<forall>d \<in> set (snd (snd (with_retry (int n) retry_on base mx rnd fn s))). 0 \<le> d \<and> d \<le> mx)"
proof -
  have bad: "\<exists>e. fst (fn (state_after fn j s)) = Inl e \<and> retry_on e"
    if "j < n" "\<not> is_ok (fst (fn (state_after fn j s)))" for j
    using assms(5) that by blast
  obtain m where m: "n = Suc m" using assms(4) by (cases n) auto
  have ok: "fst (with_retry (int n) retry_on base mx rnd fn s) = Inr a \<and>
        fst (snd (with_retry (int n) retry_on base mx rnd fn s)) = s'"
    if "k < n" "\<forall>j < k. \<not> is_ok (fst (fn (state_after fn j s)))" "fn (state_after fn k s) = (Inr a, s')" for k a s'
    unfolding with_retry_def nat_int using bad that by (intro retry_loop_first_success) auto
  have ex: "fst (with_retry (int n) retry_on base mx rnd fn s) = fst (fn (state_after fn (n - 1) s)) \<and>
        fst (snd (with_retry (int n) retry_on base mx rnd fn s)) = state_after fn n s"
    if "\<forall>j < n. \<not> is_ok (fst (fn (state_after fn j s)))"
    using retry_loop_exhausted [of m fn s retry_on base mx rnd 1 None] bad that
    by (simp add: with_retry_def m del: retry_loop.simps of_nat_Suc)
  have "length (snd (snd (with_retry (int n) retry_on base mx rnd fn s))) \<le> n - 1 \<and>
    (\<forall>d \<in> set (snd (snd (with_retry (int n) retry_on base mx rnd fn s))). 0 \<le> d \<and> d \<le> mx)"
    unfolding with_retry_def nat_int using assms(1-3) by (intro retry_loop_sleeps) auto
  with ok ex assms(4) show ?thesis by auto
qed

theorem retry_semantics_witness:
  "fst (with_retry (int 3) (\<lambda>_. True) (1/20) (1/2) (\<lambda>_. 1) flaky 0) = Inr 1"
proof -
  have st: "state_after flaky j s = s + j" for j s
    by (induction j arbitrary: s) (simp_all add: state_after_Suc flaky_def)
  have "\<forall>j < 3. (\<exists>e. fst (flaky (state_after flaky j 0)) = Inl e \<and> True) \<or> is_ok (fst (flaky (state_after flaky j 0)))"
    by (auto simp: st flaky_def)
  moreover have "\<forall>j < 1. \<not> is_ok (fst (flaky (state_after flaky j 0)))" "flaky (state_after flaky 1 0) = (Inr 1, 2)"
    by (simp_all add: st flaky_def)
  moreover have "\<forall>k :: nat. (0 :: real) \<le> (\<lambda>_. 1) k \<and> (\<lambda>_. 1) k \<le> (1 :: real)" by simp
  ultimately show ?thesis
    using retry_semantics [of "1/20" "1/2" "\<lambda>_. 1" 3 flaky 0 "\<lambda>_. True", THEN conjunct1, rule_format, of 1 1 2] by fastforce
qed

text \<open>
  An open circuit does not always wait for its recovery window: a call that was already in flight when the
  circuit opened closes it as soon as it succeeds.
\<close>

theorem late_success_closes:
  "\<exists>s t. cb_reach (new_breaker ''opensearch'' 1 10) s \<and> cb_state (cbs_breaker s) = OPEN \<and> cb_step s t \<and>
     cbs_clock t - cb_opened_at (cbs_breaker s) < recovery_seconds (cbs_breaker s) \<and> cb_state (cbs_breaker t) = CLOSED"
proof -
  let ?b = "new_breaker ''opensearch'' 1 10"
  let ?o = "?b\<lparr>cb_failures := 1, cb_opened_at := 1, cb_state := OPEN, cb_gauge := 2\<rparr>"
  let ?s0 = "\<lparr>cbs_breaker = ?b, cbs_inflight = 0, cbs_clock = 0\<rparr>"
  let ?s1 = "\<lparr>cbs_breaker = ?b, cbs_inflight = 1, cbs_clock = 0\<rparr>"
  let ?s2 = "\<lparr>cbs_breaker = ?b, cbs_inflight = 2, cbs_clock = 0\<rparr>"
  let ?s3 = "\<lparr>cbs_breaker = ?o, cbs_inflight = 1, cbs_clock = 1\<rparr>"
  let ?s4 = "\<lparr>cbs_breaker = on_success ?o, cbs_inflight = 0, cbs_clock = 2\<rparr>"
  have "cb_step ?s0 ?s1" using cb_begin [of ?s0 0 ?b] by (simp add: before_call_def new_breaker_def)
  moreover have "cb_step ?s1 ?s2" using cb_begin [of ?s1 0 ?b] by (simp add: before_call_def new_breaker_def numeral_2_eq_2)
  moreover have "cb_step ?s2 ?s3" using cb_fail [of ?s2 1 1] by (simp add: on_failure_def set_state_def new_breaker_def)
  ultimately have r: "cb_reach ?b ?s3" by (meson cb_reach.intros)
  have "cb_step ?s3 ?s4" using cb_succeed [of ?s3 2 0] by simp
  with r show ?thesis by (intro exI [of _ ?s3] exI [of _ ?s4]) (simp add: on_success_def set_state_def new_breaker_def)
qed

end
