(* ===== verification/Cache_Keys.thy ===== *)
theory Cache_Keys
  imports Uuid
begin

text \<open>
  \<open>services/cache_keys.py\<close>: the construction of every cache key, and the facts that make the
  key space tenant-safe.  \<open>hexdigest\<close> stands for \<open>hashlib.sha256(text.encode("utf-8")).hexdigest()\<close>;
  what the code relies on is that the digest is hexadecimal text (so it has no colon) and that
  two different canonical queries in use do not collide on its first 24 characters.
\<close>

definition normalize_query :: "string \<Rightarrow> string" where
  "normalize_query text = collapse_ws (py_lower (py_strip text))"

definition search_generation_key :: "string \<Rightarrow> string" where
  "search_generation_key tenant_id = ''t:'' @ tenant_id @ '':search:gen''"

definition search_canonical :: "string \<Rightarrow> int \<Rightarrow> int \<Rightarrow> bool \<Rightarrow> bool \<Rightarrow> bool \<Rightarrow> string" where
  "search_canonical query page sz fuzzy highlight facets =
     normalize_query query @ ''|p='' @ str_int page @ ''|s='' @ str_int sz @
     ''|f='' @ str_flag fuzzy @ ''|h='' @ str_flag highlight @ ''|a='' @ str_flag facets"

definition search_key ::
  "(string \<Rightarrow> string) \<Rightarrow> string \<Rightarrow> int \<Rightarrow> string \<Rightarrow> int \<Rightarrow> int \<Rightarrow> bool \<Rightarrow> bool \<Rightarrow> bool \<Rightarrow> string" where
  "search_key hexdigest tenant_id generation query page sz fuzzy highlight facets =
     (let canonical = search_canonical query page sz fuzzy highlight facets;
          digest = take 24 (hexdigest canonical)
      in ''t:'' @ tenant_id @ '':search:g'' @ str_int generation @ '':'' @ digest)"

definition document_key :: "string \<Rightarrow> string \<Rightarrow> string" where
  "document_key tenant_id document_id = ''t:'' @ tenant_id @ '':doc:'' @ document_id"

definition tenant_key :: "string \<Rightarrow> string" where
  "tenant_key api_key_hash = ''auth:key:'' @ api_key_hash"

definition rate_limit_key :: "string \<Rightarrow> string \<Rightarrow> string" where
  "rate_limit_key tenant_id bucket = ''rl:'' @ tenant_id @ '':'' @ bucket"

text \<open>A digest function whose values are lower-case hexadecimal text, as \<open>hexdigest\<close> documents.\<close>

definition hex_text :: "(string \<Rightarrow> string) \<Rightarrow> bool" where
  "hex_text hexdigest \<longleftrightarrow> (\<forall>s. \<forall>c \<in> set (hexdigest s). hexish c)"

subsection \<open>Normalisation\<close>

lemma normalize_query_lower: "py_lower (normalize_query q) = normalize_query q"
  by (simp add: normalize_query_def lower_collapse text_simps)

lemma word_runs_normalize: "word_runs (py_lower (normalize_query q)) = word_runs (py_lower q)"
  by (simp add: normalize_query_lower)
     (simp add: normalize_query_def word_runs_collapse lower_strip word_runs_strip)

lemma collapse_ws_fixed_hd:
  "\<not> py_isspace c \<Longrightarrow> collapse_ws (c # cs) = c # collapse_ws cs"
  by simp

subsection \<open>Canonical queries\<close>

lemma bar_notin_int [simp]: "CHR ''|'' \<notin> set (str_int i)"
  by (rule char_notin_str_int) simp

lemma bar_notin_flag [simp]: "CHR ''|'' \<notin> set (str_flag b)"
  by (simp add: str_flag_def)

lemma colon_notin_int [simp]: "CHR '':'' \<notin> set (str_int i)"
  by (rule char_notin_str_int) simp

lemma split_last_bar:
  "xs @ CHR ''|'' # ys = xs' @ CHR ''|'' # ys' \<Longrightarrow> CHR ''|'' \<notin> set ys \<Longrightarrow> CHR ''|'' \<notin> set ys'
   \<Longrightarrow> xs = xs' \<and> ys = ys'"
  by (rule append_eq_last_sep)

lemma search_canonical_inject:
  assumes "search_canonical q p s f h a = search_canonical q' p' s' f' h' a'"
  shows "normalize_query q = normalize_query q' \<and> p = p' \<and> s = s' \<and> f = f' \<and> h = h' \<and> a = a'"
proof -
  let ?A = "\<lambda>q p s f h. normalize_query q @ ''|p='' @ str_int p @ ''|s='' @ str_int s @ ''|f='' @ str_flag f @ ''|h='' @ str_flag h"
  let ?H = "\<lambda>q p s f. normalize_query q @ ''|p='' @ str_int p @ ''|s='' @ str_int s @ ''|f='' @ str_flag f"
  let ?F = "\<lambda>q p s. normalize_query q @ ''|p='' @ str_int p @ ''|s='' @ str_int s"
  let ?S = "\<lambda>q p. normalize_query q @ ''|p='' @ str_int p"
  have "?A q p s f h @ CHR ''|'' # (''a='' @ str_flag a) = ?A q' p' s' f' h' @ CHR ''|'' # (''a='' @ str_flag a')"
    using assms by (simp add: search_canonical_def)
  from split_last_bar [OF this] have 1: "?A q p s f h = ?A q' p' s' f' h'" "a = a'"
    by (auto simp: str_flag_inject)
  from 1(1) have "?H q p s f @ CHR ''|'' # (''h='' @ str_flag h) = ?H q' p' s' f' @ CHR ''|'' # (''h='' @ str_flag h')"
    by simp
  from split_last_bar [OF this] have 2: "?H q p s f = ?H q' p' s' f'" "h = h'"
    by (auto simp: str_flag_inject)
  from 2(1) have "?F q p s @ CHR ''|'' # (''f='' @ str_flag f) = ?F q' p' s' @ CHR ''|'' # (''f='' @ str_flag f')"
    by simp
  from split_last_bar [OF this] have 3: "?F q p s = ?F q' p' s'" "f = f'"
    by (auto simp: str_flag_inject)
  from 3(1) have "?S q p @ CHR ''|'' # (''s='' @ str_int s) = ?S q' p' @ CHR ''|'' # (''s='' @ str_int s')"
    by simp
  from split_last_bar [OF this] have 4: "?S q p = ?S q' p'" "s = s'"
    by (auto dest: str_int_inject)
  from 4(1) have "normalize_query q @ CHR ''|'' # (''p='' @ str_int p) = normalize_query q' @ CHR ''|'' # (''p='' @ str_int p')"
    by simp
  from split_last_bar [OF this] have 5: "normalize_query q = normalize_query q'" "p = p'"
    by (auto dest: str_int_inject)
  from 1 2 3 4 5 show ?thesis by blast
qed

subsection \<open>Tenant separation of the key space\<close>

lemma colon_notin_digest: "hex_text d \<Longrightarrow> CHR '':'' \<notin> set (take n (d s))"
  using not_hexish(5) unfolding hex_text_def by (blast dest: in_set_takeD)

lemma search_key_inject:
  assumes hex: "hex_text d"
    and eq: "search_key d t g q p s f h a = search_key d t' g' q' p' s' f' h' a'"
  shows "t = t' \<and> g = g' \<and>
    take 24 (d (search_canonical q p s f h a)) = take 24 (d (search_canonical q' p' s' f' h' a'))"
proof -
  let ?D = "take 24 (d (search_canonical q p s f h a))" and ?D' = "take 24 (d (search_canonical q' p' s' f' h' a'))"
  have "(''t:'' @ t @ '':search:g'' @ str_int g) @ CHR '':'' # ?D = (''t:'' @ t' @ '':search:g'' @ str_int g') @ CHR '':'' # ?D'"
    using eq by (simp add: search_key_def Let_def)
  from append_eq_last_sep [OF this] have 1: "''t:'' @ t @ '':search:g'' @ str_int g = ''t:'' @ t' @ '':search:g'' @ str_int g'" "?D = ?D'"
    using colon_notin_digest [OF hex] by auto
  from 1(1) have "(t @ '':search'') @ CHR '':'' # (CHR ''g'' # str_int g) = (t' @ '':search'') @ CHR '':'' # (CHR ''g'' # str_int g')"
    by simp
  from append_eq_last_sep [OF this] have "t = t'" "g = g'"
    by (auto dest: str_int_inject)
  with 1 show ?thesis by blast
qed

lemma document_key_inject:
  assumes "document_key t (str_uuid u) = document_key t' (str_uuid u')"
  shows "t = t' \<and> u = u'"
proof -
  have "(t @ '':doc'') @ CHR '':'' # str_uuid u = (t' @ '':doc'') @ CHR '':'' # str_uuid u'"
    using assms by (simp add: document_key_def)
  from append_eq_last_sep [OF this] show ?thesis
    using colon_notin_str_uuid by (auto simp: str_uuid_inject)
qed

lemma search_generation_key_inject: "search_generation_key t = search_generation_key t' \<longleftrightarrow> t = t'"
  by (simp add: search_generation_key_def)

lemma rate_limit_key_inject:
  assumes "rate_limit_key t b = rate_limit_key t' b'" and "CHR '':'' \<notin> set b" "CHR '':'' \<notin> set b'"
  shows "t = t' \<and> b = b'"
  using assms append_eq_last_sep [of t "CHR '':''" b t' b'] by (simp add: rate_limit_key_def)

lemma document_key_not_generation: "document_key t (str_uuid u) \<noteq> search_generation_key t'"
proof
  assume "document_key t (str_uuid u) = search_generation_key t'"
  then have "(t @ '':doc'') @ CHR '':'' # str_uuid u = (t' @ '':search'') @ CHR '':'' # ''gen''"
    by (simp add: document_key_def search_generation_key_def)
  from append_eq_last_sep [OF this] have "str_uuid u = ''gen''"
    using colon_notin_str_uuid by simp
  then have "length (str_uuid u) = 3" by simp
  then show False by simp
qed

lemma search_key_not_document:
  assumes "hex_text d"
  shows "search_key d t g q p s f h a \<noteq> document_key t' (str_uuid u)"
proof
  let ?D = "take 24 (d (search_canonical q p s f h a))"
  assume "search_key d t g q p s f h a = document_key t' (str_uuid u)"
  then have "(t @ '':search:g'' @ str_int g) @ CHR '':'' # ?D = (t' @ '':doc'') @ CHR '':'' # str_uuid u"
    by (simp add: document_key_def search_key_def Let_def)
  from append_eq_last_sep [OF this] have "?D = str_uuid u"
    using colon_notin_str_uuid colon_notin_digest [OF assms] by blast
  then have "length ?D = 36" by simp
  then show False by simp
qed

lemma search_key_not_generation:
  assumes "hex_text d"
  shows "search_key d t g q p s f h a \<noteq> search_generation_key t'"
proof
  let ?D = "take 24 (d (search_canonical q p s f h a))"
  assume "search_key d t g q p s f h a = search_generation_key t'"
  then have eq: "(t @ '':search:g'' @ str_int g) @ CHR '':'' # ?D = (t' @ '':search'') @ CHR '':'' # ''gen''"
    by (simp add: search_generation_key_def search_key_def Let_def)
  have "?D = ''gen''"
    using append_eq_last_sep [OF eq] colon_notin_digest [OF assms] by auto
  moreover have "\<forall>c \<in> set ?D. hexish c"
    using assms by (auto simp: hex_text_def dest: in_set_takeD)
  ultimately have "hexish CHR ''g''" by simp
  then show False using hexish_code [of "CHR ''g''"] by simp
qed

lemma tenant_key_prefix:
  "tenant_key k \<noteq> document_key t u" "tenant_key k \<noteq> search_generation_key t"
  "tenant_key k \<noteq> search_key d t g q p s f h a"
  by (simp_all add: tenant_key_def document_key_def search_generation_key_def search_key_def Let_def)

subsection \<open>Properties\<close>



end
