(* ===== verification/Cache.thy ===== *)
theory Cache
  imports Resilience Cache_Keys
begin

text \<open>
  \<open>clients/cache.py\<close>: the cache port (\<open>cache_ops\<close>, the operations of \<open>CacheBackend\<close> as a record of
  state-passing functions), its in-memory and Redis adapters, and the fail-open \<open>CacheClient\<close>
  that works over any backend.

  The text stored under a key is represented by what \<open>json.loads\<close> makes of it: \<open>JsonText v\<close> is a text
  that decodes to \<open>v\<close> (in particular \<open>json.dumps(v)\<close>, and \<open>str(n)\<close> for an integer), \<open>BadText s\<close> is
  one that neither \<open>json.loads\<close> nor \<open>int\<close> accepts.  The reading of \<open>time.time()\<close> is an argument.
  The metrics counters and log lines carry no state of the program and are left out.
\<close>

datatype cache_text = JsonText json | BadText string

record 'c cache_ops =
  cget :: "real \<Rightarrow> string \<Rightarrow> 'c \<Rightarrow> cache_text option result \<times> 'c"
  cset :: "real \<Rightarrow> string \<Rightarrow> cache_text \<Rightarrow> int \<Rightarrow> 'c \<Rightarrow> unit result \<times> 'c"
  cdelete :: "string list \<Rightarrow> 'c \<Rightarrow> unit result \<times> 'c"
  cincr :: "real \<Rightarrow> string \<Rightarrow> 'c \<Rightarrow> int result \<times> 'c"
  cping :: "'c \<Rightarrow> bool result \<times> 'c"
  cclose :: "'c \<Rightarrow> unit result \<times> 'c"

subsection \<open>InMemoryCache\<close>

record inmemory_cache =
  im_store :: "(string \<times> cache_text \<times> real) list"
  im_available :: bool
  im_set_calls :: int

definition new_inmemory_cache :: inmemory_cache where
  "new_inmemory_cache = \<lparr>im_store = [], im_available = True, im_set_calls = 0\<rparr>"

definition im_guard :: "inmemory_cache \<Rightarrow> unit result" where
  "im_guard c = (if \<not> im_available c then Inl (ConnectionError ''cache unavailable'') else Inr ())"

definition im_get :: "real \<Rightarrow> string \<Rightarrow> inmemory_cache \<Rightarrow> cache_text option result \<times> inmemory_cache" where
  "im_get now key c =
     (case im_guard c of
        Inl e \<Rightarrow> (Inl e, c)
      | Inr _ \<Rightarrow>
          (case map_of (im_store c) key of
             None \<Rightarrow> (Inr None, c)
           | Some (value, expires_at) \<Rightarrow>
               if expires_at < now
               then (Inr None, c\<lparr>im_store := AList.delete key (im_store c)\<rparr>)
               else (Inr (Some value), c)))"

definition im_set :: "real \<Rightarrow> string \<Rightarrow> cache_text \<Rightarrow> int \<Rightarrow> inmemory_cache \<Rightarrow> unit result \<times> inmemory_cache" where
  "im_set now key value ttl_seconds c =
     (case im_guard c of
        Inl e \<Rightarrow> (Inl e, c)
      | Inr _ \<Rightarrow>
          (Inr (), c\<lparr>im_set_calls := im_set_calls c + 1,
                     im_store := AList.update key (value, now + of_int ttl_seconds) (im_store c)\<rparr>))"

definition im_delete :: "string list \<Rightarrow> inmemory_cache \<Rightarrow> unit result \<times> inmemory_cache" where
  "im_delete keys c =
     (case im_guard c of
        Inl e \<Rightarrow> (Inl e, c)
      | Inr _ \<Rightarrow> (Inr (), c\<lparr>im_store := fold AList.delete keys (im_store c)\<rparr>))"

fun int_of_text :: "cache_text \<Rightarrow> int result" where
  "int_of_text (JsonText (JInt n)) = Inr n"
| "int_of_text t = Inl ValueErr"

definition im_incr :: "real \<Rightarrow> string \<Rightarrow> inmemory_cache \<Rightarrow> int result \<times> inmemory_cache" where
  "im_incr now key c =
     (case im_guard c of
        Inl e \<Rightarrow> (Inl e, c)
      | Inr _ \<Rightarrow>
          (case im_get now key c of
             (Inl e, c1) \<Rightarrow> (Inl e, c1)
           | (Inr v, c1) \<Rightarrow>
               (case (case v of None \<Rightarrow> Inr 0
                              | Some t \<Rightarrow> if t = BadText [] then Inr 0 else int_of_text t) of
                  Inl e \<Rightarrow> (Inl e, c1)
                | Inr n \<Rightarrow>
                    (case im_set now key (JsonText (JInt (n + 1))) 86400 c1 of
                       (Inl e, c2) \<Rightarrow> (Inl e, c2)
                     | (Inr _, c2) \<Rightarrow> (Inr (n + 1), c2)))))"

definition im_ping :: "inmemory_cache \<Rightarrow> bool result \<times> inmemory_cache" where
  "im_ping c = (Inr (im_available c), c)"

definition im_close :: "inmemory_cache \<Rightarrow> unit result \<times> inmemory_cache" where
  "im_close c = (Inr (), c\<lparr>im_store := []\<rparr>)"

definition inmemory_ops :: "inmemory_cache cache_ops" where
  "inmemory_ops =
     \<lparr>cget = im_get, cset = im_set, cdelete = im_delete, cincr = im_incr, cping = im_ping, cclose = im_close\<rparr>"

subsection \<open>RedisCache\<close>

text \<open>The commands of the \<open>redis.asyncio\<close> client the adapter calls; Redis keeps its own clock.\<close>

record 'r redis_client =
  r_get :: "string \<Rightarrow> 'r \<Rightarrow> cache_text option result \<times> 'r"
  r_set :: "string \<Rightarrow> cache_text \<Rightarrow> int \<Rightarrow> 'r \<Rightarrow> unit result \<times> 'r"
  r_delete :: "string list \<Rightarrow> 'r \<Rightarrow> unit result \<times> 'r"
  r_incr :: "string \<Rightarrow> 'r \<Rightarrow> int result \<times> 'r"
  r_ping :: "'r \<Rightarrow> bool result \<times> 'r"
  r_aclose :: "'r \<Rightarrow> unit result \<times> 'r"

definition redis_delete :: "'r redis_client \<Rightarrow> string list \<Rightarrow> 'r \<Rightarrow> unit result \<times> 'r" where
  "redis_delete R keys r = (if keys \<noteq> [] then r_delete R keys r else (Inr (), r))"

definition redis_ping :: "'r redis_client \<Rightarrow> 'r \<Rightarrow> bool result \<times> 'r" where
  "redis_ping R r =
     (case r_ping R r of (Inr b, r1) \<Rightarrow> (Inr b, r1) | (Inl e, r1) \<Rightarrow> (Inr False, r1))"

definition redis_ops :: "'r redis_client \<Rightarrow> 'r cache_ops" where
  "redis_ops R =
     \<lparr>cget = (\<lambda>now key. r_get R key),
      cset = (\<lambda>now key value ttl. r_set R key value ttl),
      cdelete = redis_delete R,
      cincr = (\<lambda>now key. r_incr R key),
      cping = redis_ping R,
      cclose = r_aclose R\<rparr>"

subsection \<open>CacheClient\<close>

definition cc_delete :: "'c cache_ops \<Rightarrow> string list \<Rightarrow> 'c \<Rightarrow> 'c" where
  "cc_delete B keys c = snd (cdelete B keys c)"

definition get_json :: "'c cache_ops \<Rightarrow> real \<Rightarrow> string \<Rightarrow> 'c \<Rightarrow> json option \<times> 'c" where
  "get_json B now key c =
     (case cget B now key c of
        (Inl e, c1) \<Rightarrow> (None, c1)
      | (Inr None, c1) \<Rightarrow> (None, c1)
      | (Inr (Some (JsonText v)), c1) \<Rightarrow> (if v = JNull then None else Some v, c1)
      | (Inr (Some (BadText s)), c1) \<Rightarrow> (None, cc_delete B [key] c1))"

definition set_json :: "'c cache_ops \<Rightarrow> real \<Rightarrow> string \<Rightarrow> json \<Rightarrow> int \<Rightarrow> 'c \<Rightarrow> 'c" where
  "set_json B now key value ttl_seconds c = snd (cset B now key (JsonText value) ttl_seconds c)"

definition cc_incr :: "'c cache_ops \<Rightarrow> real \<Rightarrow> string \<Rightarrow> 'c \<Rightarrow> int option \<times> 'c" where
  "cc_incr B now key c =
     (case cincr B now key c of (Inl e, c1) \<Rightarrow> (None, c1) | (Inr n, c1) \<Rightarrow> (Some n, c1))"

text \<open>\<open>asyncio.wait_for\<close> with its one-second limit: \<open>timely\<close> says whether the probe answered in time.\<close>

definition cc_ping :: "'c cache_ops \<Rightarrow> bool \<Rightarrow> 'c \<Rightarrow> bool \<times> 'c" where
  "cc_ping B timely c =
     (case cping B c of
        (Inl e, c1) \<Rightarrow> (False, c1)
      | (Inr b, c1) \<Rightarrow> (timely \<and> b, c1))"

definition cc_close :: "'c cache_ops \<Rightarrow> 'c \<Rightarrow> unit result \<times> 'c" where
  "cc_close B c = cclose B c"

text \<open>The unexpired entry of a key: what a reader sees at a time.\<close>

definition im_look :: "real \<Rightarrow> inmemory_cache \<Rightarrow> string \<Rightarrow> cache_text option" where
  "im_look now c key =
     (case map_of (im_store c) key of
        None \<Rightarrow> None
      | Some (v, expires_at) \<Rightarrow> if expires_at < now then None else Some v)"

subsection \<open>The contract of a cache backend\<close>

text \<open>
  What the clients of a backend rely on: while it is up, a read returns the visible entry, a
  write is visible until its expiry, a removal hides the keys, an increment counts and lives
  at least a day, no operation touches another key, and entries only disappear with time.
  While it is down every operation raises and changes nothing.
\<close>

locale cache_backend =
  fixes B :: "'c cache_ops" and up :: "'c \<Rightarrow> bool" and look :: "real \<Rightarrow> 'c \<Rightarrow> string \<Rightarrow> cache_text option"
  assumes get_up: "up c \<Longrightarrow> fst (cget B now k c) = Inr (look now c k) \<and> up (snd (cget B now k c))"
    and get_look: "up c \<Longrightarrow> now \<le> now' \<Longrightarrow> look now' (snd (cget B now k c)) k' = look now' c k'"
    and set_up: "up c \<Longrightarrow> fst (cset B now k v ttl c) = Inr () \<and> up (snd (cset B now k v ttl c))"
    and set_look: "up c \<Longrightarrow> look now' (snd (cset B now k v ttl c)) k' =
      (if k' = k then if now' \<le> now + of_int ttl then Some v else None else look now' c k')"
    and del_up: "up c \<Longrightarrow> fst (cdelete B ks c) = Inr () \<and> up (snd (cdelete B ks c))"
    and del_look: "up c \<Longrightarrow> look now' (snd (cdelete B ks c)) k' = (if k' \<in> set ks then None else look now' c k')"
    and incr_up: "up c \<Longrightarrow> up (snd (cincr B now k c))"
    and incr_counts: "up c \<Longrightarrow> look now c k = None \<or> look now c k = Some (JsonText (JInt n)) \<Longrightarrow>
      m = (if look now c k = None then 0 else n) + 1 \<Longrightarrow>
      fst (cincr B now k c) = Inr m \<and>
      (\<forall>now'. now \<le> now' \<and> now' \<le> now + 86400 \<longrightarrow>
         look now' (snd (cincr B now k c)) k = Some (JsonText (JInt m)))"
    and incr_frame: "up c \<Longrightarrow> now \<le> now' \<Longrightarrow> k' \<noteq> k \<Longrightarrow> look now' (snd (cincr B now k c)) k' = look now' c k'"
    and down_get: "\<not> up c \<Longrightarrow> \<exists>e. cget B now k c = (Inl e, c)"
    and down_set: "\<not> up c \<Longrightarrow> \<exists>e. cset B now k v ttl c = (Inl e, c)"
    and down_del: "\<not> up c \<Longrightarrow> \<exists>e. cdelete B ks c = (Inl e, c)"
    and down_incr: "\<not> up c \<Longrightarrow> \<exists>e. cincr B now k c = (Inl e, c)"
    and look_expires: "now \<le> now' \<Longrightarrow> look now' c k = Some v \<Longrightarrow> look now c k = Some v"
begin

lemma look_None_mono: "now \<le> now' \<Longrightarrow> look now c k = None \<Longrightarrow> look now' c k = None"
  using look_expires by (cases "look now' c k") force+

lemma get_json_down: "\<not> up c \<Longrightarrow> get_json B now k c = (None, c)"
  using down_get [of c now k] by (auto simp: get_json_def)

lemma set_json_down: "\<not> up c \<Longrightarrow> set_json B now k v ttl c = c"
  using down_set [of c now k "JsonText v" ttl] by (auto simp: set_json_def)

lemma cc_delete_down: "\<not> up c \<Longrightarrow> cc_delete B ks c = c"
  using down_del [of c ks] by (auto simp: cc_delete_def)

lemma cc_incr_down: "\<not> up c \<Longrightarrow> cc_incr B now k c = (None, c)"
  using down_incr [of c now k] by (auto simp: cc_incr_def)

lemma get_json_value:
  assumes "up c"
  shows "fst (get_json B now k c) =
    (case look now c k of Some (JsonText v) \<Rightarrow> if v = JNull then None else Some v | _ \<Rightarrow> None)"
  using get_up [OF assms, of now k]
  by (cases "cget B now k c") (auto simp: get_json_def split: option.splits cache_text.splits)

lemma get_json_up: "up c \<Longrightarrow> up (snd (get_json B now k c))"
  using get_up [of c now k] del_up
  by (cases "cget B now k c") (auto simp: get_json_def cc_delete_def split: option.splits cache_text.splits)

text \<open>A read leaves every other key alone, and its own key unless the text there was not JSON.\<close>

lemma get_json_look:
  assumes "up c" "now \<le> now'" "look now' c k' = Some (JsonText v) \<or> k' \<noteq> k"
  shows "look now' (snd (get_json B now k c)) k' = look now' c k'"
proof -
  obtain c1 where c1: "cget B now k c = (Inr (look now c k), c1)" "up c1"
    using get_up [OF assms(1), of now k] by (cases "cget B now k c") auto
  have same: "look now' c1 x = look now' c x" for x
    using get_look [OF assms(1,2), of k x] c1 by simp
  show ?thesis
  proof (cases "\<exists>s. look now c k = Some (BadText s)")
    case True
    then obtain s where s: "look now c k = Some (BadText s)" by blast
    have "k' \<noteq> k" using assms(2,3) s look_expires [OF assms(2), of c k] by auto
    with s c1 same del_look [OF c1(2), of now' "[k]" k'] show ?thesis
      by (simp add: get_json_def cc_delete_def)
  next
    case False
    then have "snd (get_json B now k c) = c1"
      using c1 by (auto simp: get_json_def split: option.splits cache_text.splits)
    with same show ?thesis by simp
  qed
qed

text \<open>Whatever a reader sees after a read or a deletion was visible before.\<close>

lemma get_json_shrinks:
  assumes "now \<le> n" "look n (snd (get_json B now k c)) k' = Some v"
  shows "look n c k' = Some v"
proof (cases "up c")
  case True
  obtain c1 where c1: "cget B now k c = (Inr (look now c k), c1)" "up c1"
    using get_up [OF True, of now k] by (cases "cget B now k c") auto
  have same: "look n c1 x = look n c x" for x using get_look [OF True assms(1), of k x] c1 by simp
  show ?thesis
    using assms(2) c1 same del_look [OF c1(2), of n "[k]" k']
    by (auto simp: get_json_def cc_delete_def split: option.splits cache_text.splits if_splits)
next
  case False
  then show ?thesis using assms(2) down_get [OF False, of now k] by (auto simp: get_json_def)
qed

lemma cc_delete_shrinks: "look n (cc_delete B ks c) k' = Some v \<Longrightarrow> look n c k' = Some v"
  using del_look [of c n ks k'] down_del [of c ks] by (cases "up c") (auto simp: cc_delete_def split: if_splits)

lemma set_json_up: "up c \<Longrightarrow> up (set_json B now k v ttl c)"
  by (simp add: set_json_def set_up)

lemma set_json_look:
  "up c \<Longrightarrow> look now' (set_json B now k v ttl c) k' =
     (if k' = k then if now' \<le> now + of_int ttl then Some (JsonText v) else None else look now' c k')"
  by (simp add: set_json_def set_look)

lemma set_then_get_json:
  "up c \<Longrightarrow> v \<noteq> JNull \<Longrightarrow> now' \<le> now + of_int ttl \<Longrightarrow>
   fst (get_json B now' k (set_json B now k v ttl c)) = Some v"
  by (simp add: get_json_value set_json_up set_json_look)

lemma delete_then_get_json:
  "up c \<Longrightarrow> k \<in> set ks \<Longrightarrow> fst (get_json B now k (cc_delete B ks c)) = None"
  using del_up [of c ks] by (simp add: get_json_value cc_delete_def del_look)

lemma cc_delete_up: "up c \<Longrightarrow> up (cc_delete B ks c)"
  by (simp add: cc_delete_def del_up)

lemma cc_incr_up: "up c \<Longrightarrow> up (snd (cc_incr B now k c))"
  using incr_up [of c now k] by (auto simp: cc_incr_def split: prod.splits sum.splits)

lemma cc_incr_frame:
  "up c \<Longrightarrow> now \<le> now' \<Longrightarrow> k' \<noteq> k \<Longrightarrow> look now' (snd (cc_incr B now k c)) k' = look now' c k'"
  using incr_frame [of c now now' k' k] by (auto simp: cc_incr_def split: prod.splits sum.splits)

end

subsection \<open>The in-memory adapter keeps the contract\<close>

lemma im_guard_up [simp]: "im_available c \<Longrightarrow> im_guard c = Inr ()"
  by (simp add: im_guard_def)

lemma im_guard_down [simp]: "\<not> im_available c \<Longrightarrow> im_guard c = Inl (ConnectionError ''cache unavailable'')"
  by (simp add: im_guard_def)

lemma map_of_fold_delete:
  "map_of (fold AList.delete ks d) k = (if k \<in> set ks then None else map_of d k)"
  by (induction ks arbitrary: d) auto

lemma im_get_eq:
  assumes "im_available c"
  shows "fst (im_get now k c) = Inr (im_look now c k)"
    and "im_available (snd (im_get now k c))"
  using assms by (auto simp: im_get_def im_look_def split: option.splits)

lemma im_get_look:
  "im_available c \<Longrightarrow> now \<le> now' \<Longrightarrow> im_look now' (snd (im_get now k c)) k' = im_look now' c k'"
  by (auto simp: im_get_def im_look_def split: option.splits)

lemma im_set_look:
  "im_available c \<Longrightarrow> im_look now' (snd (im_set now k v ttl c)) k' =
     (if k' = k then if now' \<le> now + of_int ttl then Some v else None else im_look now' c k')"
  by (auto simp: im_set_def im_look_def)

lemma im_set_up: "im_available c \<Longrightarrow> fst (im_set now k v ttl c) = Inr () \<and> im_available (snd (im_set now k v ttl c))"
  by (simp add: im_set_def)

lemma im_incr_eq:
  assumes "im_available c" "im_look now c k = None \<or> im_look now c k = Some (JsonText (JInt n))"
    "m = (if im_look now c k = None then 0 else n) + 1"
  shows "im_incr now k c = (Inr m, snd (im_set now k (JsonText (JInt m)) 86400 (snd (im_get now k c))))"
proof -
  obtain c1 where c1: "im_get now k c = (Inr (im_look now c k), c1)" "im_available c1"
    using im_get_eq [OF assms(1), of now k] by (cases "im_get now k c") auto
  obtain c2 where c2: "im_set now k (JsonText (JInt m)) 86400 c1 = (Inr (), c2)"
    using im_set_up [OF c1(2)] by (metis prod.collapse)
  show ?thesis
    using assms c1 c2 by (auto simp: im_incr_def)
qed

lemma im_incr_frame:
  assumes "im_available c" "now \<le> now'" "k' \<noteq> k"
  shows "im_look now' (snd (im_incr now k c)) k' = im_look now' c k' \<and> im_available (snd (im_incr now k c))"
proof -
  obtain c1 where c1: "im_get now k c = (Inr (im_look now c k), c1)" "im_available c1"
    using im_get_eq [OF assms(1), of now k] by (cases "im_get now k c") auto
  have "im_look now' c1 k' = im_look now' c k'"
    using im_get_look [OF assms(1,2), of k k'] c1 by simp
  with c1 assms im_set_look [OF c1(2)] im_set_up [OF c1(2)] show ?thesis
    by (auto simp: im_incr_def split: option.splits sum.splits prod.splits) (metis snd_conv)+
qed

interpretation imc: cache_backend inmemory_ops im_available im_look
proof (unfold_locales, goal_cases)
  case (1 c now k)
  then show ?case by (simp add: inmemory_ops_def im_get_eq)
next
  case (2 c now now' k k')
  then show ?case by (simp add: inmemory_ops_def im_get_look)
next
  case (3 c now k v ttl)
  then show ?case by (simp add: inmemory_ops_def im_set_up)
next
  case (4 c now' now k v ttl k')
  then show ?case by (simp add: inmemory_ops_def im_set_look)
next
  case (5 c ks)
  then show ?case by (simp add: inmemory_ops_def im_delete_def)
next
  case (6 c now' ks k')
  then show ?case by (simp add: inmemory_ops_def im_delete_def im_look_def map_of_fold_delete)
next
  case (7 c now k)
  then show ?case using im_incr_frame [of c now now "k @ ''x''" k] by (simp add: inmemory_ops_def)
next
  case (8 c now k n m)
  have up: "im_available (snd (im_get now k c))" by (rule im_get_eq(2) [OF 8(1)])
  show ?case
    using im_incr_eq [OF 8] by (simp add: inmemory_ops_def im_set_look [OF up])
next
  case (9 c now now' k' k)
  then show ?case by (simp add: inmemory_ops_def im_incr_frame)
next
  case (10 c now k)
  then show ?case by (simp add: inmemory_ops_def im_get_def)
next
  case (11 c now k v ttl)
  then show ?case by (simp add: inmemory_ops_def im_set_def)
next
  case (12 c ks)
  then show ?case by (simp add: inmemory_ops_def im_delete_def)
next
  case (13 c now k)
  then show ?case by (simp add: inmemory_ops_def im_incr_def)
next
  case (14 now now' c k v)
  then show ?case by (auto simp: im_look_def split: option.splits if_splits)
qed

end
