(* ===== verification/Datetime.thy ===== *)
theory Datetime
  imports Prelude "HOL-Library.Monad_Syntax"
begin

text \<open>
  Timestamps: \<open>models/base.py\<close> and what the service uses of \<open>datetime\<close>.  A value has the fields of
  a Python \<open>datetime\<close>; \<open>dt_aware\<close> says whether it carries a time zone, which is always UTC here.
  \<open>isoformat\<close> prints it; \<open>fromisoformat\<close> reads the extended form that \<open>isoformat\<close> writes (the
  standard library accepts further ISO forms that no writer of this service produces; they
  read as \<open>None\<close> here).  \<open>instant\<close> counts microseconds, so that points in time can be compared.
\<close>

record datetime =
  dt_year :: nat
  dt_month :: nat
  dt_day :: nat
  dt_hour :: nat
  dt_minute :: nat
  dt_second :: nat
  dt_micro :: nat
  dt_aware :: bool

definition as_utc :: "datetime \<Rightarrow> datetime" where
  "as_utc v = (if dt_aware v then v else v\<lparr>dt_aware := True\<rparr>)"

definition leap_year :: "nat \<Rightarrow> bool" where
  "leap_year y \<longleftrightarrow> 4 dvd y \<and> (\<not> 100 dvd y \<or> 400 dvd y)"

definition days_in_month :: "nat \<Rightarrow> nat \<Rightarrow> nat" where
  "days_in_month y m =
     (if m = 2 then (if leap_year y then 29 else 28)
      else if m \<in> {4, 6, 9, 11} then 30 else 31)"

definition valid_datetime :: "datetime \<Rightarrow> bool" where
  "valid_datetime d \<longleftrightarrow>
     1 \<le> dt_year d \<and> dt_year d \<le> 9999 \<and> 1 \<le> dt_month d \<and> dt_month d \<le> 12 \<and>
     1 \<le> dt_day d \<and> dt_day d \<le> days_in_month (dt_year d) (dt_month d) \<and>
     dt_hour d < 24 \<and> dt_minute d < 60 \<and> dt_second d < 60 \<and> dt_micro d < 1000000"

fun dec_digits :: "nat \<Rightarrow> nat \<Rightarrow> string" where
  "dec_digits 0 n = []"
| "dec_digits (Suc k) n = dec_digits k (n div 10) @ [digit_char (n mod 10)]"

definition isoformat :: "datetime \<Rightarrow> string" where
  "isoformat d =
     dec_digits 4 (dt_year d) @ ''-'' @ dec_digits 2 (dt_month d) @ ''-'' @ dec_digits 2 (dt_day d) @
     ''T'' @ dec_digits 2 (dt_hour d) @ '':'' @ dec_digits 2 (dt_minute d) @ '':'' @
     dec_digits 2 (dt_second d) @
     (if dt_micro d = 0 then [] else ''.'' @ dec_digits 6 (dt_micro d)) @
     (if dt_aware d then ''+00:00'' else [])"

definition dec_val :: "char \<Rightarrow> nat option" where
  "dec_val c = (let n = of_char c :: nat in if 48 \<le> n \<and> n \<le> 57 then Some (n - 48) else None)"

fun read_digits :: "nat \<Rightarrow> nat \<Rightarrow> string \<Rightarrow> (nat \<times> string) option" where
  "read_digits 0 acc s = Some (acc, s)"
| "read_digits (Suc k) acc [] = None"
| "read_digits (Suc k) acc (c # s) =
     (case dec_val c of None \<Rightarrow> None | Some d \<Rightarrow> read_digits k (acc * 10 + d) s)"

fun expect :: "char \<Rightarrow> string \<Rightarrow> string option" where
  "expect c [] = None"
| "expect c (x # s) = (if x = c then Some s else None)"

definition read_micro :: "string \<Rightarrow> (nat \<times> string) option" where
  "read_micro s =
     (case s of x # r \<Rightarrow> if x = CHR ''.'' then read_digits 6 0 r else Some (0, s) | [] \<Rightarrow> Some (0, s))"

definition read_zone :: "string \<Rightarrow> bool option" where
  "read_zone s = (if s = [] then Some False else if s = ''+00:00'' then Some True else None)"

definition fromisoformat :: "string \<Rightarrow> datetime option" where
  "fromisoformat s = do {
     (y, s) \<leftarrow> read_digits 4 0 s; s \<leftarrow> expect CHR ''-'' s;
     (mo, s) \<leftarrow> read_digits 2 0 s; s \<leftarrow> expect CHR ''-'' s;
     (d, s) \<leftarrow> read_digits 2 0 s; s \<leftarrow> expect CHR ''T'' s;
     (h, s) \<leftarrow> read_digits 2 0 s; s \<leftarrow> expect CHR '':'' s;
     (mi, s) \<leftarrow> read_digits 2 0 s; s \<leftarrow> expect CHR '':'' s;
     (se, s) \<leftarrow> read_digits 2 0 s;
     (us, s) \<leftarrow> read_micro s;
     z \<leftarrow> read_zone s;
     let v = \<lparr>dt_year = y, dt_month = mo, dt_day = d, dt_hour = h, dt_minute = mi, dt_second = se,
              dt_micro = us, dt_aware = z\<rparr>;
     if valid_datetime v then Some v else None
   }"

definition replace_Z :: "string \<Rightarrow> string" where
  "replace_Z s = concat (map (\<lambda>c. if c = CHR ''Z'' then ''+00:00'' else [c]) s)"

text \<open>The nested helper \<open>_dt\<close> of both engine adapters, on a string value.\<close>

definition dt_of_text :: "string \<Rightarrow> datetime option" where
  "dt_of_text s = fromisoformat (replace_Z s)"

definition days_before_year :: "nat \<Rightarrow> nat" where
  "days_before_year y = (y - 1) * 365 + (y - 1) div 4 - (y - 1) div 100 + (y - 1) div 400"

definition days_before_month :: "nat \<Rightarrow> nat \<Rightarrow> nat" where
  "days_before_month y m = sum_list (map (days_in_month y) [1..<m])"

definition instant :: "datetime \<Rightarrow> int" where
  "instant d =
     (((int (days_before_year (dt_year d) + days_before_month (dt_year d) (dt_month d) + dt_day d) * 24
        + int (dt_hour d)) * 60 + int (dt_minute d)) * 60 + int (dt_second d)) * 1000000 + int (dt_micro d)"

definition before_cutoff :: "datetime \<Rightarrow> int \<Rightarrow> datetime \<Rightarrow> bool" where
  "before_cutoff now seconds t \<longleftrightarrow> instant t < instant now - seconds * 1000000"

subsection \<open>The text form reads back\<close>

lemma dec_val_digit [simp]: "d < 10 \<Longrightarrow> dec_val (digit_char d) = Some d"
  by (simp add: dec_val_def of_char_digit)

lemma read_dec_digits:
  "read_digits k acc (dec_digits k n @ s) = Some (acc * 10 ^ k + n mod 10 ^ k, s)"
proof (induction k arbitrary: n s)
  case 0
  then show ?case by simp
next
  case (Suc k)
  have snoc: "read_digits (Suc j) acc (t @ s) = (case read_digits j acc t of Some (a, r) \<Rightarrow>
      (case r @ s of [] \<Rightarrow> None | c # s' \<Rightarrow> (case dec_val c of None \<Rightarrow> None | Some d \<Rightarrow> Some (a * 10 + d, s'))) | None \<Rightarrow> None)"
    if "length t = j" for j acc t s
    using that
  proof (induction j arbitrary: acc t)
    case 0
    then show ?case by (cases s) (auto split: option.splits)
  next
    case (Suc j)
    then obtain c t' where t: "t = c # t'" "length t' = j" by (cases t) auto
    show ?case
    proof (cases "dec_val c")
      case None
      then show ?thesis using t by simp
    next
      case (Some d)
      have "read_digits (Suc (Suc j)) acc (t @ s) = read_digits (Suc j) (acc * 10 + d) (t' @ s)"
        using t Some by simp
      also have "\<dots> = (case read_digits j (acc * 10 + d) t' of Some (a, r) \<Rightarrow>
        (case r @ s of [] \<Rightarrow> None | c # s' \<Rightarrow> (case dec_val c of None \<Rightarrow> None | Some d \<Rightarrow> Some (a * 10 + d, s'))) | None \<Rightarrow> None)"
        by (rule Suc.IH) (rule t(2))
      finally show ?thesis using t Some by simp
    qed
  qed
  have len: "length (dec_digits k m) = k" for m by (induction k arbitrary: m) auto
  have mod: "n mod 10 ^ Suc k = (n div 10 mod 10 ^ k) * 10 + n mod 10"
    by (metis add.commute mod_mult2_eq mult.commute power_Suc)
  have "read_digits k acc (dec_digits k (n div 10)) = Some (acc * 10 ^ k + n div 10 mod 10 ^ k, [])"
    using Suc.IH [of "n div 10" "[]"] by simp
  then have "read_digits (Suc k) acc (dec_digits k (n div 10) @ (digit_char (n mod 10) # s))
      = Some ((acc * 10 ^ k + n div 10 mod 10 ^ k) * 10 + n mod 10, s)"
    by (subst snoc [OF len]) simp
  then show ?case unfolding mod by (simp add: algebra_simps)
qed

lemma read_dec_digits0: "n < 10 ^ k \<Longrightarrow> read_digits k 0 (dec_digits k n @ s) = Some (n, s)"
  by (simp add: read_dec_digits)

lemma read_micro_iso:
  assumes "us < 1000000" and "z = [] \<or> z = ''+00:00''"
  shows "read_micro ((if us = 0 then [] else ''.'' @ dec_digits 6 us) @ z) = Some (us, z)"
  using assms read_dec_digits0 [of us 6 z] by (auto simp: read_micro_def)

lemma fromisoformat_fields:
  assumes "y < 10 ^ 4" "mo < 10 ^ 2" "d < 10 ^ 2" "h < 10 ^ 2" "mi < 10 ^ 2" "se < 10 ^ 2"
    and "read_micro r = Some (us, z)" and "read_zone z = Some aw"
    and "v = \<lparr>dt_year = y, dt_month = mo, dt_day = d, dt_hour = h, dt_minute = mi, dt_second = se,
           dt_micro = us, dt_aware = aw\<rparr>"
  shows "fromisoformat (dec_digits 4 y @ ''-'' @ dec_digits 2 mo @ ''-'' @ dec_digits 2 d @ ''T'' @
    dec_digits 2 h @ '':'' @ dec_digits 2 mi @ '':'' @ dec_digits 2 se @ r)
    = (if valid_datetime v then Some v else None)"
  unfolding fromisoformat_def assms(9)
  by (simp only: read_dec_digits0 [OF assms(1)] read_dec_digits0 [OF assms(2)] read_dec_digits0 [OF assms(3)]
      read_dec_digits0 [OF assms(4)] read_dec_digits0 [OF assms(5)] read_dec_digits0 [OF assms(6)]
      assms(7,8) append_Cons append_Nil expect.simps Option.bind.simps if_True case_prod_conv refl Let_def)

lemma fromisoformat_isoformat:
  assumes "valid_datetime d"
  shows "fromisoformat (isoformat d) = Some d"
proof -
  have b: "dt_year d < 10 ^ 4" "dt_month d < 10 ^ 2" "dt_day d < 10 ^ 2" "dt_hour d < 10 ^ 2"
    "dt_minute d < 10 ^ 2" "dt_second d < 10 ^ 2" "dt_micro d < 1000000"
    using assms by (auto simp: valid_datetime_def days_in_month_def split: if_splits)
  let ?z = "if dt_aware d then ''+00:00'' else []"
  let ?r = "(if dt_micro d = 0 then [] else ''.'' @ dec_digits 6 (dt_micro d)) @ ?z"
  have r: "read_micro ?r = Some (dt_micro d, ?z)" by (rule read_micro_iso [OF b(7)]) simp
  have z: "read_zone ?z = Some (dt_aware d)" by (simp add: read_zone_def)
  have v: "d = \<lparr>dt_year = dt_year d, dt_month = dt_month d, dt_day = dt_day d, dt_hour = dt_hour d,
      dt_minute = dt_minute d, dt_second = dt_second d, dt_micro = dt_micro d, dt_aware = dt_aware d\<rparr>"
    by simp
  show ?thesis
    unfolding isoformat_def fromisoformat_fields [OF b(1-6) r z v] using assms by simp
qed

lemma Z_notin_dec_digits: "CHR ''Z'' \<notin> set (dec_digits k n)"
proof (induction k arbitrary: n)
  case (Suc k)
  have "(of_char (digit_char (n mod 10)) :: nat) \<noteq> of_char CHR ''Z''"
    by (simp add: of_char_digit)
  then have "digit_char (n mod 10) \<noteq> CHR ''Z''" by metis
  with Suc show ?case by auto
qed simp

lemma replace_Z_id: "CHR ''Z'' \<notin> set s \<Longrightarrow> replace_Z s = s"
  by (induction s) (auto simp: replace_Z_def)

lemma dt_of_text_isoformat: "valid_datetime d \<Longrightarrow> dt_of_text (isoformat d) = Some d"
proof -
  assume d: "valid_datetime d"
  have "CHR ''Z'' \<notin> set (isoformat d)" by (simp add: isoformat_def Z_notin_dec_digits)
  then show ?thesis using d by (simp add: dt_of_text_def replace_Z_id fromisoformat_isoformat)
qed

lemma valid_as_utc [simp]: "valid_datetime (as_utc d) = valid_datetime d"
  by (simp add: as_utc_def valid_datetime_def)

subsection \<open>Properties\<close>

text \<open>
  The date helper of the search adapters reads back what \<open>isoformat\<close> wrote into the index, for every valid
  date, with or without microseconds, naive or in UTC.
\<close>

theorem datetime_round_trip: "valid_datetime d \<Longrightarrow> dt_of_text (isoformat d) = Some d"
  by (rule dt_of_text_isoformat)

theorem datetime_round_trip_witness:
  "dt_of_text (isoformat \<lparr>dt_year = 2024, dt_month = 2, dt_day = 29, dt_hour = 7, dt_minute = 8, dt_second = 9,
      dt_micro = 10, dt_aware = True\<rparr>) =
   Some \<lparr>dt_year = 2024, dt_month = 2, dt_day = 29, dt_hour = 7, dt_minute = 8, dt_second = 9,
      dt_micro = 10, dt_aware = True\<rparr>"
  by (rule datetime_round_trip) (simp add: valid_datetime_def days_in_month_def leap_year_def)

end
