(* ===== verification/Search_Engine.thy ===== *)
theory Search_Engine
  imports Datetime Resilience
begin

text \<open>
  \<open>clients/search_engine.py\<close>: the data carried across the search-engine port and the port itself
  as a record of operations.  The \<open>source\<close> dictionary of an index operation always is the ten-key
  dictionary of \<open>to_search_source\<close> and is a record here; \<open>source_json\<close> is the dictionary.  The
  reported latency \<open>took_ms\<close> is a field whose value the adapters take as an argument.
\<close>

record search_source =
  src_document_id :: string
  src_tenant_id :: string
  src_title :: string
  src_content :: string
  src_content_type :: string
  src_tags :: "string list"
  src_metadata :: "(string \<times> json) list"
  src_version :: int
  src_created_at :: string
  src_updated_at :: string

definition source_json :: "search_source \<Rightarrow> (string \<times> json) list" where
  "source_json s =
     [(''document_id'', JStr (src_document_id s)), (''tenant_id'', JStr (src_tenant_id s)),
      (''title'', JStr (src_title s)), (''content'', JStr (src_content s)),
      (''content_type'', JStr (src_content_type s)), (''tags'', JArr (map JStr (src_tags s))),
      (''metadata'', JObj (src_metadata s)), (''version'', JInt (src_version s)),
      (''created_at'', JStr (src_created_at s)), (''updated_at'', JStr (src_updated_at s))]"

datatype engine_op =
    IndexOperation string string int search_source
  | DeleteOperation string string int

fun op_document_id :: "engine_op \<Rightarrow> string" where
  "op_document_id (IndexOperation d t v s) = d"
| "op_document_id (DeleteOperation d t v) = d"

fun op_tenant_id :: "engine_op \<Rightarrow> string" where
  "op_tenant_id (IndexOperation d t v s) = t"
| "op_tenant_id (DeleteOperation d t v) = t"

fun op_version :: "engine_op \<Rightarrow> int" where
  "op_version (IndexOperation d t v s) = v"
| "op_version (DeleteOperation d t v) = v"

record bulk_result =
  br_succeeded :: "string list"
  br_failed :: "string list"

record search_query =
  sq_tenant_id :: string
  sq_text :: string
  sq_page :: int
  sq_size :: int
  sq_fuzzy :: bool
  sq_highlight :: bool
  sq_facets :: bool

definition sq_offset :: "search_query \<Rightarrow> int" where
  "sq_offset q = (sq_page q - 1) * sq_size q"

record engine_hit =
  eh_document_id :: string
  eh_score :: real
  eh_title :: string
  eh_snippet :: "string option"
  eh_content_type :: "string option"
  eh_tags :: "string list"
  eh_metadata :: "(string \<times> json) list"
  eh_created_at :: "datetime option"
  eh_updated_at :: "datetime option"

record engine_result =
  er_hits :: "engine_hit list"
  er_total :: int
  er_total_is_lower_bound :: bool
  er_took_ms :: int
  er_facets :: "(string \<times> (string \<times> int) list) list"

record 'e engine_ops =
  e_bulk :: "engine_op list \<Rightarrow> 'e \<Rightarrow> bulk_result result \<times> 'e"
  e_search :: "search_query \<Rightarrow> 'e \<Rightarrow> engine_result result \<times> 'e"
  e_ensure_index :: "'e \<Rightarrow> unit result \<times> 'e"
  e_ping :: "'e \<Rightarrow> bool result \<times> 'e"
  e_close :: "'e \<Rightarrow> unit result \<times> 'e"

subsection \<open>The contract of a search engine\<close>

text \<open>
  What the search service relies on: while the engine is up a search answers and changes
  nothing, while it is down it raises; a hit is a document visible to the tenant of the query;
  and a page has at most the requested number of hits.
\<close>

locale search_engine =
  fixes E :: "'e engine_ops" and up :: "'e \<Rightarrow> bool" and visible :: "'e \<Rightarrow> string \<Rightarrow> string set"
  assumes search_up: "up e \<Longrightarrow> \<exists>r. e_search E q e = (Inr r, e)"
    and search_down: "\<not> up e \<Longrightarrow> \<exists>x. e_search E q e = (Inl x, e) \<and> \<not> is_dependency_error x"
    and search_scoped: "e_search E q e = (Inr r, e') \<Longrightarrow> h \<in> set (er_hits r) \<Longrightarrow>
      eh_document_id h \<in> visible e (sq_tenant_id q)"
    and search_page: "e_search E q e = (Inr r, e') \<Longrightarrow> 0 \<le> sq_offset q \<Longrightarrow> 0 \<le> sq_size q \<Longrightarrow>
      int (length (er_hits r)) \<le> sq_size q"
begin

lemma search_state: "snd (e_search E q e) = e"
  using search_up [of e q] search_down [of e q] by (cases "up e") force+

lemma search_ok_iff: "is_ok (fst (e_search E q e)) \<longleftrightarrow> up e"
  using search_up [of e q] search_down [of e q] by (cases "up e") force+

end

end
