(* ===== verification/InMemory_Engine.thy ===== *)
theory InMemory_Engine
  imports Search_Engine Cache_Keys
begin

text \<open>
  \<open>clients/inmemory_engine.py\<close>: tokeniser, versioned bulk writes, BM25-style scoring with tenant
  filter, pagination, facets, highlighting and the one-edit fuzzy match.

  Floats are real numbers (\<open>ln\<close> for \<open>math.log\<close>).  Python iterates over the \<open>set\<close> of vocabulary
  tokens in an unspecified order: \<open>set_order\<close> turns the tokens into the sequence the loop sees.
  \<open>took\<close> is the measured latency in milliseconds.
\<close>

definition STOPWORDS :: "string list" where
  "STOPWORDS = [''the'', ''a'', ''an'', ''of'', ''and'', ''or'', ''to'', ''in'', ''is'', ''it'', ''for'', ''on'']"

definition tokenize :: "string \<Rightarrow> string list" where
  "tokenize s = filter (\<lambda>t. t \<notin> set STOPWORDS) (word_runs (py_lower s))"

record stored_doc =
  sd_document_id :: string
  sd_tenant_id :: string
  sd_version :: int
  sd_source :: search_source

record inmemory_engine =
  ie_docs :: "(string \<times> stored_doc) list"
  ie_available :: bool

definition new_inmemory_engine :: inmemory_engine where
  "new_inmemory_engine = \<lparr>ie_docs = [], ie_available = True\<rparr>"

definition ie_guard :: "inmemory_engine \<Rightarrow> unit result" where
  "ie_guard en = (if \<not> ie_available en then Inl (RuntimeErr ''search engine unavailable'') else Inr ())"

fun bulk_apply :: "engine_op \<Rightarrow> (string \<times> stored_doc) list \<Rightarrow> (string \<times> stored_doc) list" where
  "bulk_apply (IndexOperation d t v s) docs =
     AList.update d \<lparr>sd_document_id = d, sd_tenant_id = t, sd_version = v, sd_source = s\<rparr> docs"
| "bulk_apply (DeleteOperation d t v) docs = AList.delete d docs"

definition bulk_one :: "engine_op \<Rightarrow> (string \<times> stored_doc) list \<Rightarrow> (string \<times> stored_doc) list" where
  "bulk_one op docs =
     (case map_of docs (op_document_id op) of
        Some existing \<Rightarrow> if op_version op \<le> sd_version existing then docs else bulk_apply op docs
      | None \<Rightarrow> bulk_apply op docs)"

definition ie_bulk :: "engine_op list \<Rightarrow> inmemory_engine \<Rightarrow> bulk_result result \<times> inmemory_engine" where
  "ie_bulk operations en =
     (case ie_guard en of
        Inl e \<Rightarrow> (Inl e, en)
      | Inr _ \<Rightarrow>
          (Inr \<lparr>br_succeeded = map op_document_id operations, br_failed = []\<rparr>,
           en\<lparr>ie_docs := fold bulk_one operations (ie_docs en)\<rparr>))"

subsection \<open>Fuzzy matching\<close>

fun skip_match :: "bool \<Rightarrow> string \<Rightarrow> string \<Rightarrow> bool" where
  "skip_match skipped (a # as) (b # bs) =
     (if a \<noteq> b then (if skipped then False else skip_match True (a # as) bs)
      else skip_match skipped as bs)"
| "skip_match skipped as bs = True"

definition edit_distance_at_most_one :: "string \<Rightarrow> string \<Rightarrow> bool" where
  "edit_distance_at_most_one a b =
     (if a = b then True
      else if length a = length b
      then length (filter (\<lambda>(x, y). x \<noteq> y) (zip a b)) = 1
      else (let (shorter, longer) = (if length a < length b then (a, b) else (b, a))
            in skip_match False shorter longer))"

fun closest_loop :: "string \<Rightarrow> string option \<Rightarrow> string list \<Rightarrow> string option" where
  "closest_loop term best [] = best"
| "closest_loop term best (candidate # rest) =
     (if abs (int (length candidate) - int (length term)) > 1 then closest_loop term best rest
      else if edit_distance_at_most_one term candidate \<and>
              (case best of None \<Rightarrow> True | Some b \<Rightarrow> length candidate < length b)
      then closest_loop term (Some candidate) rest
      else closest_loop term best rest)"

definition closest :: "string \<Rightarrow> string list \<Rightarrow> string option" where
  "closest term vocabulary = closest_loop term None vocabulary"

subsection \<open>Scoring\<close>

definition title_tokens :: "stored_doc \<Rightarrow> string list" where
  "title_tokens d = tokenize (src_title (sd_source d))"

definition content_tokens :: "stored_doc \<Rightarrow> string list" where
  "content_tokens d = tokenize (src_content (sd_source d))"

definition doc_tokens :: "stored_doc list \<Rightarrow> (string \<times> string list \<times> string list) list" where
  "doc_tokens corpus =
     fold (\<lambda>d. AList.update (sd_document_id d) (title_tokens d, content_tokens d)) corpus []"

definition vocabulary :: "stored_doc list \<Rightarrow> string list" where
  "vocabulary corpus = remdups (concat (map (\<lambda>d. title_tokens d @ content_tokens d) corpus))"

definition effective_terms :: "(string list \<Rightarrow> string list) \<Rightarrow> bool \<Rightarrow> string list \<Rightarrow> string list \<Rightarrow> string list" where
  "effective_terms set_order fuzzy vocab terms =
     map (\<lambda>term.
       if term \<in> set vocab \<or> \<not> fuzzy then term
       else (case closest term (set_order vocab) of
               None \<Rightarrow> term | Some c \<Rightarrow> if c = [] then term else c)) terms"

definition doc_freq :: "(string \<times> string list \<times> string list) list \<Rightarrow> string \<Rightarrow> nat" where
  "doc_freq toks term = length (filter (\<lambda>(i, tt, ct). term \<in> set tt \<union> set ct) toks)"

definition term_freq :: "string list \<Rightarrow> string list \<Rightarrow> string \<Rightarrow> nat" where
  "term_freq tt ct term = count_list tt term * 3 + count_list ct term"

definition idf :: "nat \<Rightarrow> nat \<Rightarrow> real" where
  "idf n_docs df = ln (1 + (real n_docs - real df + 1/2) / (real df + 1/2))"

definition length_norm :: "string list \<Rightarrow> real" where
  "length_norm ct = 1 + ln (1 + real (length ct)) / 10"

fun score_terms ::
  "nat \<Rightarrow> (string \<Rightarrow> nat) \<Rightarrow> string list \<Rightarrow> string list \<Rightarrow> string list \<Rightarrow> nat \<times> real \<Rightarrow> nat \<times> real" where
  "score_terms n_docs df tt ct [] (matched, score) = (matched, score)"
| "score_terms n_docs df tt ct (term # rest) (matched, score) =
     (let tf = term_freq tt ct term
      in if tf = 0 then score_terms n_docs df tt ct rest (matched, score)
         else score_terms n_docs df tt ct rest
                (matched + 1,
                 score + idf n_docs (df term) * (real tf / (real tf + 12/10)) / length_norm ct))"

definition score_doc ::
  "bool \<Rightarrow> nat \<Rightarrow> (string \<times> string list \<times> string list) list \<Rightarrow> string list \<Rightarrow> stored_doc
   \<Rightarrow> (real \<times> stored_doc) list" where
  "score_doc fuzzy n_docs toks effective d =
     (case map_of toks (sd_document_id d) of
        None \<Rightarrow> []
      | Some (tt, ct) \<Rightarrow>
          (case score_terms n_docs (doc_freq toks) tt ct effective (0, 0) of
             (matched, score) \<Rightarrow>
               (let required = (if fuzzy then 1 else length effective)
                in if matched \<ge> required \<and> score > 0 then [(score, d)] else [])))"

definition corpus_of :: "string \<Rightarrow> inmemory_engine \<Rightarrow> stored_doc list" where
  "corpus_of tenant_id en = filter (\<lambda>d. sd_tenant_id d = tenant_id) (map snd (ie_docs en))"

definition scored_docs ::
  "(string list \<Rightarrow> string list) \<Rightarrow> bool \<Rightarrow> string list \<Rightarrow> stored_doc list \<Rightarrow> (real \<times> stored_doc) list" where
  "scored_docs set_order fuzzy terms corpus =
     (if terms = [] then []
      else (let toks = doc_tokens corpus;
                effective = effective_terms set_order fuzzy (vocabulary corpus) terms;
                n_docs = max (length corpus) 1
            in concat (map (score_doc fuzzy n_docs toks effective) corpus)))"

definition rank_key :: "real \<times> stored_doc \<Rightarrow> real \<times> string" where
  "rank_key p = (- fst p, sd_document_id (snd p))"

definition ranked ::
  "(string list \<Rightarrow> string list) \<Rightarrow> bool \<Rightarrow> string list \<Rightarrow> stored_doc list \<Rightarrow> (real \<times> stored_doc) list" where
  "ranked set_order fuzzy terms corpus = sort_key rank_key (scored_docs set_order fuzzy terms corpus)"

subsection \<open>Hits and facets\<close>

fun find_sub :: "string \<Rightarrow> string \<Rightarrow> nat option" where
  "find_sub p [] = (if p = [] then Some 0 else None)"
| "find_sub p (c # cs) =
     (if take (length p) (c # cs) = p then Some 0 else map_option Suc (find_sub p cs))"

function emphasize :: "string \<Rightarrow> string \<Rightarrow> string" where
  "emphasize term [] = []"
| "emphasize term (c # cs) =
     (if term \<noteq> [] \<and> py_lower (take (length term) (c # cs)) = term
      then ''<em>'' @ take (length term) (c # cs) @ ''</em>'' @ emphasize term (drop (length term) (c # cs))
      else c # emphasize term cs)"
  by pat_completeness auto
termination
  by (relation "measure (length \<circ> snd)") auto

fun highlight_loop :: "string \<Rightarrow> string list \<Rightarrow> string \<Rightarrow> string" where
  "highlight_loop content [] snippet = snippet"
| "highlight_loop content (term # rest) snippet =
     (case find_sub term (py_lower content) of
        None \<Rightarrow> highlight_loop content rest snippet
      | Some position \<Rightarrow>
          (let begin_at = nat (max 0 (int position - 60))
           in emphasize term (slice begin_at (begin_at + 160) content)))"

definition make_snippet :: "string \<Rightarrow> string list \<Rightarrow> bool \<Rightarrow> string" where
  "make_snippet content terms highlight =
     (if highlight \<and> terms \<noteq> [] then highlight_loop content terms (take 160 content) else take 160 content)"

definition to_hit :: "real \<Rightarrow> stored_doc \<Rightarrow> string list \<Rightarrow> bool \<Rightarrow> engine_hit" where
  "to_hit score d terms highlight =
     \<lparr>eh_document_id = sd_document_id d,
      eh_score = py_round 6 score,
      eh_title = src_title (sd_source d),
      eh_snippet = Some (make_snippet (src_content (sd_source d)) terms highlight),
      eh_content_type = Some (src_content_type (sd_source d)),
      eh_tags = src_tags (sd_source d),
      eh_metadata = src_metadata (sd_source d),
      eh_created_at = dt_of_text (src_created_at (sd_source d)),
      eh_updated_at = dt_of_text (src_updated_at (sd_source d))\<rparr>"

definition counter_add :: "string \<Rightarrow> (string \<times> int) list \<Rightarrow> (string \<times> int) list" where
  "counter_add k m = AList.update k ((case map_of m k of Some n \<Rightarrow> n | None \<Rightarrow> 0) + 1) m"

definition most_common :: "nat \<Rightarrow> (string \<times> int) list \<Rightarrow> (string \<times> int) list" where
  "most_common n m = take n (sort_key (\<lambda>p. - snd p) m)"

definition facet_counts :: "(real \<times> stored_doc) list \<Rightarrow> (string \<times> (string \<times> int) list) list" where
  "facet_counts scored =
     (let ct = fold (\<lambda>(s, d) m. if src_content_type (sd_source d) = [] then m
                               else counter_add (src_content_type (sd_source d)) m) scored [];
          tg = fold (\<lambda>(s, d) m. fold counter_add (src_tags (sd_source d)) m) scored []
      in [(''content_type'', most_common 10 ct), (''tags'', most_common 10 tg)])"

definition ie_search ::
  "(string list \<Rightarrow> string list) \<Rightarrow> int \<Rightarrow> search_query \<Rightarrow> inmemory_engine
   \<Rightarrow> engine_result result \<times> inmemory_engine" where
  "ie_search set_order took query en =
     (case ie_guard en of
        Inl e \<Rightarrow> (Inl e, en)
      | Inr _ \<Rightarrow>
          (let corpus = corpus_of (sq_tenant_id query) en;
               terms = tokenize (sq_text query);
               scored = ranked set_order (sq_fuzzy query) terms corpus;
               window = py_slice (sq_offset query) (sq_offset query + sq_size query) scored
           in (Inr \<lparr>er_hits = map (\<lambda>(score, d). to_hit score d terms (sq_highlight query)) window,
                   er_total = int (length scored),
                   er_total_is_lower_bound = False,
                   er_took_ms = took,
                   er_facets = (if sq_facets query then facet_counts scored else [])\<rparr>, en)))"

definition ie_ping :: "inmemory_engine \<Rightarrow> bool result \<times> inmemory_engine" where
  "ie_ping en = (Inr (ie_available en), en)"

definition inmemory_engine_ops :: "(string list \<Rightarrow> string list) \<Rightarrow> int \<Rightarrow> inmemory_engine engine_ops" where
  "inmemory_engine_ops set_order took =
     \<lparr>e_bulk = ie_bulk, e_search = ie_search set_order took,
      e_ensure_index = (\<lambda>en. (Inr (), en)), e_ping = ie_ping, e_close = (\<lambda>en. (Inr (), en))\<rparr>"

text \<open>The documents are stored under their own identifiers, each once.\<close>

definition docs_ok :: "(string \<times> stored_doc) list \<Rightarrow> bool" where
  "docs_ok ds \<longleftrightarrow> distinct (map fst ds) \<and> (\<forall>(k, d) \<in> set ds. sd_document_id d = k)"

definition engine_inv :: "inmemory_engine \<Rightarrow> bool" where
  "engine_inv en \<longleftrightarrow> docs_ok (ie_docs en)"

text \<open>The stored document an operation leaves behind under its identifier.\<close>

definition op_effect :: "engine_op \<Rightarrow> stored_doc option \<Rightarrow> stored_doc option" where
  "op_effect op old =
     (case old of
        Some d \<Rightarrow> if op_version op \<le> sd_version d then old else
          (case op of IndexOperation i t v s \<Rightarrow>
             Some \<lparr>sd_document_id = i, sd_tenant_id = t, sd_version = v, sd_source = s\<rparr>
           | DeleteOperation i t v \<Rightarrow> None)
      | None \<Rightarrow>
          (case op of IndexOperation i t v s \<Rightarrow>
             Some \<lparr>sd_document_id = i, sd_tenant_id = t, sd_version = v, sd_source = s\<rparr>
           | DeleteOperation i t v \<Rightarrow> None))"

text \<open>Reference: the words at edit distance at most one.\<close>

definition within_one_edit :: "string \<Rightarrow> string \<Rightarrow> bool" where
  "within_one_edit a b \<longleftrightarrow>
     a = b \<or>
     (\<exists>p x y s. a = p @ x # s \<and> b = p @ y # s) \<or>
     (\<exists>p x s. a = p @ x # s \<and> b = p @ s) \<or>
     (\<exists>p x s. a = p @ s \<and> b = p @ x # s)"

text \<open>Reference: a document matches a list of terms when each one occurs in its title or content.\<close>

definition doc_words :: "stored_doc \<Rightarrow> string set" where
  "doc_words d = set (title_tokens d) \<union> set (content_tokens d)"

definition matches :: "bool \<Rightarrow> string list \<Rightarrow> stored_doc \<Rightarrow> bool" where
  "matches fuzzy ws d \<longleftrightarrow>
     (if fuzzy then \<exists>w \<in> set ws. w \<in> doc_words d else \<forall>w \<in> set ws. w \<in> doc_words d)"

text \<open>A small engine and a query used to evaluate the operations.\<close>

definition sample_source :: "string \<Rightarrow> search_source" where
  "sample_source content =
     \<lparr>src_document_id = ''d1'', src_tenant_id = ''acme'', src_title = ''Plan'', src_content = content,
      src_content_type = ''text/plain'', src_tags = [], src_metadata = [], src_version = 1,
      src_created_at = [], src_updated_at = []\<rparr>"

definition sample_engine :: inmemory_engine where
  "sample_engine = \<lparr>ie_docs = [(''d1'', \<lparr>sd_document_id = ''d1'', sd_tenant_id = ''acme'', sd_version = 1,
      sd_source = sample_source ''quarterly report''\<rparr>)], ie_available = True\<rparr>"

definition sample_query :: search_query where
  "sample_query = \<lparr>sq_tenant_id = ''acme'', sq_text = ''Report'', sq_page = 1, sq_size = 10, sq_fuzzy = False,
                   sq_highlight = True, sq_facets = False\<rparr>"

subsection \<open>Tokens and normalisation\<close>

lemma tokenize_normalize: "tokenize (normalize_query q) = tokenize q"
  by (simp add: tokenize_def word_runs_normalize)

lemma word_runs_nonempty: "[] \<notin> set (word_runs s)"
  by (induction s rule: word_runs.induct) auto

lemma tokenize_nonempty: "t \<in> set (tokenize s) \<Longrightarrow> t \<noteq> []"
  using word_runs_nonempty by (auto simp: tokenize_def)

subsection \<open>One edit\<close>

lemma skip_match_True: "length xs = length ys \<Longrightarrow> skip_match True xs ys \<longleftrightarrow> xs = ys"
  by (induction xs ys rule: list_induct2) auto

lemma skip_match_False:
  "length ys = Suc (length xs) \<Longrightarrow>
   skip_match False xs ys \<longleftrightarrow> (\<exists>p x s. ys = p @ x # s \<and> xs = p @ s)"
proof (induction xs arbitrary: ys)
  case Nil
  then obtain y where "ys = [y]" by (cases ys) auto
  then have "ys = [] @ y # []" by simp
  then show ?case by auto
next
  case (Cons a as)
  then obtain b bs where ys: "ys = b # bs" "length bs = Suc (length as)" by (cases ys) auto
  show ?case
  proof (cases "a = b")
    case True
    have "(\<exists>p x s. ys = p @ x # s \<and> a # as = p @ s) \<longleftrightarrow> (\<exists>p x s. bs = p @ x # s \<and> as = p @ s)"
    proof
      assume "\<exists>p x s. ys = p @ x # s \<and> a # as = p @ s"
      then obtain p x s where *: "ys = p @ x # s" "a # as = p @ s" by blast
      show "\<exists>p x s. bs = p @ x # s \<and> as = p @ s"
      proof (cases p)
        case Nil
        with * ys have "bs = [] @ a # as" "as = [] @ as" by auto
        then show ?thesis by blast
      next
        case (Cons c p')
        with * ys have "bs = p' @ x # s" "as = p' @ s" by auto
        then show ?thesis by blast
      qed
    next
      assume "\<exists>p x s. bs = p @ x # s \<and> as = p @ s"
      then obtain p x s where "bs = p @ x # s" "as = p @ s" by blast
      with True ys have "ys = (a # p) @ x # s" "a # as = (a # p) @ s" by auto
      then show "\<exists>p x s. ys = p @ x # s \<and> a # as = p @ s" by blast
    qed
    with True ys Cons.IH [OF ys(2)] show ?thesis by simp
  next
    case False
    have "(\<exists>p x s. ys = p @ x # s \<and> a # as = p @ s) \<longleftrightarrow> bs = a # as"
    proof
      assume "\<exists>p x s. ys = p @ x # s \<and> a # as = p @ s"
      then obtain p x s where *: "ys = p @ x # s" "a # as = p @ s" by blast
      with False ys have "p = []" by (cases p) auto
      with * ys show "bs = a # as" by simp
    next
      assume "bs = a # as"
      with ys have "ys = [] @ b # (a # as)" by simp
      then show "\<exists>p x s. ys = p @ x # s \<and> a # as = p @ s" by blast
    qed
    with False ys skip_match_True [of "a # as" bs] show ?thesis by auto
  qed
qed

lemma hamming_one:
  "length a = length b \<Longrightarrow>
   length (filter (\<lambda>(x, y). x \<noteq> y) (zip a b)) = 0 \<longleftrightarrow> a = b"
  by (induction a b rule: list_induct2) auto

lemma one_subst_Cons:
  "(\<exists>p u v s. x # xs = p @ u # s \<and> y # ys = p @ v # s) \<longleftrightarrow>
   xs = ys \<or> x = y \<and> (\<exists>p u v s. xs = p @ u # s \<and> ys = p @ v # s)" (is "?L \<longleftrightarrow> ?R")
proof
  assume ?L
  then obtain p u v s where *: "x # xs = p @ u # s" "y # ys = p @ v # s" by blast
  then show ?R by (cases p) auto
next
  assume ?R
  then show ?L
  proof (elim disjE conjE exE)
    assume "xs = ys"
    then have "x # xs = [] @ x # xs" "y # ys = [] @ y # xs" by auto
    then show ?thesis by blast
  next
    fix p u v s assume "x = y" "xs = p @ u # s" "ys = p @ v # s"
    then have "x # xs = (x # p) @ u # s" "y # ys = (x # p) @ v # s" by auto
    then show ?thesis by blast
  qed
qed

lemma hamming_one_subst:
  "length a = length b \<Longrightarrow>
   length (filter (\<lambda>(x, y). x \<noteq> y) (zip a b)) = 1 \<longleftrightarrow> (a \<noteq> b \<and> (\<exists>p x y s. a = p @ x # s \<and> b = p @ y # s))"
proof (induction a b rule: list_induct2)
  case Nil
  then show ?case by simp
next
  case (Cons x xs y ys)
  show ?case
  proof (cases "x = y")
    case True
    then show ?thesis unfolding one_subst_Cons using Cons by auto
  next
    case False
    then show ?thesis unfolding one_subst_Cons using Cons hamming_one [of xs ys] by auto
  qed
qed

lemma edit_distance_correct:
  assumes "abs (int (length a) - int (length b)) \<le> 1"
  shows "edit_distance_at_most_one a b \<longleftrightarrow> within_one_edit a b"
proof (cases "length a = length b")
  case True
  have "edit_distance_at_most_one a b \<longleftrightarrow> a = b \<or> (\<exists>p x y s. a = p @ x # s \<and> b = p @ y # s)"
    unfolding edit_distance_at_most_one_def by (simp only: True hamming_one_subst [OF True] refl if_True) (simp split: if_splits)
  moreover have "\<not> (\<exists>p x s. a = p @ x # s \<and> b = p @ s)" "\<not> (\<exists>p x s. a = p @ s \<and> b = p @ x # s)"
    using True by auto
  ultimately show ?thesis unfolding within_one_edit_def by blast
next
  case False
  then consider "length b = Suc (length a)" | "length a = Suc (length b)" using assms by linarith
  then show ?thesis
  proof cases
    case 1
    then have "edit_distance_at_most_one a b \<longleftrightarrow> (\<exists>p x s. b = p @ x # s \<and> a = p @ s)"
      using skip_match_False [OF 1] by (auto simp: edit_distance_at_most_one_def)
    moreover have "\<not> (\<exists>p x s. a = p @ x # s \<and> b = p @ s)" "\<not> (\<exists>p x y s. a = p @ x # s \<and> b = p @ y # s)" "a \<noteq> b"
      using 1 by auto
    ultimately show ?thesis unfolding within_one_edit_def by blast
  next
    case 2
    then have "edit_distance_at_most_one a b \<longleftrightarrow> (\<exists>p x s. a = p @ x # s \<and> b = p @ s)"
      using skip_match_False [OF 2] by (auto simp: edit_distance_at_most_one_def)
    moreover have "\<not> (\<exists>p x s. a = p @ s \<and> b = p @ x # s)" "\<not> (\<exists>p x y s. a = p @ x # s \<and> b = p @ y # s)" "a \<noteq> b"
      using 2 by auto
    ultimately show ?thesis unfolding within_one_edit_def by blast
  qed
qed

lemma within_one_edit_length: "within_one_edit a b \<Longrightarrow> abs (int (length a) - int (length b)) \<le> 1"
  by (auto simp: within_one_edit_def)

lemma closest_loop_step:
  "closest_loop w best (c # cs) =
     (if within_one_edit w c \<and> (case best of None \<Rightarrow> True | Some b \<Rightarrow> length c < length b)
      then closest_loop w (Some c) cs else closest_loop w best cs)"
  using edit_distance_correct [of w c] within_one_edit_length [of w c]
  by (auto simp: abs_minus_commute)

lemma closest_loop_spec:
  "closest_loop w best cs = r \<Longrightarrow>
   (r = None \<longleftrightarrow> best = None \<and> (\<forall>c \<in> set cs. \<not> within_one_edit w c)) \<and>
   (\<forall>x. r = Some x \<longrightarrow> (best = Some x \<or> x \<in> set cs \<and> within_one_edit w x) \<and>
      (\<forall>c \<in> set cs. within_one_edit w c \<longrightarrow> length x \<le> length c) \<and>
      (\<forall>b. best = Some b \<longrightarrow> length x \<le> length b))"
proof (induction cs arbitrary: best)
  case Nil
  then show ?case by auto
next
  case (Cons c cs)
  show ?case
  proof (cases "within_one_edit w c \<and> (case best of None \<Rightarrow> True | Some b \<Rightarrow> length c < length b)")
    case True
    then have "closest_loop w (Some c) cs = r" using Cons.prems closest_loop_step by metis
    from Cons.IH [OF this] True show ?thesis
      by (cases best) (auto intro: order.trans less_imp_le)
  next
    case False
    then have eq: "closest_loop w best cs = r" using Cons.prems closest_loop_step by metis
    show ?thesis
    proof (cases "within_one_edit w c")
      case True
      with False obtain b where "best = Some b" "length b \<le> length c" by (cases best) auto
      with Cons.IH [OF eq] show ?thesis by force
    next
      case False
      with Cons.IH [OF eq] show ?thesis by auto
    qed
  qed
qed

subsection \<open>Bulk writes\<close>

lemma bulk_apply_inv: "docs_ok ds \<Longrightarrow> docs_ok (bulk_apply op ds)"
proof (cases op)
  case (IndexOperation i t v s)
  assume "docs_ok ds"
  moreover have "set (AList.update i x ds) \<subseteq> insert (i, x) (set ds)" for x
    by (induction ds) auto
  ultimately show ?thesis using IndexOperation by (fastforce simp: docs_ok_def distinct_keys_update)
next
  case (DeleteOperation i t v)
  assume "docs_ok ds"
  moreover have "set (AList.delete i ds) \<subseteq> set ds" by (induction ds) auto
  ultimately show ?thesis using DeleteOperation by (auto simp: docs_ok_def distinct_keys_delete)
qed

lemma bulk_one_inv: "docs_ok ds \<Longrightarrow> docs_ok (bulk_one op ds)"
  by (simp add: bulk_one_def bulk_apply_inv split: option.splits)

lemma fold_bulk_inv: "docs_ok ds \<Longrightarrow> docs_ok (fold bulk_one ops ds)"
  by (induction ops arbitrary: ds) (simp_all add: bulk_one_inv)

lemma ie_bulk_inv: "engine_inv en \<Longrightarrow> engine_inv (snd (ie_bulk ops en))"
  by (auto simp: ie_bulk_def engine_inv_def fold_bulk_inv split: sum.splits)

lemma map_of_bulk_one:
  "map_of (bulk_one op ds) k = (if k = op_document_id op then op_effect op (map_of ds k) else map_of ds k)"
  by (cases op) (auto simp: bulk_one_def op_effect_def split: option.splits)

lemma map_of_fold_bulk_other:
  "k \<notin> op_document_id ` set ops \<Longrightarrow> map_of (fold bulk_one ops ds) k = map_of ds k"
  by (induction ops arbitrary: ds) (auto simp: map_of_bulk_one)

lemma map_of_fold_bulk:
  "distinct (map op_document_id ops) \<Longrightarrow> op \<in> set ops \<Longrightarrow>
   map_of (fold bulk_one ops ds) (op_document_id op) = op_effect op (map_of ds (op_document_id op))"
proof (induction ops arbitrary: ds)
  case (Cons a ops)
  show ?case
  proof (cases "op = a")
    case True
    with Cons.prems show ?thesis by (simp add: map_of_fold_bulk_other map_of_bulk_one)
  next
    case False
    with Cons.prems have "op \<in> set ops" by simp
    moreover from this Cons.prems(1) have "op_document_id op \<noteq> op_document_id a"
      by (metis distinct.simps(2) image_eqI list.map(2) list.set_map)
    ultimately show ?thesis using Cons by (simp add: map_of_bulk_one)
  qed
qed simp

lemma op_effect_idem: "op_effect op (op_effect op old) = op_effect op old"
  by (cases op) (auto simp: op_effect_def split: option.splits)

subsection \<open>Which documents match\<close>

lemma ids_distinct:
  assumes "engine_inv en"
  shows "distinct (map sd_document_id (corpus_of t en))"
proof -
  have "map sd_document_id (map snd (ie_docs en)) = map fst (ie_docs en)"
    using assms by (auto simp: engine_inv_def docs_ok_def)
  moreover have "distinct (map fst (ie_docs en))" using assms by (simp add: engine_inv_def docs_ok_def)
  ultimately have "distinct (map sd_document_id (map snd (ie_docs en)))" by (simp only:)
  then show ?thesis unfolding corpus_of_def by (rule distinct_map_filter)
qed

lemma doc_tokens_eq:
  assumes "distinct (map sd_document_id corpus)"
  shows "doc_tokens corpus = map (\<lambda>d. (sd_document_id d, title_tokens d, content_tokens d)) corpus"
  using fold_update_new [OF assms, of "[]" "\<lambda>d. (title_tokens d, content_tokens d)"]
  by (simp add: doc_tokens_def)

lemma map_of_doc_tokens:
  assumes "distinct (map sd_document_id corpus)" "d \<in> set corpus"
  shows "map_of (doc_tokens corpus) (sd_document_id d) = Some (title_tokens d, content_tokens d)"
proof -
  have "distinct (map fst (doc_tokens corpus))"
    using assms(1) by (simp add: doc_tokens_eq comp_def)
  moreover have "(sd_document_id d, title_tokens d, content_tokens d) \<in> set (doc_tokens corpus)"
    using assms by (auto simp: doc_tokens_eq)
  ultimately show ?thesis by (rule map_of_is_SomeI)
qed

lemma doc_freq_le:
  "distinct (map sd_document_id corpus) \<Longrightarrow> doc_freq (doc_tokens corpus) w \<le> max (length corpus) 1"
  using length_filter_le [of _ "doc_tokens corpus"]
  by (simp add: doc_freq_def doc_tokens_eq) (meson le_max_iff_disj length_filter_le order.trans)

lemma idf_pos: "df \<le> n \<Longrightarrow> 0 < idf n df"
  by (simp add: idf_def add_pos_pos)

lemma length_norm_pos: "0 < length_norm ct"
  by (simp add: length_norm_def add_pos_nonneg)

lemma term_freq_0: "term_freq tt ct w = 0 \<longleftrightarrow> w \<notin> set tt \<union> set ct"
  by (auto simp: term_freq_def count_list_0_iff)

lemma score_terms_spec:
  assumes "\<And>w. df w \<le> n"
  shows "fst (score_terms n df tt ct ws (m, s)) = m + length (filter (\<lambda>w. w \<in> set tt \<union> set ct) ws) \<and>
    s \<le> snd (score_terms n df tt ct ws (m, s)) \<and>
    ((\<exists>w \<in> set ws. w \<in> set tt \<union> set ct) \<longrightarrow> s < snd (score_terms n df tt ct ws (m, s)))"
proof (induction ws arbitrary: m s)
  case (Cons w ws)
  show ?case
  proof (cases "term_freq tt ct w = 0")
    case True
    then have "w \<notin> set tt \<union> set ct" by (simp only: term_freq_0 not_False_eq_True)
    with True Cons.IH [of m s] show ?thesis by auto
  next
    case False
    let ?g = "idf n (df w) * (real (term_freq tt ct w) / (real (term_freq tt ct w) + 12/10)) / length_norm ct"
    from False have w: "w \<in> set tt \<union> set ct" by (simp only: term_freq_0 not_not)
    have "0 < idf n (df w)" by (rule idf_pos) (rule assms)
    with False have "0 < ?g" by (simp add: length_norm_pos)
    with False w Cons.IH [of "m + 1" "s + ?g"] show ?thesis by (auto simp: Let_def)
  qed
qed simp

lemma score_doc_matches:
  assumes dist: "distinct (map sd_document_id corpus)" and d: "d \<in> set corpus" and ws: "ws \<noteq> []"
  shows "map snd (score_doc fuzzy (max (length corpus) 1) (doc_tokens corpus) ws d) =
    (if matches fuzzy ws d then [d] else [])"
proof -
  let ?tt = "title_tokens d" and ?ct = "content_tokens d" and ?n = "max (length corpus) 1"
  let ?r = "score_terms ?n (doc_freq (doc_tokens corpus)) ?tt ?ct ws (0, 0)"
  let ?hit = "\<lambda>w. w \<in> set ?tt \<union> set ?ct"
  have sp: "fst ?r = length (filter ?hit ws)" "(\<exists>w \<in> set ws. ?hit w) \<Longrightarrow> 0 < snd ?r"
    using score_terms_spec [where df = "doc_freq (doc_tokens corpus)" and n = ?n and tt = ?tt and ct = ?ct
        and ws = ws and m = 0 and s = 0] doc_freq_le [OF dist] by auto
  have all: "length (filter ?hit ws) \<ge> length ws \<longleftrightarrow> (\<forall>w \<in> set ws. ?hit w)"
    by (metis filter_True length_filter_less linorder_not_less order_refl)
  have some: "length (filter ?hit ws) \<ge> 1 \<longleftrightarrow> (\<exists>w \<in> set ws. ?hit w)"
    by (metis One_nat_def Suc_leI filter_empty_conv length_greater_0_conv not_one_le_zero list.size(3))
  have "fst ?r \<ge> (if fuzzy then 1 else length ws) \<and> 0 < snd ?r \<longleftrightarrow> matches fuzzy ws d"
  proof (cases fuzzy)
    case True
    then show ?thesis using sp some by (auto simp: matches_def doc_words_def)
  next
    case False
    have "\<exists>w. w \<in> set ws" using ws by (cases ws) auto
    then show ?thesis using False sp all by (auto simp: matches_def doc_words_def)
  qed
  moreover obtain m sc where r: "?r = (m, sc)" by (cases ?r) auto
  ultimately have "m \<ge> (if fuzzy then 1 else length ws) \<and> 0 < sc \<longleftrightarrow> matches fuzzy ws d" by simp
  then show ?thesis
    unfolding score_doc_def map_of_doc_tokens [OF dist d] option.case prod.case r Let_def by simp
qed

lemma scored_docs_matches:
  assumes "distinct (map sd_document_id corpus)" "ws \<noteq> []"
  shows "map snd (scored_docs so fuzzy ws corpus) =
    filter (matches fuzzy (effective_terms so fuzzy (vocabulary corpus) ws)) corpus"
proof -
  let ?e = "effective_terms so fuzzy (vocabulary corpus) ws"
  have e: "?e \<noteq> []" using assms(2) by (simp add: effective_terms_def)
  have "map snd (concat (map (score_doc fuzzy (max (length corpus) 1) (doc_tokens corpus) ?e) xs))
      = filter (matches fuzzy ?e) xs" if "set xs \<subseteq> set corpus" for xs
    using that
  proof (induction xs)
    case (Cons x xs)
    then have "x \<in> set corpus" by simp
    from score_doc_matches [OF assms(1) this e, of fuzzy] Cons show ?case by (simp del: max_def)
  qed simp
  then show ?thesis using assms(2) by (simp add: scored_docs_def Let_def)
qed

lemma scored_docs_corpus: "p \<in> set (scored_docs so fuzzy ws corpus) \<Longrightarrow> snd p \<in> set corpus"
  by (auto simp: scored_docs_def score_doc_def Let_def split: if_splits option.splits prod.splits)

lemma scored_docs_pos: "p \<in> set (scored_docs so fuzzy ws corpus) \<Longrightarrow> 0 < fst p"
  by (auto simp: scored_docs_def score_doc_def Let_def split: if_splits option.splits prod.splits)

lemma effective_terms_exact: "effective_terms so False v ws = ws"
  by (simp add: effective_terms_def)

lemma ranked_set: "set (ranked so fuzzy ws corpus) = set (scored_docs so fuzzy ws corpus)"
  by (simp add: ranked_def)

lemma ranked_sorted: "sorted (map rank_key (ranked so fuzzy ws corpus))"
  by (simp add: ranked_def)

lemma ranked_scores: "sorted_wrt (\<lambda>p q. fst q \<le> fst p) (ranked so fuzzy ws corpus)"
proof -
  have "sorted_wrt (\<lambda>p q. rank_key p \<le> rank_key q) (ranked so fuzzy ws corpus)"
    using ranked_sorted by (simp add: sorted_map)
  then show ?thesis
    by (rule sorted_wrt_mono_rel [rotated]) (auto simp: rank_key_def less_eq_prod_def)
qed

lemma corpus_of_tenant: "d \<in> set (corpus_of t en) \<Longrightarrow> sd_tenant_id d = t \<and> d \<in> snd ` set (ie_docs en)"
  by (auto simp: corpus_of_def)

subsection \<open>The adapter keeps the engine contract\<close>

definition ie_visible :: "inmemory_engine \<Rightarrow> string \<Rightarrow> string set" where
  "ie_visible en t = sd_document_id ` set (corpus_of t en)"

lemma ie_search_up:
  "ie_available en \<Longrightarrow> ie_search so took q en =
     (let ws = tokenize (sq_text q); sc = ranked so (sq_fuzzy q) ws (corpus_of (sq_tenant_id q) en)
      in (Inr \<lparr>er_hits = map (\<lambda>(score, d). to_hit score d ws (sq_highlight q))
                            (py_slice (sq_offset q) (sq_offset q + sq_size q) sc),
              er_total = int (length sc), er_total_is_lower_bound = False, er_took_ms = took,
              er_facets = (if sq_facets q then facet_counts sc else [])\<rparr>, en))"
  by (simp add: ie_search_def ie_guard_def Let_def)

lemma ie_search_down:
  "\<not> ie_available en \<Longrightarrow> ie_search so took q en = (Inl (RuntimeErr ''search engine unavailable''), en)"
  by (simp add: ie_search_def ie_guard_def)

lemma ie_hit_origin:
  assumes "ie_search so took q en = (Inr r, en')" "h \<in> set (er_hits r)"
  shows "\<exists>score d. h = to_hit score d (tokenize (sq_text q)) (sq_highlight q) \<and>
    (score, d) \<in> set (ranked so (sq_fuzzy q) (tokenize (sq_text q)) (corpus_of (sq_tenant_id q) en))"
proof -
  have "ie_available en" using assms(1) ie_search_down by fastforce
  then show ?thesis
    using assms py_slice_set by (fastforce simp: ie_search_up Let_def)
qed

interpretation ims: search_engine "inmemory_engine_ops so took" ie_available ie_visible
proof (unfold_locales, goal_cases)
  case (1 en q)
  then show ?case by (simp add: inmemory_engine_ops_def ie_search_up Let_def)
next
  case (2 en q)
  then show ?case by (simp add: inmemory_engine_ops_def ie_search_down)
next
  case (3 q en r en' h)
  then have "ie_search so took q en = (Inr r, en')" by (simp add: inmemory_engine_ops_def)
  from ie_hit_origin [OF this 3(2)] obtain score d where
    "h = to_hit score d (tokenize (sq_text q)) (sq_highlight q)"
    "(score, d) \<in> set (ranked so (sq_fuzzy q) (tokenize (sq_text q)) (corpus_of (sq_tenant_id q) en))" by blast
  then show ?case using scored_docs_corpus by (fastforce simp: ie_visible_def to_hit_def ranked_set)
next
  case (4 q en r en')
  then have "ie_available en" using ie_search_down by (fastforce simp: inmemory_engine_ops_def)
  then show ?case
    using 4 length_py_slice_le [of "sq_offset q" "sq_size q"]
    by (auto simp: inmemory_engine_ops_def ie_search_up Let_def)
qed

subsection \<open>Properties\<close>

lemma ranked_length:
  assumes "engine_inv en" "ws \<noteq> []"
  shows "length (ranked so fuzzy ws (corpus_of t en)) =
    length (filter (matches fuzzy (effective_terms so fuzzy (vocabulary (corpus_of t en)) ws)) (corpus_of t en))"
  using arg_cong [OF scored_docs_matches [OF ids_distinct [OF assms(1)] assms(2), of so fuzzy t], of length]
  by (simp add: ranked_def)

lemma ranked_members:
  assumes "engine_inv en" "ws \<noteq> []"
  shows "snd ` set (ranked so fuzzy ws (corpus_of t en)) =
    {d \<in> set (corpus_of t en). matches fuzzy (effective_terms so fuzzy (vocabulary (corpus_of t en)) ws) d}"
proof -
  have "snd ` set (scored_docs so fuzzy ws (corpus_of t en)) = set (map snd (scored_docs so fuzzy ws (corpus_of t en)))"
    by simp
  also have "\<dots> = {d \<in> set (corpus_of t en). matches fuzzy (effective_terms so fuzzy (vocabulary (corpus_of t en)) ws) d}"
    unfolding scored_docs_matches [OF ids_distinct [OF assms(1)] assms(2)] by auto
  finally show ?thesis by (simp add: ranked_set)
qed

lemma exact_hits:
  assumes "engine_inv en" "ie_search so took q en = (Inr r, en')" "\<not> sq_fuzzy q" "tokenize (sq_text q) \<noteq> []"
    "0 \<le> sq_offset q" "0 \<le> sq_size q"
  shows "er_total r = int (length (filter (matches False (tokenize (sq_text q))) (corpus_of (sq_tenant_id q) en))) \<and>
    eh_document_id ` set (er_hits r) \<subseteq>
      sd_document_id ` {d \<in> set (corpus_of (sq_tenant_id q) en). matches False (tokenize (sq_text q)) d} \<and>
    (sq_offset q = 0 \<and> er_total r \<le> sq_size q \<longrightarrow> eh_document_id ` set (er_hits r) =
      sd_document_id ` {d \<in> set (corpus_of (sq_tenant_id q) en). matches False (tokenize (sq_text q)) d}) \<and>
    sorted_wrt (\<lambda>a b. eh_score b \<le> eh_score a) (er_hits r)"
proof -
  let ?ws = "tokenize (sq_text q)" and ?c = "corpus_of (sq_tenant_id q) en"
  let ?sc = "ranked so False ?ws ?c"
  let ?win = "py_slice (sq_offset q) (sq_offset q + sq_size q) ?sc"
  have av: "ie_available en" using assms(2) ie_search_down by fastforce
  have r: "er_hits r = map (\<lambda>(s, d). to_hit s d ?ws (sq_highlight q)) ?win" "er_total r = int (length ?sc)"
    using assms(2,3) by (auto simp: ie_search_up [OF av] Let_def)
  have len: "length ?sc = length (filter (matches False ?ws) ?c)"
    using ranked_length [OF assms(1,4), of so False] by (simp add: effective_terms_exact)
  have mem: "snd ` set ?sc = {d \<in> set ?c. matches False ?ws d}"
    using ranked_members [OF assms(1,4), of so False] by (simp add: effective_terms_exact)
  have ids: "eh_document_id ` set (er_hits r) = sd_document_id ` snd ` set ?win"
    unfolding r(1) by (force simp: to_hit_def split_def image_image)
  have "sorted_wrt (\<lambda>a b. fst b \<le> fst a) ?win" by (rule sorted_wrt_py_slice [OF ranked_scores])
  then have "sorted_wrt (\<lambda>a b. eh_score b \<le> eh_score a) (er_hits r)"
    unfolding r(1) sorted_wrt_map by (rule sorted_wrt_mono_rel [rotated]) (auto simp: to_hit_def py_round_mono)
  moreover have "set ?win = set ?sc" if "sq_offset q = 0" "er_total r \<le> sq_size q"
    using that r(2) assms(6) by (simp add: py_slice_nonneg slice_def)
  moreover have "snd ` set ?win \<subseteq> snd ` set ?sc" using py_slice_set by (rule image_mono)
  ultimately show ?thesis using r(2) len mem ids by (auto simp: image_mono)
qed

text \<open>
  C11: An exact search counts and returns precisely the tenant's documents that contain every query term in title
  or content: the total is their number, every hit is one of them, a page that is long enough
  lists them all, and hits come in descending score.
\<close>

theorem exact_search:
  assumes "engine_inv en" "ie_search so took q en = (Inr r, en')" "\<not> sq_fuzzy q" "tokenize (sq_text q) \<noteq> []"
    "0 \<le> sq_offset q" "0 \<le> sq_size q"
  shows "er_total r = int (length (filter (matches False (tokenize (sq_text q))) (corpus_of (sq_tenant_id q) en))) \<and>
    eh_document_id ` set (er_hits r) \<subseteq>
      sd_document_id ` {d \<in> set (corpus_of (sq_tenant_id q) en). matches False (tokenize (sq_text q)) d} \<and>
    (sq_offset q = 0 \<and> er_total r \<le> sq_size q \<longrightarrow> eh_document_id ` set (er_hits r) =
      sd_document_id ` {d \<in> set (corpus_of (sq_tenant_id q) en). matches False (tokenize (sq_text q)) d}) \<and>
    sorted_wrt (\<lambda>a b. eh_score b \<le> eh_score a) (er_hits r)"
  by (rule exact_hits [OF assms])

theorem exact_search_witness:
  "\<exists>r. ie_search id 0 sample_query sample_engine = (Inr r, sample_engine) \<and> er_total r = 1"
proof -
  have inv: "engine_inv sample_engine" by (simp add: sample_engine_def engine_inv_def docs_ok_def)
  obtain r where r: "ie_search id 0 sample_query sample_engine = (Inr r, sample_engine)"
    by (simp add: ie_search_up sample_engine_def Let_def)
  have m: "tokenize (sq_text sample_query) \<noteq> []" "\<not> sq_fuzzy sample_query" "0 \<le> sq_offset sample_query" "0 \<le> sq_size sample_query"
    "length (filter (matches False (tokenize (sq_text sample_query))) (corpus_of (sq_tenant_id sample_query) sample_engine)) = 1"
    by code_simp+
  from exact_search [OF inv r m(2,1,3,4)] m(5) r show ?thesis by auto
qed

lemma page_slice:
  assumes "1 \<le> p"
  shows "py_slice (sq_offset (q\<lparr>sq_page := int p, sq_size := int sz\<rparr>))
      (sq_offset (q\<lparr>sq_page := int p, sq_size := int sz\<rparr>) + int sz) xs = take sz (drop ((p - 1) * sz) xs)"
proof -
  have o: "sq_offset (q\<lparr>sq_page := int p, sq_size := int sz\<rparr>) = int ((p - 1) * sz)"
    using assms by (simp add: sq_offset_def of_nat_diff)
  show ?thesis unfolding o by (simp add: py_slice_nonneg slice_def nat_add_distrib flip: of_nat_mult of_nat_add)
qed

lemma pages_take:
  assumes "\<And>n. f (Suc n) = take k (drop (n * k) xs)"
  shows "concat (map f [1..<Suc n]) = take (n * k) xs"
proof (induction n)
  case (Suc n)
  have "take (Suc n * k) xs = take (n * k) xs @ take k (drop (n * k) xs)"
    using take_add [of "n * k" k xs] by (simp add: add.commute)
  then show ?case using Suc assms [of n] by simp
qed simp

text \<open>
  C12: Pages partition the result: while the engine is up, the hits of the pages 1 to \<open>n\<close> of a query, one page after the
  other, are the ranked list of all its hits up to position \<open>n\<close> times the page size, with nothing repeated or left out.
\<close>

theorem pages_partition:
  assumes "ie_available en"
  shows "concat (map (\<lambda>p. er_hits (projr (fst (ie_search so took (q\<lparr>sq_page := int p, sq_size := int sz\<rparr>) en)))) [1..<Suc n]) =
    take (n * sz) (map (\<lambda>(score, d). to_hit score d (tokenize (sq_text q)) (sq_highlight q))
      (ranked so (sq_fuzzy q) (tokenize (sq_text q)) (corpus_of (sq_tenant_id q) en)))"
proof (rule pages_take)
  fix n
  show "er_hits (projr (fst (ie_search so took (q\<lparr>sq_page := int (Suc n), sq_size := int sz\<rparr>) en))) =
    take sz (drop (n * sz) (map (\<lambda>(score, d). to_hit score d (tokenize (sq_text q)) (sq_highlight q))
      (ranked so (sq_fuzzy q) (tokenize (sq_text q)) (corpus_of (sq_tenant_id q) en))))"
    using page_slice [where p = "Suc n" and q = q and sz = sz
      and xs = "ranked so (sq_fuzzy q) (tokenize (sq_text q)) (corpus_of (sq_tenant_id q) en)"]
    by (simp add: ie_search_up [OF assms] Let_def take_map drop_map)
qed

theorem pages_partition_witness:
  "concat (map (\<lambda>p. er_hits (projr (fst (ie_search id 0 (sample_query\<lparr>sq_page := int p, sq_size := int 2\<rparr>) sample_engine)))) [1..<Suc 3]) =
   take (3 * 2) (map (\<lambda>(score, d). to_hit score d (tokenize ''Report'') True) (ranked id False (tokenize ''Report'') (corpus_of ''acme'' sample_engine)))"
proof -
  have "ie_available sample_engine" by (simp add: sample_engine_def)
  from pages_partition [OF this, where so = id and took = 0 and q = sample_query and sz = 2 and n = 3]
  show ?thesis by (simp only: sample_query_def search_query.simps)
qed



text \<open>
  Replaying a bulk request changes nothing: for operations on different documents, applying the same list a second
  time leaves every stored document as the first time left it, and an operation whose version is not newer than the stored one is
  a successful no-op.
\<close>

theorem bulk_idempotent:
  assumes "distinct (map op_document_id ops)" "ie_available en"
  shows "map_of (ie_docs (snd (ie_bulk ops (snd (ie_bulk ops en))))) = map_of (ie_docs (snd (ie_bulk ops en))) \<and>
    fst (ie_bulk ops (snd (ie_bulk ops en))) = Inr \<lparr>br_succeeded = map op_document_id ops, br_failed = []\<rparr>"
proof
  show "map_of (ie_docs (snd (ie_bulk ops (snd (ie_bulk ops en))))) = map_of (ie_docs (snd (ie_bulk ops en)))"
  proof
    fix k
    show "map_of (ie_docs (snd (ie_bulk ops (snd (ie_bulk ops en))))) k = map_of (ie_docs (snd (ie_bulk ops en))) k"
    proof (cases "k \<in> op_document_id ` set ops")
      case True
      then obtain op where "op \<in> set ops" "k = op_document_id op" by blast
      then show ?thesis using assms by (simp add: ie_bulk_def ie_guard_def map_of_fold_bulk op_effect_idem)
    next
      case False
      then show ?thesis using assms(2) by (simp add: ie_bulk_def ie_guard_def map_of_fold_bulk_other)
    qed
  qed
qed (simp add: ie_bulk_def ie_guard_def assms(2))

theorem bulk_idempotent_witness:
  "map_of (ie_docs (snd (ie_bulk [DeleteOperation ''d1'' ''acme'' 2] (snd (ie_bulk [DeleteOperation ''d1'' ''acme'' 2] sample_engine))))) =
   map_of (ie_docs (snd (ie_bulk [DeleteOperation ''d1'' ''acme'' 2] sample_engine)))"
  using bulk_idempotent [of "[DeleteOperation ''d1'' ''acme'' 2]" sample_engine] by (simp add: sample_engine_def)

text \<open>
  A delete forgets its version: an index operation older than the delete that removed a document stores the
  document again when it arrives after the delete.
\<close>

theorem delete_forgets_version:
  assumes "ie_available en" "map_of (ie_docs en) i = Some d" "sd_version d < v"
  shows "map_of (ie_docs (snd (ie_bulk [DeleteOperation i t v, IndexOperation i t (v - 1) s] en))) i =
    Some \<lparr>sd_document_id = i, sd_tenant_id = t, sd_version = v - 1, sd_source = s\<rparr>"
  using assms by (simp add: ie_bulk_def ie_guard_def map_of_bulk_one op_effect_def)

theorem delete_forgets_version_witness:
  "map_of (ie_docs (snd (ie_bulk [DeleteOperation ''d1'' ''acme'' 2, IndexOperation ''d1'' ''acme'' (2 - 1) (sample_source ''x'')]
      sample_engine))) ''d1'' =
   Some \<lparr>sd_document_id = ''d1'', sd_tenant_id = ''acme'', sd_version = 2 - 1, sd_source = sample_source ''x''\<rparr>"
  by (rule delete_forgets_version [where d = "\<lparr>sd_document_id = ''d1'', sd_tenant_id = ''acme'', sd_version = 1,
      sd_source = sample_source ''quarterly report''\<rparr>"]) (simp_all add: sample_engine_def)

end
