(* ===== verification/Queue.thy ===== *)
theory Queue
  imports Config Uuid Resilience
begin

text \<open>
  \<open>clients/queue.py\<close>: the indexing event and its wire form, the publisher port with its two
  adapters, and the exchange/queue topology.  The metrics counters are left out.

  \<open>doc_event\<close> is an event as the service creates it, with text in every text field.  Nothing
  checks the types of a received payload, so \<open>from_dict\<close> yields a \<open>wire_event\<close> whose fields
  are the JSON values as received; \<open>text_event\<close> is the event of a payload whose fields are text.
\<close>

definition EVENT_INDEX :: string where "EVENT_INDEX = ''document.index''"
definition EVENT_DELETE :: string where "EVENT_DELETE = ''document.delete''"

record doc_event =
  ev_document_id :: string
  ev_tenant_id :: string
  ev_version :: int
  ev_type :: string
  ev_event_id :: string
  ev_occurred_at :: string

definition to_json :: "doc_event \<Rightarrow> json" where
  "to_json e =
     JObj [(''document_id'', JStr (ev_document_id e)), (''tenant_id'', JStr (ev_tenant_id e)),
           (''version'', JInt (ev_version e)), (''type'', JStr (ev_type e)),
           (''event_id'', JStr (ev_event_id e)), (''occurred_at'', JStr (ev_occurred_at e))]"

fun py_int_json :: "json \<Rightarrow> int result" where
  "py_int_json (JInt n) = Inr n"
| "py_int_json (JBool b) = Inr (if b then 1 else 0)"
| "py_int_json (JFloat x) = Inr (py_int x)"
| "py_int_json (JStr s) = (case py_int10 s of Some n \<Rightarrow> Inr n | None \<Rightarrow> Inl ValueErr)"
| "py_int_json j = Inl TypeErr"

record wire_event =
  we_document_id :: json
  we_tenant_id :: json
  we_version :: int
  we_type :: json
  we_event_id :: json
  we_occurred_at :: json

definition required :: "(string \<times> json) list \<Rightarrow> string \<Rightarrow> json result" where
  "required payload k = (case map_of payload k of Some v \<Rightarrow> Inr v | None \<Rightarrow> Inl KeyErr)"

definition get_or :: "(string \<times> json) list \<Rightarrow> string \<Rightarrow> json \<Rightarrow> json" where
  "get_or payload k dflt = (case map_of payload k of Some v \<Rightarrow> v | None \<Rightarrow> dflt)"

definition rbind :: "'a result \<Rightarrow> ('a \<Rightarrow> 'b result) \<Rightarrow> 'b result" where
  "rbind r f = (case r of Inl e \<Rightarrow> Inl e | Inr x \<Rightarrow> f x)"

text \<open>\<open>fresh\<close> is the identifier \<open>uuid.uuid4()\<close> draws for a payload without an event id.\<close>

definition from_dict :: "string \<Rightarrow> (string \<times> json) list \<Rightarrow> wire_event result" where
  "from_dict fresh payload =
     rbind (required payload ''document_id'') (\<lambda>document_id.
     rbind (required payload ''tenant_id'') (\<lambda>tenant_id.
     rbind (rbind (required payload ''version'') py_int_json) (\<lambda>version.
       Inr \<lparr>we_document_id = document_id, we_tenant_id = tenant_id, we_version = version,
            we_type = get_or payload ''type'' (JStr EVENT_INDEX),
            we_event_id = get_or payload ''event_id'' (JStr fresh),
            we_occurred_at = get_or payload ''occurred_at'' (JStr [])\<rparr>)))"

fun text_field :: "json \<Rightarrow> string result" where
  "text_field (JStr s) = Inr s"
| "text_field j = Inl TypeErr"

definition text_event :: "wire_event \<Rightarrow> doc_event result" where
  "text_event w =
     rbind (text_field (we_document_id w)) (\<lambda>document_id.
     rbind (text_field (we_tenant_id w)) (\<lambda>tenant_id.
     rbind (text_field (we_type w)) (\<lambda>type.
     rbind (text_field (we_event_id w)) (\<lambda>event_id.
     rbind (text_field (we_occurred_at w)) (\<lambda>occurred_at.
       Inr \<lparr>ev_document_id = document_id, ev_tenant_id = tenant_id, ev_version = we_version w,
            ev_type = type, ev_event_id = event_id, ev_occurred_at = occurred_at\<rparr>)))))"

subsection \<open>The publisher port and its adapters\<close>

record 'p publisher_ops =
  publish :: "doc_event \<Rightarrow> 'p \<Rightarrow> unit result \<times> 'p"
  pub_ping :: "'p \<Rightarrow> bool result \<times> 'p"
  pub_close :: "'p \<Rightarrow> unit result \<times> 'p"

record inmemory_publisher =
  mp_events :: "doc_event list"
  mp_available :: bool
  mp_published_count :: int

definition new_inmemory_publisher :: inmemory_publisher where
  "new_inmemory_publisher = \<lparr>mp_events = [], mp_available = True, mp_published_count = 0\<rparr>"

definition mp_publish :: "doc_event \<Rightarrow> inmemory_publisher \<Rightarrow> unit result \<times> inmemory_publisher" where
  "mp_publish event p =
     (if \<not> mp_available p then (Inl (ConnectionError ''queue unavailable''), p)
      else (Inr (), p\<lparr>mp_events := mp_events p @ [event],
                      mp_published_count := mp_published_count p + 1\<rparr>))"

definition mp_drain :: "inmemory_publisher \<Rightarrow> doc_event list \<times> inmemory_publisher" where
  "mp_drain p = (mp_events p, p\<lparr>mp_events := []\<rparr>)"

definition mp_ping :: "inmemory_publisher \<Rightarrow> bool result \<times> inmemory_publisher" where
  "mp_ping p = (Inr (mp_available p), p)"

definition mp_close :: "inmemory_publisher \<Rightarrow> unit result \<times> inmemory_publisher" where
  "mp_close p = (Inr (), p\<lparr>mp_events := []\<rparr>)"

definition inmemory_publisher_ops :: "inmemory_publisher publisher_ops" where
  "inmemory_publisher_ops = \<lparr>publish = mp_publish, pub_ping = mp_ping, pub_close = mp_close\<rparr>"

text \<open>
  The \<open>aio_pika\<close> calls of the RabbitMQ adapter: opening the connection and the channel,
  declaring the topology, publishing a message with a routing key, asking whether the
  connection is closed and closing it.
\<close>

record amqp_message =
  msg_body :: json
  msg_content_type :: string
  msg_message_id :: string
  msg_persistent :: bool
  msg_headers :: "(string \<times> json) list"

record 'b amqp_client =
  a_connect :: "string \<Rightarrow> 'b \<Rightarrow> unit result \<times> 'b"
  a_channel :: "'b \<Rightarrow> unit result \<times> 'b"
  a_declare :: "settings \<Rightarrow> 'b \<Rightarrow> unit result \<times> 'b"
  a_publish :: "amqp_message \<Rightarrow> string \<Rightarrow> 'b \<Rightarrow> unit result \<times> 'b"
  a_is_closed :: "'b \<Rightarrow> bool"
  a_close :: "'b \<Rightarrow> unit result \<times> 'b"

record 'b rabbitmq_publisher =
  rp_settings :: settings
  rp_connection :: bool
  rp_channel :: bool
  rp_exchange :: bool
  rp_broker :: 'b

definition rp_connect :: "'b amqp_client \<Rightarrow> 'b rabbitmq_publisher \<Rightarrow> unit result \<times> 'b rabbitmq_publisher" where
  "rp_connect A p =
     (case a_connect A (rabbitmq_url (rp_settings p)) (rp_broker p) of
        (Inl e, b) \<Rightarrow> (Inl e, p\<lparr>rp_broker := b\<rparr>)
      | (Inr _, b) \<Rightarrow>
          (let p1 = p\<lparr>rp_connection := True, rp_broker := b\<rparr>
           in case a_channel A b of
                (Inl e, b1) \<Rightarrow> (Inl e, p1\<lparr>rp_broker := b1\<rparr>)
              | (Inr _, b1) \<Rightarrow>
                  (let p2 = p1\<lparr>rp_channel := True, rp_broker := b1\<rparr>
                   in case a_declare A (rp_settings p) b1 of
                        (Inl e, b2) \<Rightarrow> (Inl e, p2\<lparr>rp_broker := b2\<rparr>)
                      | (Inr _, b2) \<Rightarrow> (Inr (), p2\<lparr>rp_exchange := True, rp_broker := b2\<rparr>))))"

definition event_message :: "doc_event \<Rightarrow> amqp_message" where
  "event_message event =
     \<lparr>msg_body = to_json event, msg_content_type = ''application/json'',
      msg_message_id = ev_event_id event, msg_persistent = True,
      msg_headers = [(''tenant_id'', JStr (ev_tenant_id event))]\<rparr>"

definition rp_publish ::
  "'b amqp_client \<Rightarrow> doc_event \<Rightarrow> 'b rabbitmq_publisher \<Rightarrow> unit result \<times> 'b rabbitmq_publisher" where
  "rp_publish A event p =
     (case (if \<not> rp_exchange p then rp_connect A p else (Inr (), p)) of
        (Inl e, p1) \<Rightarrow> (Inl e, p1)
      | (Inr _, p1) \<Rightarrow>
          (case a_publish A (event_message event) (ev_type event) (rp_broker p1) of
             (r, b) \<Rightarrow> (r, p1\<lparr>rp_broker := b\<rparr>)))"

definition rp_ping :: "'b amqp_client \<Rightarrow> 'b rabbitmq_publisher \<Rightarrow> bool result \<times> 'b rabbitmq_publisher" where
  "rp_ping A p = (Inr (rp_connection p \<and> \<not> a_is_closed A (rp_broker p)), p)"

definition rp_close :: "'b amqp_client \<Rightarrow> 'b rabbitmq_publisher \<Rightarrow> unit result \<times> 'b rabbitmq_publisher" where
  "rp_close A p =
     (if rp_connection p \<and> \<not> a_is_closed A (rp_broker p)
      then (case a_close A (rp_broker p) of (r, b) \<Rightarrow> (r, p\<lparr>rp_broker := b\<rparr>)) else (Inr (), p))"

definition rabbitmq_ops :: "'b amqp_client \<Rightarrow> 'b rabbitmq_publisher publisher_ops" where
  "rabbitmq_ops A = \<lparr>publish = rp_publish A, pub_ping = rp_ping A, pub_close = rp_close A\<rparr>"

subsection \<open>Topology\<close>

record topology =
  tp_exchanges :: "string list"
  tp_queues :: "(string \<times> (string \<times> json) list) list"
  tp_bindings :: "(string \<times> string \<times> string) list"

text \<open>A binding is the triple of the queue, the exchange and the routing key.\<close>

definition declare_topology :: "settings \<Rightarrow> topology" where
  "declare_topology st =
     (let ex = queue_exchange st; rex = queue_exchange st @ ''.retry''; dex = queue_exchange st @ ''.dlq''
      in \<lparr>tp_exchanges = [ex, rex, dex],
          tp_queues =
            [(queue_name st, [(''x-dead-letter-exchange'', JStr rex)]),
             (queue_retry_name st, [(''x-message-ttl'', JInt (queue_retry_delay_ms st)),
                                    (''x-dead-letter-exchange'', JStr ex)]),
             (queue_dlq_name st, [])],
          tp_bindings =
            concat (map (\<lambda>routing_key. [(queue_name st, ex, routing_key),
                                        (queue_retry_name st, rex, routing_key),
                                        (queue_dlq_name st, dex, routing_key)])
                        [EVENT_INDEX, EVENT_DELETE])\<rparr>)"

text \<open>The queues an exchange hands a message with a literal routing key to, and the exchange
  a queue sends its dead messages to.\<close>

definition routed_to :: "topology \<Rightarrow> string \<Rightarrow> string \<Rightarrow> string list" where
  "routed_to tp ex key = map fst (filter (\<lambda>(q, e, k). e = ex \<and> k = key) (tp_bindings tp))"

definition dead_letter_exchange :: "topology \<Rightarrow> string \<Rightarrow> string option" where
  "dead_letter_exchange tp q =
     (case map_of (tp_queues tp) q of
        None \<Rightarrow> None
      | Some args \<Rightarrow> (case map_of args ''x-dead-letter-exchange'' of Some (JStr e) \<Rightarrow> Some e | _ \<Rightarrow> None))"

subsection \<open>The contract of a publisher\<close>

locale event_publisher =
  fixes P :: "'p publisher_ops" and pending :: "'p \<Rightarrow> doc_event list" and up :: "'p \<Rightarrow> bool"
  assumes publish_up: "up p \<Longrightarrow> \<exists>p'. publish P e p = (Inr (), p') \<and> up p' \<and> pending p' = pending p @ [e]"
    and publish_down: "\<not> up p \<Longrightarrow> \<exists>x. publish P e p = (Inl x, p)"
begin

lemma publish_pending:
  "pending (snd (publish P e p)) = pending p @ (if up p then [e] else [])"
  using publish_up [of p e] publish_down [of p e] by (cases "up p") force+

lemma publish_keeps_up: "up (snd (publish P e p)) = up p"
  using publish_up [of p e] publish_down [of p e] by (cases "up p") force+

lemma publish_result: "is_ok (fst (publish P e p)) = up p"
  using publish_up [of p e] publish_down [of p e] by (cases "up p") force+

end

interpretation mpub: event_publisher inmemory_publisher_ops mp_events mp_available
  by unfold_locales (auto simp: inmemory_publisher_ops_def mp_publish_def)

subsection \<open>Lemmas\<close>

lemma from_dict_to_json:
  "\<exists>p w. to_json e = JObj p \<and> from_dict fresh p = Inr w \<and> text_event w = Inr e"
  by (simp add: to_json_def from_dict_def text_event_def rbind_def required_def get_or_def)

lemma events_differ [simp]: "EVENT_INDEX \<noteq> EVENT_DELETE" "EVENT_DELETE \<noteq> EVENT_INDEX"
  by (simp_all add: EVENT_INDEX_def EVENT_DELETE_def)

subsection \<open>Properties\<close>

text \<open>
  An event survives the wire: the payload published for an event is a JSON object from which the consumer rebuilds
  exactly that event.
\<close>

theorem event_round_trip: "\<exists>p w. to_json e = JObj p \<and> from_dict fresh p = Inr w \<and> text_event w = Inr e"
  by (rule from_dict_to_json)

text \<open>
  The declared topology is a retry cycle with a terminal queue: an event published to the main exchange lands
  in the work queue only; dead-lettered from there it lands in the retry queue only, whose expired messages land
  in the work queue again; the dead-letter queue is reached through its own exchange only and has no dead-letter
  exchange itself.
\<close>

theorem topology_cycle:
  assumes "distinct [queue_name st, queue_retry_name st, queue_dlq_name st]" "key \<in> {EVENT_INDEX, EVENT_DELETE}"
  shows "routed_to (declare_topology st) (queue_exchange st) key = [queue_name st] \<and>
    (\<exists>ex. dead_letter_exchange (declare_topology st) (queue_name st) = Some ex \<and>
       routed_to (declare_topology st) ex key = [queue_retry_name st]) \<and>
    (\<exists>ex. dead_letter_exchange (declare_topology st) (queue_retry_name st) = Some ex \<and>
       routed_to (declare_topology st) ex key = [queue_name st]) \<and>
    dead_letter_exchange (declare_topology st) (queue_dlq_name st) = None \<and>
    routed_to (declare_topology st) (queue_exchange st @ ''.dlq'') key = [queue_dlq_name st]"
  using assms
  by (auto simp: routed_to_def dead_letter_exchange_def declare_topology_def Let_def EVENT_INDEX_def EVENT_DELETE_def)

theorem topology_cycle_witness:
  "routed_to (declare_topology default_settings) ''documents'' EVENT_DELETE = [''documents.index'']"
  using topology_cycle [of default_settings EVENT_DELETE] by (simp add: default_settings_def)

end
