(* ===== verification/Documents.thy ===== *)
theory Documents
  imports Datetime Uuid Errors
begin

text \<open>
  \<open>models/document.py\<close>, \<open>models/tenant.py\<close>, \<open>schemas/document.py\<close> and
  \<open>repositories/document_repository.py\<close>: the rows of the source of truth, the validation of a new
  document, and the repository queries.

  A table is the list of its rows in insertion order, a query a function on the database.
  \<open>db_up\<close> says whether the database answers; when it does not, a query raises \<open>DatabaseErr\<close>.
  The result of a writing operation is the state the open session sees; the services decide
  with the outcome of \<open>COMMIT\<close> whether it becomes the state of the database.  The readings of
  \<open>utcnow()\<close> are arguments.  The \<open>onupdate\<close> of the column \<open>updated_at\<close> is written out in the
  two bulk \<open>UPDATE\<close> statements.
\<close>

datatype document_status = PENDING | INDEXED | FAILED | DELETED

fun status_value :: "document_status \<Rightarrow> string" where
  "status_value PENDING = ''pending''"
| "status_value INDEXED = ''indexed''"
| "status_value FAILED = ''failed''"
| "status_value DELETED = ''deleted''"

record document =
  doc_id :: uuid
  doc_tenant_id :: string
  doc_title :: string
  doc_content :: string
  doc_content_type :: string
  doc_tags :: "string list"
  doc_metadata :: "(string \<times> json) list"
  doc_version :: int
  doc_status :: document_status
  doc_created_at :: datetime
  doc_updated_at :: datetime
  doc_indexed_at :: "datetime option"
  doc_deleted_at :: "datetime option"

record tenant =
  tn_id :: string
  tn_name :: string
  tn_api_key_hash :: string
  tn_status :: string
  tn_rate_limit_per_minute :: int

record database =
  db_documents :: "document list"
  db_tenants :: "tenant list"
  db_up :: bool

subsection \<open>Request and response schemas\<close>

definition MAX_CONTENT_CHARS :: nat where "MAX_CONTENT_CHARS = 1000000"
definition MAX_TAGS :: nat where "MAX_TAGS = 32"
definition MAX_METADATA_KEYS :: nat where "MAX_METADATA_KEYS = 50"

record document_create =
  dc_title :: string
  dc_content :: string
  dc_content_type :: string
  dc_tags :: "string list"
  dc_metadata :: "(string \<times> json) list"

definition validate_tags :: "string list \<Rightarrow> string list option" where
  "validate_tags tags =
     (let cleaned = map py_strip (filter (\<lambda>t. t \<noteq> [] \<and> py_strip t \<noteq> []) tags)
      in if \<exists>t \<in> set cleaned. length t > 64 then None else Some cleaned)"

fun scalar :: "json \<Rightarrow> bool" where
  "scalar (JArr xs) = False"
| "scalar (JObj kvs) = False"
| "scalar j = True"

fun long_text :: "json \<Rightarrow> bool" where
  "long_text (JStr s) = (length s > 1024)"
| "long_text j = False"

definition validate_metadata :: "(string \<times> json) list \<Rightarrow> (string \<times> json) list option" where
  "validate_metadata m =
     (if length m > MAX_METADATA_KEYS then None
      else if \<exists>(k, v) \<in> set m. length k > 64 \<or> \<not> scalar v \<or> long_text v then None
      else Some m)"

definition text_within :: "nat \<Rightarrow> nat \<Rightarrow> json \<Rightarrow> string option" where
  "text_within lo hi j =
     (case j of JStr s \<Rightarrow> if lo \<le> length s \<and> length s \<le> hi then Some s else None | _ \<Rightarrow> None)"

fun text_items :: "json list \<Rightarrow> string list option" where
  "text_items [] = Some []"
| "text_items (JStr s # js) = map_option (Cons s) (text_items js)"
| "text_items (j # js) = None"

definition check_tags :: "json \<Rightarrow> string list option" where
  "check_tags j =
     (case j of
        JArr xs \<Rightarrow>
          (case text_items xs of
             None \<Rightarrow> None
           | Some ts \<Rightarrow> if length ts > MAX_TAGS then None else validate_tags ts)
      | _ \<Rightarrow> None)"

definition check_metadata :: "json \<Rightarrow> (string \<times> json) list option" where
  "check_metadata j = (case j of JObj m \<Rightarrow> validate_metadata m | _ \<Rightarrow> None)"

definition field_or :: "(json \<Rightarrow> 'a option) \<Rightarrow> 'a option \<Rightarrow> json option \<Rightarrow> 'a option" where
  "field_or chk missing v = (case v of None \<Rightarrow> missing | Some j \<Rightarrow> chk j)"

definition create_fields :: "string list" where
  "create_fields = [''title'', ''content'', ''content_type'', ''tags'', ''metadata'']"

text \<open>
  The fields of the body are checked one by one; the names of the offending ones (and of any
  field the model does not know) are reported together.
\<close>

definition validate_document_create :: "(string \<times> json) list \<Rightarrow> string list + document_create" where
  "validate_document_create body =
     (let title = field_or (text_within 1 512) None (map_of body ''title'');
          content = field_or (text_within 1 MAX_CONTENT_CHARS) None (map_of body ''content'');
          content_type = field_or (text_within 0 64) (Some ''text/plain'') (map_of body ''content_type'');
          tags = field_or check_tags (Some []) (map_of body ''tags'');
          metadata = field_or check_metadata (Some []) (map_of body ''metadata'');
          bad = (if title = None then [''title''] else []) @ (if content = None then [''content''] else []) @
                (if content_type = None then [''content_type''] else []) @
                (if tags = None then [''tags''] else []) @ (if metadata = None then [''metadata''] else []) @
                filter (\<lambda>k. k \<notin> set create_fields) (map fst body)
      in if bad \<noteq> [] then Inl bad
         else Inr \<lparr>dc_title = the title, dc_content = the content, dc_content_type = the content_type,
                   dc_tags = the tags, dc_metadata = the metadata\<rparr>)"

definition create_json :: "document_create \<Rightarrow> (string \<times> json) list" where
  "create_json d =
     [(''title'', JStr (dc_title d)), (''content'', JStr (dc_content d)),
      (''content_type'', JStr (dc_content_type d)), (''tags'', JArr (map JStr (dc_tags d))),
      (''metadata'', JObj (dc_metadata d))]"

definition valid_create :: "document_create \<Rightarrow> bool" where
  "valid_create d \<longleftrightarrow>
     1 \<le> length (dc_title d) \<and> length (dc_title d) \<le> 512 \<and>
     1 \<le> length (dc_content d) \<and> length (dc_content d) \<le> MAX_CONTENT_CHARS \<and>
     length (dc_content_type d) \<le> 64 \<and>
     length (dc_tags d) \<le> MAX_TAGS \<and>
     (\<forall>t \<in> set (dc_tags d). t \<noteq> [] \<and> length t \<le> 64 \<and> py_strip t = t) \<and>
     length (dc_metadata d) \<le> MAX_METADATA_KEYS \<and>
     (\<forall>(k, v) \<in> set (dc_metadata d). length k \<le> 64 \<and> scalar v \<and> \<not> long_text v)"

record document_response =
  rs_id :: uuid
  rs_tenant_id :: string
  rs_title :: string
  rs_content :: string
  rs_content_type :: string
  rs_tags :: "string list"
  rs_metadata :: "(string \<times> json) list"
  rs_version :: int
  rs_status :: string
  rs_created_at :: datetime
  rs_updated_at :: datetime
  rs_indexed_at :: "datetime option"

definition from_model :: "document \<Rightarrow> document_response" where
  "from_model d =
     \<lparr>rs_id = doc_id d, rs_tenant_id = doc_tenant_id d, rs_title = doc_title d, rs_content = doc_content d,
      rs_content_type = doc_content_type d, rs_tags = doc_tags d, rs_metadata = doc_metadata d,
      rs_version = doc_version d, rs_status = status_value (doc_status d),
      rs_created_at = doc_created_at d, rs_updated_at = doc_updated_at d, rs_indexed_at = doc_indexed_at d\<rparr>"

record document_accepted =
  da_id :: uuid
  da_tenant_id :: string
  da_status :: string
  da_version :: int
  da_created_at :: datetime

subsection \<open>Repository\<close>

definition repo_create :: "document \<Rightarrow> database \<Rightarrow> database result" where
  "repo_create d db =
     (if \<not> db_up db then Inl DatabaseErr
      else if doc_id d \<in> doc_id ` set (db_documents db) then Inl DatabaseErr
      else Inr (db\<lparr>db_documents := db_documents db @ [d]\<rparr>))"

definition repo_get :: "string \<Rightarrow> uuid \<Rightarrow> bool \<Rightarrow> database \<Rightarrow> document option result" where
  "repo_get tenant_id document_id include_deleted db =
     (if \<not> db_up db then Inl DatabaseErr
      else Inr (find (\<lambda>d. doc_id d = document_id \<and> doc_tenant_id d = tenant_id \<and>
                          (include_deleted \<or> doc_status d \<noteq> DELETED)) (db_documents db)))"

definition repo_get_many :: "uuid list \<Rightarrow> database \<Rightarrow> document list result" where
  "repo_get_many ids db =
     (if ids = [] then Inr []
      else if \<not> db_up db then Inl DatabaseErr
      else Inr (filter (\<lambda>d. doc_id d \<in> set ids) (db_documents db)))"

definition update_rows :: "(document \<Rightarrow> bool) \<Rightarrow> (document \<Rightarrow> document) \<Rightarrow> database \<Rightarrow> database" where
  "update_rows P f db = db\<lparr>db_documents := map (\<lambda>d. if P d then f d else d) (db_documents db)\<rparr>"

definition deleted_row :: "datetime \<Rightarrow> document \<Rightarrow> document" where
  "deleted_row now d =
     d\<lparr>doc_status := DELETED, doc_deleted_at := Some now, doc_updated_at := now,
       doc_version := doc_version d + 1\<rparr>"

definition repo_soft_delete :: "datetime \<Rightarrow> document \<Rightarrow> database \<Rightarrow> (document \<times> database) result" where
  "repo_soft_delete now d db =
     (if \<not> db_up db then Inl DatabaseErr
      else Inr (deleted_row now d, update_rows (\<lambda>r. doc_id r = doc_id d) (\<lambda>_. deleted_row now d) db))"

definition repo_mark_indexed :: "datetime \<Rightarrow> uuid list \<Rightarrow> database \<Rightarrow> database result" where
  "repo_mark_indexed now ids db =
     (if ids = [] then Inr db
      else if \<not> db_up db then Inl DatabaseErr
      else Inr (update_rows (\<lambda>d. doc_id d \<in> set ids \<and> doc_status d = PENDING)
                  (\<lambda>d. d\<lparr>doc_status := INDEXED, doc_indexed_at := Some now, doc_updated_at := now\<rparr>) db))"

definition repo_mark_failed :: "datetime \<Rightarrow> uuid list \<Rightarrow> database \<Rightarrow> database result" where
  "repo_mark_failed now ids db =
     (if ids = [] then Inr db
      else if \<not> db_up db then Inl DatabaseErr
      else Inr (update_rows (\<lambda>d. doc_id d \<in> set ids \<and> doc_status d = PENDING)
                  (\<lambda>d. d\<lparr>doc_status := FAILED, doc_updated_at := now\<rparr>) db))"

definition repo_find_stale :: "datetime \<Rightarrow> int \<Rightarrow> int \<Rightarrow> database \<Rightarrow> document list result" where
  "repo_find_stale now older_than_seconds limit db =
     (if \<not> db_up db then Inl DatabaseErr
      else Inr (take (nat limit) (sort_key (\<lambda>d. instant (doc_updated_at d))
        (filter (\<lambda>d. doc_status d \<in> {PENDING, FAILED} \<and>
                     before_cutoff now older_than_seconds (doc_updated_at d)) (db_documents db)))))"

definition get_by_api_key_hash :: "string \<Rightarrow> database \<Rightarrow> tenant option result" where
  "get_by_api_key_hash h db =
     (if \<not> db_up db then Inl DatabaseErr
      else Inr (find (\<lambda>t. tn_api_key_hash t = h \<and> tn_status t = ''active'') (db_tenants db)))"

subsection \<open>Well-formed rows\<close>

definition row_ok :: "document \<Rightarrow> bool" where
  "row_ok d \<longleftrightarrow>
     1 \<le> doc_version d \<and> (doc_status d = DELETED \<longleftrightarrow> doc_deleted_at d \<noteq> None) \<and>
     (doc_status d \<noteq> DELETED \<longrightarrow> doc_version d = 1) \<and> (doc_status d = DELETED \<longrightarrow> doc_version d = 2) \<and>
     (doc_status d = INDEXED \<longrightarrow> doc_indexed_at d \<noteq> None)"

definition db_inv :: "database \<Rightarrow> bool" where
  "db_inv db \<longleftrightarrow> distinct (map doc_id (db_documents db)) \<and> (\<forall>d \<in> set (db_documents db). row_ok d)"

text \<open>The row of an identifier.\<close>

definition row_of :: "database \<Rightarrow> uuid \<Rightarrow> document option" where
  "row_of db u = find (\<lambda>d. doc_id d = u) (db_documents db)"

subsection \<open>Lemmas on validation\<close>

lemma dropWhile_idem_hd: "dropWhile P xs = [] \<or> \<not> P (hd (dropWhile P xs))"
  using hd_dropWhile by blast

lemma py_strip_idem [text_simps]: "py_strip (py_strip s) = py_strip s"
proof -
  let ?a = "dropWhile py_isspace s"
  let ?b = "dropWhile py_isspace (rev ?a)"
  have nb: "dropWhile py_isspace ?b = ?b" by simp
  have "dropWhile py_isspace (rev ?b) = rev ?b"
  proof (cases "rev ?b")
    case (Cons c cs)
    obtain as where as: "rev ?a = as @ ?b" by (metis takeWhile_dropWhile_id)
    then have "?a = rev ?b @ rev as" by (metis rev_append rev_rev_ident)
    with Cons have "hd ?a = c" "?a \<noteq> []" by auto
    then have "\<not> py_isspace c" using hd_dropWhile [of py_isspace s] by auto
    with Cons show ?thesis by simp
  next
    case Nil
    then show ?thesis by (simp only: dropWhile.simps)
  qed
  with nb show ?thesis by (simp add: py_strip_def)
qed

lemma validate_tags_ok:
  "validate_tags ts = Some us \<Longrightarrow>
   length us \<le> length ts \<and> (\<forall>t \<in> set us. t \<noteq> [] \<and> length t \<le> 64 \<and> py_strip t = t)"
  by (auto simp: validate_tags_def Let_def text_simps linorder_not_less split: if_splits)

lemma validate_tags_id:
  "(\<forall>t \<in> set ts. t \<noteq> [] \<and> length t \<le> 64 \<and> py_strip t = t) \<Longrightarrow> validate_tags ts = Some ts"
proof -
  assume ts: "\<forall>t \<in> set ts. t \<noteq> [] \<and> length t \<le> 64 \<and> py_strip t = t"
  then have "filter (\<lambda>t. t \<noteq> [] \<and> py_strip t \<noteq> []) ts = ts" by (intro filter_True) auto
  moreover have "map py_strip ts = ts" using ts by (intro map_idI) auto
  ultimately show ?thesis using ts by (auto simp: validate_tags_def Let_def linorder_not_less)
qed

lemma text_items_length: "text_items js = Some ts \<Longrightarrow> length ts = length js"
  by (induction js arbitrary: ts rule: text_items.induct) auto

lemma text_items_map [simp]: "text_items (map JStr ts) = Some ts"
  by (induction ts) auto

lemma validate_create_valid:
  assumes "validate_document_create body = Inr d"
  shows "valid_create d"
proof -
  obtain t c ct tg m where f:
    "field_or (text_within 1 512) None (map_of body ''title'') = Some t"
    "field_or (text_within 1 MAX_CONTENT_CHARS) None (map_of body ''content'') = Some c"
    "field_or (text_within 0 64) (Some ''text/plain'') (map_of body ''content_type'') = Some ct"
    "field_or check_tags (Some []) (map_of body ''tags'') = Some tg"
    "field_or check_metadata (Some []) (map_of body ''metadata'') = Some m"
    and d: "d = \<lparr>dc_title = t, dc_content = c, dc_content_type = ct, dc_tags = tg, dc_metadata = m\<rparr>"
    using assms by (auto simp: validate_document_create_def Let_def split: if_splits)
  have "1 \<le> length t \<and> length t \<le> 512" "1 \<le> length c \<and> length c \<le> MAX_CONTENT_CHARS" "length ct \<le> 64"
    using f(1,2,3) by (auto simp: field_or_def text_within_def split: option.splits json.splits if_splits)
  moreover have "length tg \<le> MAX_TAGS \<and> (\<forall>t \<in> set tg. t \<noteq> [] \<and> length t \<le> 64 \<and> py_strip t = t)"
    using f(4) validate_tags_ok
    by (fastforce simp: field_or_def check_tags_def MAX_TAGS_def split: option.splits json.splits if_splits)
  moreover have "length m \<le> MAX_METADATA_KEYS \<and> (\<forall>(k, v) \<in> set m. length k \<le> 64 \<and> scalar v \<and> \<not> long_text v)"
    using f(5) by (fastforce simp: field_or_def check_metadata_def validate_metadata_def
        split: option.splits json.splits if_splits)
  ultimately show ?thesis unfolding valid_create_def d by simp
qed

lemma validate_create_json:
  assumes "valid_create d"
  shows "validate_document_create (create_json d) = Inr d"
proof -
  have "check_tags (JArr (map JStr (dc_tags d))) = Some (dc_tags d)"
    using assms by (simp add: check_tags_def valid_create_def validate_tags_id)
  moreover have "check_metadata (JObj (dc_metadata d)) = Some (dc_metadata d)"
    using assms by (fastforce simp: check_metadata_def validate_metadata_def valid_create_def)
  moreover have "map fst (create_json d) = create_fields"
    by (simp add: create_json_def create_fields_def)
  ultimately show ?thesis
    using assms
    by (simp add: validate_document_create_def create_json_def field_or_def text_within_def valid_create_def
        Let_def create_fields_def)
qed

subsection \<open>Lemmas on the repository\<close>

lemma row_of_Some: "row_of db u = Some d \<Longrightarrow> d \<in> set (db_documents db) \<and> doc_id d = u"
  unfolding row_of_def by (drule find_Some_in) simp

lemma row_of_unique:
  assumes "distinct (map doc_id (db_documents db))" "d \<in> set (db_documents db)"
  shows "row_of db (doc_id d) = Some d"
proof -
  obtain r where r: "row_of db (doc_id d) = Some r"
    using assms(2) by (cases "row_of db (doc_id d)") (auto simp: row_of_def find_None_iff)
  from row_of_Some [OF this] assms have "r = d" by (metis distinct_map inj_onD)
  with r show ?thesis by simp
qed

lemma row_of_None: "row_of db u = None \<longleftrightarrow> u \<notin> doc_id ` set (db_documents db)"
  by (auto simp: row_of_def find_None_iff)

lemma find_map_keep:
  "(\<And>d. doc_id (f d) = doc_id d) \<Longrightarrow>
   find (\<lambda>d. doc_id d = u) (map (\<lambda>d. if P d then f d else d) xs) =
   map_option (\<lambda>d. if P d then f d else d) (find (\<lambda>d. doc_id d = u) xs)"
  by (induction xs) auto

lemma row_of_update_rows:
  "(\<And>d. doc_id (f d) = doc_id d) \<Longrightarrow>
   row_of (update_rows P f db) u = map_option (\<lambda>d. if P d then f d else d) (row_of db u)"
  by (simp add: row_of_def update_rows_def find_map_keep)

lemma update_rows_ids: "(\<And>d. doc_id (f d) = doc_id d) \<Longrightarrow>
  map doc_id (db_documents (update_rows P f db)) = map doc_id (db_documents db)"
  by (simp add: update_rows_def comp_def if_distrib cong: if_cong)

lemma repo_get_row:
  assumes "db_inv db"
  shows "repo_get t u inc db =
    (if \<not> db_up db then Inl DatabaseErr
     else Inr (case row_of db u of
        None \<Rightarrow> None
      | Some d \<Rightarrow> if doc_tenant_id d = t \<and> (inc \<or> doc_status d \<noteq> DELETED) then Some d else None))"
proof -
  let ?P = "\<lambda>d. doc_id d = u \<and> doc_tenant_id d = t \<and> (inc \<or> doc_status d \<noteq> DELETED)"
  have "find ?P (db_documents db) = (case row_of db u of None \<Rightarrow> None | Some d \<Rightarrow> if ?P d then Some d else None)"
  proof (cases "find ?P (db_documents db)")
    case None
    then have "\<not> ?P d" if "row_of db u = Some d" for d
      using row_of_Some [OF that] by (auto simp: find_None_iff)
    with None show ?thesis by (cases "row_of db u") auto
  next
    case (Some d)
    from find_Some_in [OF Some] have "d \<in> set (db_documents db)" "?P d" by simp_all
    moreover have "row_of db u = Some d"
      using row_of_unique [of db d] assms calculation by (auto simp: db_inv_def)
    ultimately show ?thesis using Some by simp
  qed
  also have "\<dots> = (case row_of db u of None \<Rightarrow> None
      | Some d \<Rightarrow> if doc_tenant_id d = t \<and> (inc \<or> doc_status d \<noteq> DELETED) then Some d else None)"
    by (cases "row_of db u") (auto dest: row_of_Some)
  finally show ?thesis by (simp add: repo_get_def)
qed

lemma repo_create_inv:
  "db_inv db \<Longrightarrow> row_ok d \<Longrightarrow> repo_create d db = Inr db' \<Longrightarrow> db_inv db'"
  by (auto simp: repo_create_def db_inv_def split: if_splits)

lemma repo_create_up: "repo_create d db = Inr db' \<Longrightarrow> db_up db' \<and> db_tenants db' = db_tenants db"
  by (auto simp: repo_create_def split: if_splits)

lemma repo_create_row:
  "repo_create d db = Inr db' \<Longrightarrow> row_of db' u = (if u = doc_id d then Some d else row_of db u)"
proof -
  assume c: "repo_create d db = Inr db'"
  then have new: "doc_id d \<notin> doc_id ` set (db_documents db)" and db': "db' = db\<lparr>db_documents := db_documents db @ [d]\<rparr>"
    by (auto simp: repo_create_def split: if_splits)
  have app: "find Q (xs @ [d]) = (case find Q xs of None \<Rightarrow> if Q d then Some d else None | Some x \<Rightarrow> Some x)" for Q xs
    by (induction xs) auto
  show ?thesis
  proof (cases "u = doc_id d")
    case True
    with new have "row_of db u = None" by (simp add: row_of_None)
    with True show ?thesis by (simp add: db' row_of_def app)
  next
    case False
    then show ?thesis by (simp add: db' row_of_def app split: option.splits)
  qed
qed

lemma deleted_row_simps [simp]:
  "doc_id (deleted_row n d) = doc_id d" "doc_tenant_id (deleted_row n d) = doc_tenant_id d"
  "doc_status (deleted_row n d) = DELETED" "doc_version (deleted_row n d) = doc_version d + 1"
  by (simp_all add: deleted_row_def)

lemma repo_mark_indexed_row:
  assumes "repo_mark_indexed now ids db = Inr db'"
  shows "row_of db' u = map_option (\<lambda>d. if doc_id d \<in> set ids \<and> doc_status d = PENDING
      then d\<lparr>doc_status := INDEXED, doc_indexed_at := Some now, doc_updated_at := now\<rparr> else d) (row_of db u)"
proof (cases "ids = []")
  case True
  with assms show ?thesis by (cases "row_of db u") (auto simp: repo_mark_indexed_def)
next
  case False
  with assms show ?thesis
    by (auto simp: repo_mark_indexed_def row_of_update_rows split: if_splits)
qed

lemma update_rows_inv:
  "db_inv db \<Longrightarrow> (\<And>d. doc_id (f d) = doc_id d) \<Longrightarrow> (\<And>d. P d \<Longrightarrow> row_ok d \<Longrightarrow> row_ok (f d)) \<Longrightarrow>
   db_inv (update_rows P f db)"
  unfolding db_inv_def by (simp add: update_rows_ids) (auto simp: update_rows_def)

lemma repo_mark_indexed_inv:
  "db_inv db \<Longrightarrow> repo_mark_indexed now ids db = Inr db' \<Longrightarrow> db_inv db'"
  by (auto simp: repo_mark_indexed_def row_ok_def split: if_splits intro!: update_rows_inv)

lemma repo_mark_failed_inv:
  "db_inv db \<Longrightarrow> repo_mark_failed now ids db = Inr db' \<Longrightarrow> db_inv db'"
  by (auto simp: repo_mark_failed_def row_ok_def split: if_splits intro!: update_rows_inv)

lemma soft_delete_rows:
  assumes "distinct (map doc_id (db_documents db))" "d \<in> set (db_documents db)"
  shows "update_rows (\<lambda>r. doc_id r = doc_id d) (\<lambda>_. deleted_row now d) db =
    update_rows (\<lambda>r. doc_id r = doc_id d) (deleted_row now) db"
proof -
  have "r = d" if "r \<in> set (db_documents db)" "doc_id r = doc_id d" for r
    using assms that by (auto simp: distinct_map dest: inj_onD)
  then have "map (\<lambda>r. if doc_id r = doc_id d then deleted_row now d else r) (db_documents db)
      = map (\<lambda>r. if doc_id r = doc_id d then deleted_row now r else r) (db_documents db)"
    by (intro map_cong refl) auto
  then show ?thesis by (simp add: update_rows_def)
qed

lemma row_ok_deleted: "row_ok d \<Longrightarrow> doc_status d \<noteq> DELETED \<Longrightarrow> row_ok (deleted_row now d)"
  by (auto simp: row_ok_def deleted_row_def)

lemma repo_soft_delete_inv:
  assumes "db_inv db" "d \<in> set (db_documents db)" "doc_status d \<noteq> DELETED"
    "repo_soft_delete now d db = Inr (d', db')"
  shows "db_inv db' \<and> d' = deleted_row now d \<and>
    (\<forall>u. row_of db' u = (if u = doc_id d then Some (deleted_row now d) else row_of db u)) \<and>
    db_up db' = db_up db \<and> db_tenants db' = db_tenants db"
proof -
  have dist: "distinct (map doc_id (db_documents db))" using assms(1) by (simp add: db_inv_def)
  have db': "db' = update_rows (\<lambda>r. doc_id r = doc_id d) (deleted_row now) db" and d': "d' = deleted_row now d"
    using assms(4) soft_delete_rows [OF dist assms(2)] by (auto simp: repo_soft_delete_def split: if_splits)
  have one: "r = d" if "doc_id r = doc_id d" "r \<in> set (db_documents db)" for r
    using dist assms(2) that by (auto simp: distinct_map dest: inj_onD)
  have "db_inv db'"
    unfolding db_inv_def
    using assms(1) one row_ok_deleted assms(3)
    by (auto simp: db' update_rows_ids db_inv_def) (auto simp: update_rows_def)
  moreover have "row_of db' u = (if u = doc_id d then Some (deleted_row now d) else row_of db u)" for u
  proof (cases "u = doc_id d")
    case True
    then show ?thesis using row_of_unique [OF dist assms(2)] by (simp add: db' row_of_update_rows)
  next
    case False
    then show ?thesis
      by (cases "row_of db u") (auto simp: db' row_of_update_rows dest!: row_of_Some)
  qed
  moreover have "db_up db' = db_up db" "db_tenants db' = db_tenants db"
    by (simp_all add: db' update_rows_def)
  ultimately show ?thesis using d' by blast
qed

lemma repo_find_stale_set:
  assumes "repo_find_stale now older limit db = Inr ds" "d \<in> set ds"
  shows "d \<in> set (db_documents db) \<and> doc_status d \<in> {PENDING, FAILED}"
  using assms by (auto simp: repo_find_stale_def split: if_splits dest!: in_set_takeD)

subsection \<open>Properties\<close>

text \<open>
  C36: Validation is sound and idempotent: an accepted body yields a document within all limits, with stripped
  non-empty tags and scalar metadata, and validating its own JSON again yields the same document.
\<close>

theorem validation_sound:
  "validate_document_create body = Inr d \<Longrightarrow> valid_create d \<and> validate_document_create (create_json d) = Inr d"
  using validate_create_valid validate_create_json by blast

theorem validation_sound_witness:
  "valid_create \<lparr>dc_title = ''T'', dc_content = ''c'', dc_content_type = ''text/plain'', dc_tags = [''a''], dc_metadata = []\<rparr>"
proof -
  have "validate_document_create [(''title'', JStr ''T''), (''content'', JStr ''c''), (''tags'', JArr [JStr '' a ''])] =
      Inr \<lparr>dc_title = ''T'', dc_content = ''c'', dc_content_type = ''text/plain'', dc_tags = [''a''], dc_metadata = []\<rparr>"
    by (simp add: validate_document_create_def field_or_def text_within_def check_tags_def validate_tags_def py_strip_def
        py_isspace_def create_fields_def MAX_CONTENT_CHARS_def MAX_TAGS_def Let_def)
  from validation_sound [OF this] show ?thesis by blast
qed

end
