(* ===== verification/Search_Service.thy ===== *)
theory Search_Service
  imports Cache InMemory_Engine Queue Config Documents
begin

text \<open>
  \<open>schemas/search.py\<close> and \<open>services/search_service.py\<close>: cache lookup, engine query, cache fill.

  The service works over any cache backend and any engine (the records of operations).  \<open>codec\<close>
  stands for Pydantic's \<open>model_dump(mode="json")\<close> and \<open>model_validate\<close> of the two response
  models; \<open>codec_ok\<close> is what the code relies on: validating a dump (with the fields \<open>cached\<close> and
  \<open>took_ms\<close> overwritten) gives the response back.  \<open>search_service_search\<close> is one request that finds no
  other request for its key in flight; the interleaving of such requests is the theory
  \<open>Single_Flight\<close>.  Arguments \<open>t1\<close>, \<open>t2\<close>, \<open>t3\<close> are the clock readings of the three cache calls,
  \<open>took\<close> the latency reported for a cached answer, \<open>rnd\<close> the random number behind the jitter.
\<close>

record search_hit =
  sh_id :: string
  sh_title :: string
  sh_score :: real
  sh_snippet :: "string option"
  sh_content_type :: "string option"
  sh_tags :: "string list"
  sh_metadata :: "(string \<times> json) list"
  sh_created_at :: "datetime option"
  sh_updated_at :: "datetime option"

record search_response =
  sr_query :: string
  sr_tenant_id :: string
  sr_page :: int
  sr_size :: int
  sr_total :: int
  sr_total_is_lower_bound :: bool
  sr_took_ms :: int
  sr_cached :: bool
  sr_hits :: "search_hit list"
  sr_facets :: "(string \<times> (string \<times> int) list) list"

record codec =
  dump_search :: "search_response \<Rightarrow> (string \<times> json) list"
  validate_search :: "json \<Rightarrow> search_response result"
  dump_doc :: "document_response \<Rightarrow> json"
  validate_doc :: "json \<Rightarrow> document_response result"

definition codec_ok :: "codec \<Rightarrow> bool" where
  "codec_ok C \<longleftrightarrow>
     (\<forall>r t b. validate_search C (JObj (AList.update ''took_ms'' (JInt t) (AList.update ''cached'' (JBool b)
                (dump_search C r)))) = Inr (r\<lparr>sr_took_ms := t, sr_cached := b\<rparr>)) \<and>
     (\<forall>r. validate_doc C (dump_doc C r) = Inr r) \<and> (\<forall>r. dump_doc C r \<noteq> JNull)"

definition current_generation :: "'c cache_ops \<Rightarrow> real \<Rightarrow> string \<Rightarrow> 'c \<Rightarrow> int \<times> 'c" where
  "current_generation B now tenant_id c =
     (case get_json B now (search_generation_key tenant_id) c of
        (None, c1) \<Rightarrow> (0, c1)
      | (Some v, c1) \<Rightarrow> ((case py_int_json v of Inr n \<Rightarrow> n | Inl e \<Rightarrow> 0), c1))"

definition invalidate_tenant :: "'c cache_ops \<Rightarrow> real \<Rightarrow> string \<Rightarrow> 'c \<Rightarrow> 'c" where
  "invalidate_tenant B now tenant_id c = snd (cc_incr B now (search_generation_key tenant_id) c)"

definition search_ttl :: "settings \<Rightarrow> real \<Rightarrow> int" where
  "search_ttl st rnd =
     (let base = real_of_int (search_cache_ttl_seconds st); jitter = base * cache_ttl_jitter_ratio st
      in max 1 (py_int (base + (- jitter + (jitter - - jitter) * rnd))))"

definition cacheable :: "codec \<Rightarrow> search_response \<Rightarrow> (string \<times> json) list" where
  "cacheable C response = AList.update ''cached'' (JBool False) (dump_search C response)"

definition hit_of :: "engine_hit \<Rightarrow> search_hit" where
  "hit_of h =
     \<lparr>sh_id = eh_document_id h, sh_title = eh_title h, sh_score = eh_score h, sh_snippet = eh_snippet h,
      sh_content_type = eh_content_type h, sh_tags = eh_tags h, sh_metadata = eh_metadata h,
      sh_created_at = eh_created_at h, sh_updated_at = eh_updated_at h\<rparr>"

definition execute :: "'e engine_ops \<Rightarrow> string \<Rightarrow> search_query \<Rightarrow> 'e \<Rightarrow> search_response result \<times> 'e" where
  "execute E tenant_id query e =
     (case e_search E query e of
        (Inl x, e1) \<Rightarrow>
          (if is_dependency_error x then (Inl x, e1)
           else (Inl (AppErr (DependencyUnavailableError ''search'')), e1))
      | (Inr r, e1) \<Rightarrow>
          (Inr \<lparr>sr_query = sq_text query, sr_tenant_id = tenant_id, sr_page = sq_page query,
                sr_size = sq_size query, sr_total = er_total r,
                sr_total_is_lower_bound = er_total_is_lower_bound r, sr_took_ms = er_took_ms r,
                sr_cached = False, sr_hits = map hit_of (er_hits r), sr_facets = er_facets r\<rparr>, e1))"

definition query_key :: "(string \<Rightarrow> string) \<Rightarrow> string \<Rightarrow> int \<Rightarrow> search_query \<Rightarrow> string" where
  "query_key hexdigest tenant_id generation q =
     search_key hexdigest tenant_id generation (sq_text q) (sq_page q) (sq_size q)
       (sq_fuzzy q) (sq_highlight q) (sq_facets q)"

definition single_flight ::
  "'c cache_ops \<Rightarrow> 'e engine_ops \<Rightarrow> codec \<Rightarrow> settings \<Rightarrow> real \<Rightarrow> real \<Rightarrow> string \<Rightarrow> string \<Rightarrow> search_query
   \<Rightarrow> 'c \<times> 'e \<Rightarrow> search_response result \<times> 'c \<times> 'e" where
  "single_flight B E C st t3 rnd key tenant_id query ce =
     (case ce of (c, e) \<Rightarrow>
        (case execute E tenant_id query e of
           (Inl x, e1) \<Rightarrow> (Inl x, c, e1)
         | (Inr response, e1) \<Rightarrow>
             (Inr response, set_json B t3 key (JObj (cacheable C response)) (search_ttl st rnd) c, e1)))"

definition cached_response :: "codec \<Rightarrow> int \<Rightarrow> json \<Rightarrow> search_response result" where
  "cached_response C took cached =
     (case cached of
        JObj payload \<Rightarrow>
          validate_search C (JObj (AList.update ''took_ms'' (JInt took)
            (AList.update ''cached'' (JBool True) payload)))
      | _ \<Rightarrow> Inl TypeErr)"

definition search_service_search ::
  "'c cache_ops \<Rightarrow> 'e engine_ops \<Rightarrow> codec \<Rightarrow> (string \<Rightarrow> string) \<Rightarrow> settings \<Rightarrow> real \<Rightarrow> real \<Rightarrow> real \<Rightarrow> int \<Rightarrow> real
   \<Rightarrow> string \<Rightarrow> search_query \<Rightarrow> 'c \<times> 'e \<Rightarrow> search_response result \<times> 'c \<times> 'e" where
  "search_service_search B E C hexdigest st t1 t2 t3 took rnd tenant_id query ce =
     (case ce of (c, e) \<Rightarrow>
        (case current_generation B t1 tenant_id c of
           (generation, c1) \<Rightarrow>
             (let key = query_key hexdigest tenant_id generation query
              in case get_json B t2 key c1 of
                   (Some cached, c2) \<Rightarrow> (cached_response C took cached, c2, e)
                 | (None, c2) \<Rightarrow> single_flight B E C st t3 rnd key tenant_id query (c2, e))))"

text \<open>
  From time \<open>T\<close> on, every visible search entry is the cacheable form of a response to the tenant
  of its key, and its hits are documents that tenant owns.
\<close>

definition response_of :: "(string \<Rightarrow> string set) \<Rightarrow> string \<Rightarrow> search_response \<Rightarrow> bool" where
  "response_of owned t r \<longleftrightarrow> sr_tenant_id r = t \<and> (\<forall>h \<in> set (sr_hits r). sh_id h \<in> owned t)"

definition search_cache_ok ::
  "(real \<Rightarrow> 'c \<Rightarrow> string \<Rightarrow> cache_text option) \<Rightarrow> codec \<Rightarrow> (string \<Rightarrow> string) \<Rightarrow> (string \<Rightarrow> string set)
   \<Rightarrow> real \<Rightarrow> 'c \<Rightarrow> bool" where
  "search_cache_ok look C hexdigest owned T c \<longleftrightarrow>
     (\<forall>now t g q v. T \<le> now \<longrightarrow> look now c (query_key hexdigest t g q) = Some v \<longrightarrow>
        (\<exists>r. v = JsonText (JObj (cacheable C r)) \<and> response_of owned t r))"

subsection \<open>Lemmas\<close>

lemma update_twice: "AList.update k v (AList.update k w d) = AList.update k v d"
  by (induction d) auto

lemma cached_response_cacheable:
  "codec_ok C \<Longrightarrow> cached_response C took (JObj (cacheable C r)) = Inr (r\<lparr>sr_took_ms := took, sr_cached := True\<rparr>)"
  by (simp add: cached_response_def cacheable_def update_twice codec_ok_def)

lemma search_ttl_bounds:
  assumes "0 \<le> search_cache_ttl_seconds st" "0 \<le> cache_ttl_jitter_ratio st" "0 \<le> rnd" "rnd \<le> 1"
  shows "1 \<le> search_ttl st rnd \<and>
    of_int (search_ttl st rnd) \<le> max 1 (of_int (search_cache_ttl_seconds st) * (1 + cache_ttl_jitter_ratio st))"
proof -
  let ?b = "real_of_int (search_cache_ttl_seconds st)" and ?r = "cache_ttl_jitter_ratio st"
  let ?x = "?b + (- (?b * ?r) + (?b * ?r - - (?b * ?r)) * rnd)"
  have "?b * ?r * rnd \<le> ?b * ?r * 1" using assms by (intro mult_left_mono) auto
  then have x: "?x \<le> ?b * (1 + ?r)" by (simp add: algebra_simps)
  have "of_int (py_int ?x) \<le> max 0 ?x"
    by (auto simp: py_int_def ceiling_le_zero max_def)
  moreover have "0 \<le> ?b * (1 + ?r)" using assms by simp
  ultimately have le: "of_int (py_int ?x) \<le> ?b * (1 + ?r)" using x by linarith
  have eq: "search_ttl st rnd = max 1 (py_int ?x)" by (simp only: search_ttl_def Let_def)
  show ?thesis unfolding eq of_int_max using le by linarith
qed

lemma execute_tenant: "execute E t q e = (Inr r, e') \<Longrightarrow> sr_tenant_id r = t \<and> \<not> sr_cached r"
  by (auto simp: execute_def split: prod.splits sum.splits if_splits)

text \<open>The search service as a client of the two contracts.\<close>

locale search_service = cb: cache_backend B cup look + se: search_engine E eup visible
  for B :: "'c cache_ops" and cup look and E :: "'e engine_ops" and eup visible
begin

lemma execute_error: "\<not> eup e \<Longrightarrow> execute E t q e = (Inl (AppErr (DependencyUnavailableError ''search'')), e)"
  using se.search_down [of e q] by (auto simp: execute_def)

lemma execute_ok:
  assumes "eup e"
  obtains r where "execute E t q e = (Inr r, e)" "sr_tenant_id r = t" "\<not> sr_cached r"
    "\<forall>h \<in> set (sr_hits r). sh_id h \<in> visible e (sq_tenant_id q)"
proof -
  obtain x where x: "e_search E q e = (Inr x, e)" using se.search_up [OF assms] by blast
  then have "\<forall>h \<in> set (er_hits x). eh_document_id h \<in> visible e (sq_tenant_id q)"
    using se.search_scoped by blast
  then show thesis using x by (intro that) (auto simp: execute_def hit_of_def)
qed

lemma cache_down_search:
  assumes "\<not> cup c"
  shows "search_service_search B E C hexdigest st t1 t2 t3 took rnd t q (c, e) =
    (case execute E t q e of (r, e1) \<Rightarrow> (r, c, e1))"
proof -
  have g: "current_generation B t1 t c = (0, c)"
    by (simp add: current_generation_def cb.get_json_down [OF assms])
  show ?thesis
    by (simp add: search_service_search_def g cb.get_json_down [OF assms] Let_def single_flight_def
        cb.set_json_down [OF assms] split: prod.splits sum.splits)
qed

lemma miss_search:
  assumes "cup c" "t1 \<le> t2" "current_generation B t1 t c = (g, c1)"
    "look t2 c (query_key hexdigest t g q) = None" and hex: "hex_text hexdigest"
  shows "fst (search_service_search B E C hexdigest st t1 t2 t3 took rnd t q (c, e)) = fst (execute E t q e)"
proof -
  have c1: "c1 = snd (get_json B t1 (search_generation_key t) c)"
    using assms(3) by (auto simp: current_generation_def split: prod.splits option.splits)
  then have up1: "cup c1" using cb.get_json_up assms(1) by simp
  have "query_key hexdigest t g q \<noteq> search_generation_key t"
    using search_key_not_generation [OF hex] by (simp add: query_key_def)
  then have "look t2 c1 (query_key hexdigest t g q) = None"
    using cb.get_json_look [OF assms(1,2)] assms(4) c1 by simp
  then have "fst (get_json B t2 (query_key hexdigest t g q) c1) = None"
    by (simp add: cb.get_json_value [OF up1])
  then show ?thesis
    by (auto simp: search_service_search_def assms(3) Let_def single_flight_def split: prod.splits sum.splits)
qed

lemma ok_later: "search_cache_ok look C hexdigest owned T c \<Longrightarrow> T \<le> T' \<Longrightarrow> search_cache_ok look C hexdigest owned T' c"
  unfolding search_cache_ok_def by (meson order.trans)

lemma ok_frame:
  assumes "search_cache_ok look C hexdigest owned T c" "T \<le> T'"
    "\<And>now t g q. T' \<le> now \<Longrightarrow> look now c' (query_key hexdigest t g q) = look now c (query_key hexdigest t g q)"
  shows "search_cache_ok look C hexdigest owned T' c'"
  using assms unfolding search_cache_ok_def by (metis order.trans)

lemma ok_get:
  assumes "search_cache_ok look C hexdigest owned T c" "T \<le> now" "cup c"
  shows "search_cache_ok look C hexdigest owned now (snd (get_json B now k c))"
  unfolding search_cache_ok_def
proof (intro allI impI)
  fix n t g q v
  let ?k = "query_key hexdigest t g q" and ?c = "snd (get_json B now k c)"
  assume n: "now \<le> n" and v: "look n ?c ?k = Some v"
  have "look n c ?k = Some v"
  proof (cases "\<exists>w. look n c ?k = Some (JsonText w) \<or> ?k \<noteq> k")
    case True
    then show ?thesis using cb.get_json_look [OF assms(3) n] v by metis
  next
    case False
    then have k: "?k = k" by blast
    have T: "T \<le> n" using assms(2) n by simp
    have "look n c ?k = None"
      using False assms(1) T unfolding search_cache_ok_def by (metis not_None_eq)
    moreover have "look n ?c ?k = look n c ?k"
    proof -
      have "look now c k = None \<or> (\<exists>w. look now c k = Some (JsonText w))"
        using assms(1,2) k unfolding search_cache_ok_def by (metis not_None_eq)
      then have "snd (get_json B now k c) = snd (cget B now k c)"
        using cb.get_up [OF assms(3), of now k]
        by (cases "cget B now k c") (auto simp: get_json_def)
      then show ?thesis using cb.get_look [OF assms(3) n] by simp
    qed
    ultimately show ?thesis using v by simp
  qed
  with assms(1,2) n show "\<exists>r. v = JsonText (JObj (cacheable C r)) \<and> response_of owned t r"
    unfolding search_cache_ok_def by (meson order.trans)
qed

lemma ok_set:
  assumes "search_cache_ok look C hexdigest owned T c" "T \<le> now" "cup c" "response_of owned t r"
    and hex: "hex_text hexdigest"
  shows "search_cache_ok look C hexdigest owned now
    (set_json B now (query_key hexdigest t g q) (JObj (cacheable C r)) ttl c)"
  unfolding search_cache_ok_def
proof (intro allI impI)
  fix n t' g' q' v
  let ?k = "query_key hexdigest t g q" and ?k' = "query_key hexdigest t' g' q'"
  assume n: "now \<le> n" and v: "look n (set_json B now ?k (JObj (cacheable C r)) ttl c) ?k' = Some v"
  show "\<exists>r. v = JsonText (JObj (cacheable C r)) \<and> response_of owned t' r"
  proof (cases "?k' = ?k")
    case True
    then have "t' = t" using search_key_inject [OF hex] by (simp add: query_key_def)
    moreover have "v = JsonText (JObj (cacheable C r))"
      using v True by (auto simp: cb.set_json_look [OF assms(3)] split: if_splits)
    ultimately show ?thesis using assms(4) by blast
  next
    case False
    then have "look n c ?k' = Some v" using v by (simp add: cb.set_json_look [OF assms(3)])
    with assms(1,2) n show ?thesis unfolding search_cache_ok_def by (meson order.trans)
  qed
qed

lemma ok_invalidate:
  assumes "search_cache_ok look C hexdigest owned T c" "T \<le> now" "cup c" and hex: "hex_text hexdigest"
  shows "search_cache_ok look C hexdigest owned now (invalidate_tenant B now t c)"
  by (rule ok_frame [OF assms(1,2)])
     (simp add: invalidate_tenant_def cb.cc_incr_frame [OF assms(3)] query_key_def search_key_not_generation [OF hex])

text \<open>
  A search keeps the cache sound, and whatever it answers (from the cache or from the engine)
  belongs to the tenant that asked.
\<close>

lemma search_sound:
  assumes ok: "search_cache_ok look C hexdigest owned T c" and t: "T \<le> t1" "t1 \<le> t2" "t2 \<le> t3"
    and q: "sq_tenant_id q = tn" and own: "visible e tn \<subseteq> owned tn"
    and s: "search_service_search B E C hexdigest st t1 t2 t3 took rnd tn q (c, e) = (res, c', e')"
    and codec: "codec_ok C" and hex: "hex_text hexdigest"
  shows "search_cache_ok look C hexdigest owned t3 c' \<and> (\<forall>r. res = Inr r \<longrightarrow> response_of owned tn r)"
proof -
  have exe: "response_of owned tn r" if "execute E tn q e = (Inr r, e1)" for r e1
  proof -
    have "eup e" using that execute_error [of e tn q] by (cases "eup e") auto
    then obtain r' where r': "execute E tn q e = (Inr r', e)" "sr_tenant_id r' = tn" "\<not> sr_cached r'"
      "\<forall>h \<in> set (sr_hits r'). sh_id h \<in> visible e (sq_tenant_id q)" by (rule execute_ok)
    with that have "r = r'" by simp
    with r' q own show ?thesis by (auto simp: response_of_def)
  qed
  show ?thesis
  proof (cases "cup c")
    case False
    from s have "c' = c" "\<And>r. res = Inr r \<Longrightarrow> execute E tn q e = (Inr r, e')"
      by (auto simp: cache_down_search [OF False] split: prod.splits)
    then show ?thesis using exe ok_later [OF ok] t by simp
  next
    case True
    obtain g c1 where g: "current_generation B t1 tn c = (g, c1)" by (cases "current_generation B t1 tn c")
    then have c1: "c1 = snd (get_json B t1 (search_generation_key tn) c)"
      by (auto simp: current_generation_def split: prod.splits option.splits)
    have up1: "cup c1" and ok1: "search_cache_ok look C hexdigest owned t1 c1"
      using c1 cb.get_json_up [OF True] ok_get [OF ok t(1) True] by simp_all
    let ?k = "query_key hexdigest tn g q"
    obtain v c2 where gj: "get_json B t2 ?k c1 = (v, c2)" by (cases "get_json B t2 ?k c1")
    have up2: "cup c2" and ok2: "search_cache_ok look C hexdigest owned t2 c2"
      using cb.get_json_up [OF up1, of t2 ?k] ok_get [OF ok1 t(2) up1, of ?k] gj by simp_all
    show ?thesis
    proof (cases v)
      case (Some j)
      have "look t2 c1 ?k = Some (JsonText j)"
        using cb.get_json_value [OF up1, of t2 ?k] gj Some
        by (auto split: option.splits cache_text.splits if_splits)
      then obtain r where r: "j = JObj (cacheable C r)" "response_of owned tn r"
        using ok1 t(2) unfolding search_cache_ok_def by blast
      have "res = Inr (r\<lparr>sr_took_ms := took, sr_cached := True\<rparr>)" "c' = c2"
        using s by (simp_all add: search_service_search_def g gj Some r(1) cached_response_cacheable [OF codec])
      then show ?thesis using r(2) ok_later [OF ok2 t(3)] by (simp add: response_of_def)
    next
      case None
      then have "single_flight B E C st t3 rnd ?k tn q (c2, e) = (res, c', e')"
        using s by (simp add: search_service_search_def g gj)
      then show ?thesis
        using exe ok_later [OF ok2 t(3)] ok_set [OF ok2 t(3) up2 _ hex]
        by (auto simp: single_flight_def split: prod.splits sum.splits)
    qed
  qed
qed

text \<open>A visible entry of the current generation answers the request without the engine.\<close>

lemma current_generation_look:
  assumes "cup c"
  shows "fst (current_generation B now t c) =
    (case look now c (search_generation_key t) of
       Some (JsonText v) \<Rightarrow> if v = JNull then 0 else (case py_int_json v of Inr n \<Rightarrow> n | Inl e \<Rightarrow> 0)
     | _ \<Rightarrow> 0)"
  using cb.get_json_value [OF assms, of now "search_generation_key t"]
  by (auto simp: current_generation_def split: prod.splits option.splits cache_text.splits)

lemma hit_search:
  assumes "cup c" "t1 \<le> t2" "fst (current_generation B t1 t c) = g"
    "look t2 c (query_key hexdigest t g q) = Some (JsonText (JObj (cacheable C r)))" and C: "codec_ok C"
    and hex: "hex_text hexdigest"
  shows "\<exists>c2. search_service_search B E C hexdigest st t1 t2 t3 took rnd t q (c, e) =
    (Inr (r\<lparr>sr_took_ms := took, sr_cached := True\<rparr>), c2, e)"
proof -
  obtain c1 where g: "current_generation B t1 t c = (g, c1)" using assms(3) by (metis prod.collapse)
  then have c1: "c1 = snd (get_json B t1 (search_generation_key t) c)"
    by (auto simp: current_generation_def split: prod.splits option.splits)
  let ?k = "query_key hexdigest t g q"
  have "look t2 c1 ?k = Some (JsonText (JObj (cacheable C r)))"
    using cb.get_json_look [OF assms(1,2), where k' = ?k] assms(4) c1 by auto
  then have "fst (get_json B t2 ?k c1) = Some (JObj (cacheable C r))"
    using cb.get_json_value [of c1] cb.get_json_up [OF assms(1)] c1 by simp
  then obtain c2 where "get_json B t2 ?k c1 = (Some (JObj (cacheable C r)), c2)" by (metis prod.collapse)
  then show ?thesis by (simp add: search_service_search_def g cached_response_cacheable [OF C])
qed

lemma search_again:
  assumes up: "cup c" and t: "t1 \<le> t2" "t2 \<le> t3" "t3 \<le> t4" "t4 \<le> t5" "t5 \<le> t3 + of_int (search_ttl st rnd)"
    and gen: "look t4 c (search_generation_key t) = look t1 c (search_generation_key t)"
      "look t1 c (search_generation_key t) = None \<or> look t1 c (search_generation_key t) = Some (JsonText j)"
    and miss: "look t2 c (query_key hexdigest t (fst (current_generation B t1 t c)) q) = None"
    and s: "search_service_search B E C hexdigest st t1 t2 t3 took rnd t q (c, e) = (Inr r, c', e')"
    and C: "codec_ok C" and hex: "hex_text hexdigest"
  shows "\<exists>c''. search_service_search B E C hexdigest st' t4 t5 t6 took' rnd' t q (c', e'') =
    (Inr (r\<lparr>sr_took_ms := took', sr_cached := True\<rparr>), c'', e'')"
proof -
  let ?G = "search_generation_key t"
  obtain g c1 where g: "current_generation B t1 t c = (g, c1)" by force
  let ?k = "query_key hexdigest t g q"
  have kG: "?k \<noteq> ?G" using search_key_not_generation [OF hex] by (simp add: query_key_def)
  have c1: "c1 = snd (get_json B t1 ?G c)"
    using g by (auto simp: current_generation_def split: prod.splits option.splits)
  have up1: "cup c1" using c1 cb.get_json_up [OF up] by simp
  have "look t2 c1 ?k = None" using cb.get_json_look [OF up t(1), where k' = ?k and k = ?G] kG miss g c1 by simp
  then have "fst (get_json B t2 ?k c1) = None" by (simp add: cb.get_json_value [OF up1])
  then obtain c2 where gj: "get_json B t2 ?k c1 = (None, c2)" by (metis prod.collapse)
  have up2: "cup c2" using cb.get_json_up [OF up1, of t2 ?k] gj by simp
  have c': "c' = set_json B t3 ?k (JObj (cacheable C r)) (search_ttl st rnd) c2"
    using s by (auto simp: search_service_search_def g gj single_flight_def split: prod.splits sum.splits)
  have upc: "cup c'" using c' cb.set_json_up [OF up2] by simp
  have "look t4 c' ?G = look t4 c2 ?G" using c' kG by (simp add: cb.set_json_look [OF up2])
  also have "\<dots> = look t4 c1 ?G" using cb.get_json_look [OF up1, where now = t2 and now' = t4 and k' = ?G and k = ?k] kG gj t by auto
  also have "\<dots> = look t4 c ?G"
  proof (cases "look t1 c ?G")
    case None
    have "look t4 c1 ?G = None"
    proof (rule ccontr)
      assume "look t4 c1 ?G \<noteq> None"
      then obtain v where "look t4 c1 ?G = Some v" by blast
      then have "look t4 c ?G = Some v" using cb.get_json_shrinks [of t1 t4 ?G c ?G v] c1 t by simp
      then show False using gen(1) None by simp
    qed
    then show ?thesis using gen(1) None by simp
  next
    case (Some v)
    then show ?thesis using cb.get_json_look [OF up, where now = t1 and now' = t4 and k' = ?G and k = ?G] c1 gen t by auto
  qed
  finally have "fst (current_generation B t4 t c') = g"
    using current_generation_look [OF up, of t1 t] current_generation_look [OF upc, of t4 t] gen(1) g by simp
  moreover have "look t5 c' ?k = Some (JsonText (JObj (cacheable C r)))"
    using c' t by (simp add: cb.set_json_look [OF up2])
  ultimately show ?thesis using hit_search [OF upc t(4) _ _ C hex] by blast
qed

text \<open>After an invalidation the next search misses, whatever had been cached before.\<close>

lemma invalidated_generation:
  assumes "cup c" "look now c (search_generation_key t) = None \<or> look now c (search_generation_key t) = Some (JsonText (JInt n))"
    "m = (if look now c (search_generation_key t) = None then 0 else n) + 1" "now \<le> t1" "t1 \<le> now + 86400"
  shows "fst (current_generation B t1 t (invalidate_tenant B now t c)) = m"
proof -
  let ?k = "search_generation_key t"
  from cb.incr_counts [OF assms(1-3)] assms(4,5)
  have l: "look t1 (snd (cincr B now ?k c)) ?k = Some (JsonText (JInt m))" by blast
  have "invalidate_tenant B now t c = snd (cincr B now ?k c)"
    by (auto simp: invalidate_tenant_def cc_incr_def split: prod.splits sum.splits)
  with l cb.get_json_value [OF cb.incr_up [OF assms(1), of now ?k], of t1 ?k]
  show ?thesis by (auto simp: current_generation_def split: prod.splits)
qed

lemma invalidate_then_search:
  assumes up: "cup c" and gen: "look now c (search_generation_key t) = None \<or> look now c (search_generation_key t) = Some (JsonText (JInt n))"
    and m: "m = (if look now c (search_generation_key t) = None then 0 else n) + 1"
    and t: "now \<le> t1" "t1 \<le> t2" "t1 \<le> now + 86400"
    and fresh: "look t2 c (query_key hexdigest t m q) = None" and hex: "hex_text hexdigest"
  shows "fst (search_service_search B E C hexdigest st t1 t2 t3 took rnd t q (invalidate_tenant B now t c, e))
    = fst (execute E t q e)"
proof -
  let ?c = "invalidate_tenant B now t c"
  have upc: "cup ?c" using cb.cc_incr_up [OF up] by (simp add: invalidate_tenant_def)
  obtain c1 where g: "current_generation B t1 t ?c = (m, c1)"
    using invalidated_generation [OF up gen m t(1,3)] by (metis prod.collapse)
  have "look t2 ?c (query_key hexdigest t m q) = None"
    using fresh t by (simp add: invalidate_tenant_def cb.cc_incr_frame [OF up] query_key_def
        search_key_not_generation [OF hex])
  from miss_search [OF upc t(2) g this hex] show ?thesis .
qed

text \<open>
  What a search caches after an invalidation stays for the lifetime of its entry, whatever the index has become
  since: \<open>e''\<close> is any later state of the engine.
\<close>

lemma cached_after_invalidate:
  assumes up: "cup c" and gen: "look now c (search_generation_key t) = None \<or> look now c (search_generation_key t) = Some (JsonText (JInt n))"
    and m: "m = (if look now c (search_generation_key t) = None then 0 else n) + 1"
    and t: "now \<le> t1" "t1 \<le> t2" "t2 \<le> t3" "t3 \<le> t4" "t4 \<le> t5" "t5 \<le> t3 + of_int (search_ttl st rnd)" "t4 \<le> now + 86400"
    and fresh: "look t2 c (query_key hexdigest t m q) = None" and ex: "execute E t q e = (Inr r, e)"
    and C: "codec_ok C" and hex: "hex_text hexdigest"
  shows "\<exists>c' c''. search_service_search B E C hexdigest st t1 t2 t3 took rnd t q (invalidate_tenant B now t c, e) = (Inr r, c', e) \<and>
    search_service_search B E C hexdigest st' t4 t5 t6 took' rnd' t q (c', e'') = (Inr (r\<lparr>sr_took_ms := took', sr_cached := True\<rparr>), c'', e'')"
proof -
  let ?c = "invalidate_tenant B now t c" and ?G = "search_generation_key t"
  have upc: "cup ?c" using cb.cc_incr_up [OF up] by (simp add: invalidate_tenant_def)
  have inc: "?c = snd (cincr B now ?G c)"
    by (auto simp: invalidate_tenant_def cc_incr_def split: prod.splits sum.splits)
  have l: "look x ?c ?G = Some (JsonText (JInt m))" if "now \<le> x" "x \<le> now + 86400" for x
    using cb.incr_counts [OF up gen m] that inc by simp
  have t1: "t1 \<le> now + 86400" using t by linarith
  have miss: "look t2 ?c (query_key hexdigest t m q) = None"
    using fresh t(1,2) by (simp add: invalidate_tenant_def cb.cc_incr_frame [OF up] query_key_def search_key_not_generation [OF hex])
  have "fst (search_service_search B E C hexdigest st t1 t2 t3 took rnd t q (?c, e)) = Inr r"
    by (simp add: invalidate_then_search [OF up gen m t(1,2) t1 fresh hex] ex)
  moreover have "snd (snd (search_service_search B E C hexdigest st t1 t2 t3 took rnd t q (?c, e))) = e"
    by (simp add: search_service_search_def single_flight_def ex Let_def split: prod.splits option.splits)
  ultimately obtain c' where c': "search_service_search B E C hexdigest st t1 t2 t3 took rnd t q (?c, e) = (Inr r, c', e)"
    by (metis prod.collapse)
  have g: "fst (current_generation B t1 t ?c) = m" by (rule invalidated_generation [OF up gen m t(1) t1])
  have "look t4 ?c ?G = look t1 ?c ?G" "look t1 ?c ?G = Some (JsonText (JInt m))" using l t t1 by simp_all
  from search_again [OF upc t(2-6) this(1) disjI2 [OF this(2)] _ c' C hex] miss g show ?thesis using c' by blast
qed

end

interpretation ss: search_service inmemory_ops im_available im_look "inmemory_engine_ops so took0" ie_available ie_visible
  by unfold_locales

end
