(* ===== verification/Document_Service.thy ===== *)
theory Document_Service
  imports Search_Service
begin

text \<open>
  \<open>services/document_service.py\<close>: the write, read and delete paths over the database, a cache
  backend and a publisher.  The state is the record \<open>doc_world\<close>.  Arguments stand for what the
  environment supplies: clock readings, the drawn identifier, the event's own identifier and
  time stamp (\<open>evid\<close>, \<open>occ\<close>), and whether \<open>COMMIT\<close> succeeds (\<open>commit_ok\<close>).
\<close>

record ('c, 'p) doc_world =
  w_db :: database
  w_cache :: 'c
  w_pub :: 'p

definition ds_publish :: "'p publisher_ops \<Rightarrow> doc_event \<Rightarrow> 'p \<Rightarrow> 'p" where
  "ds_publish P event p = (case publish P event p of (Inr _, p1) \<Rightarrow> p1 | (Inl e, p1) \<Rightarrow> p1)"

definition new_document :: "datetime \<Rightarrow> datetime \<Rightarrow> uuid \<Rightarrow> string \<Rightarrow> document_create \<Rightarrow> document" where
  "new_document created updated uid tenant_id payload =
     \<lparr>doc_id = uid, doc_tenant_id = tenant_id, doc_title = dc_title payload, doc_content = dc_content payload,
      doc_content_type = dc_content_type payload, doc_tags = dc_tags payload, doc_metadata = dc_metadata payload,
      doc_version = 1, doc_status = PENDING, doc_created_at = created, doc_updated_at = updated,
      doc_indexed_at = None, doc_deleted_at = None\<rparr>"

definition event_of :: "string \<Rightarrow> string \<Rightarrow> string \<Rightarrow> document \<Rightarrow> string \<Rightarrow> doc_event" where
  "event_of evid occ tenant_id d ty =
     \<lparr>ev_document_id = str_uuid (doc_id d), ev_tenant_id = tenant_id, ev_version = doc_version d,
      ev_type = ty, ev_event_id = evid, ev_occurred_at = occ\<rparr>"

definition ds_create ::
  "'c cache_ops \<Rightarrow> 'p publisher_ops \<Rightarrow> real \<Rightarrow> datetime \<Rightarrow> datetime \<Rightarrow> uuid \<Rightarrow> string \<Rightarrow> string \<Rightarrow> bool \<Rightarrow> string
   \<Rightarrow> document_create \<Rightarrow> ('c, 'p) doc_world \<Rightarrow> document result \<times> ('c, 'p) doc_world" where
  "ds_create B P t created updated uid evid occ commit_ok tenant_id payload w =
     (let d = new_document created updated uid tenant_id payload
      in case repo_create d (w_db w) of
           Inl e \<Rightarrow> (Inl e, w)
         | Inr db1 \<Rightarrow>
             if \<not> commit_ok then (Inl DatabaseErr, w)
             else (Inr d, w\<lparr>w_db := db1,
                             w_pub := ds_publish P (event_of evid occ tenant_id d EVENT_INDEX) (w_pub w),
                             w_cache := invalidate_tenant B t tenant_id (w_cache w)\<rparr>))"

definition ds_get ::
  "'c cache_ops \<Rightarrow> codec \<Rightarrow> settings \<Rightarrow> real \<Rightarrow> real \<Rightarrow> string \<Rightarrow> uuid \<Rightarrow> ('c, 'p) doc_world
   \<Rightarrow> document_response result \<times> ('c, 'p) doc_world" where
  "ds_get B C st t1 t2 tenant_id document_id w =
     (let key = document_key tenant_id (str_uuid document_id)
      in case get_json B t1 key (w_cache w) of
           (Some cached, c1) \<Rightarrow> (validate_doc C cached, w\<lparr>w_cache := c1\<rparr>)
         | (None, c1) \<Rightarrow>
             (case repo_get tenant_id document_id False (w_db w) of
                Inl e \<Rightarrow> (Inl e, w\<lparr>w_cache := c1\<rparr>)
              | Inr None \<Rightarrow> (Inl (AppErr (NotFoundError (Some ''Document not found.''))), w\<lparr>w_cache := c1\<rparr>)
              | Inr (Some d) \<Rightarrow>
                  (Inr (from_model d),
                   w\<lparr>w_cache := set_json B t2 key (dump_doc C (from_model d))
                                  (document_cache_ttl_seconds st) c1\<rparr>)))"

definition ds_delete ::
  "'c cache_ops \<Rightarrow> 'p publisher_ops \<Rightarrow> real \<Rightarrow> datetime \<Rightarrow> string \<Rightarrow> string \<Rightarrow> bool \<Rightarrow> string \<Rightarrow> uuid
   \<Rightarrow> ('c, 'p) doc_world \<Rightarrow> unit result \<times> ('c, 'p) doc_world" where
  "ds_delete B P t now evid occ commit_ok tenant_id document_id w =
     (case repo_get tenant_id document_id False (w_db w) of
        Inl e \<Rightarrow> (Inl e, w)
      | Inr None \<Rightarrow> (Inl (AppErr (NotFoundError (Some ''Document not found.''))), w)
      | Inr (Some d) \<Rightarrow>
          (case repo_soft_delete now d (w_db w) of
             Inl e \<Rightarrow> (Inl e, w)
           | Inr (d1, db1) \<Rightarrow>
               if \<not> commit_ok then (Inl DatabaseErr, w)
               else (let c1 = cc_delete B [document_key tenant_id (str_uuid document_id)] (w_cache w);
                         c2 = invalidate_tenant B t tenant_id c1;
                         p1 = ds_publish P (event_of evid occ tenant_id d1 EVENT_DELETE) (w_pub w)
                     in (Inr (), w\<lparr>w_db := db1, w_cache := c2, w_pub := p1\<rparr>))))"

text \<open>From time \<open>T\<close> on, a visible entry of a document key is the dump of that document of that tenant.\<close>

definition doc_cache_ok ::
  "(real \<Rightarrow> 'c \<Rightarrow> string \<Rightarrow> cache_text option) \<Rightarrow> codec \<Rightarrow> real \<Rightarrow> 'c \<Rightarrow> bool" where
  "doc_cache_ok look C T c \<longleftrightarrow>
     (\<forall>now t u v. T \<le> now \<longrightarrow> look now c (document_key t (str_uuid u)) = Some v \<longrightarrow>
        (\<exists>r. v = JsonText (dump_doc C r) \<and> rs_tenant_id r = t \<and> rs_id r = u))"

subsection \<open>Lemmas\<close>

lemma ds_publish_snd: "ds_publish P e p = snd (publish P e p)"
  by (simp add: ds_publish_def split: prod.splits sum.splits)

lemma new_document_ok: "row_ok (new_document cr up uid t p)"
  by (simp add: row_ok_def new_document_def)

lemma ds_create_db:
  "ds_create B P t cr up uid evid occ ok tn p w = (r, w') \<Longrightarrow>
   w_db w' = (case r of Inr d \<Rightarrow> (w_db w)\<lparr>db_documents := db_documents (w_db w) @ [d]\<rparr> | Inl e \<Rightarrow> w_db w) \<and>
   (\<forall>d. r = Inr d \<longrightarrow> d = new_document cr up uid tn p \<and> uid \<notin> doc_id ` set (db_documents (w_db w)))"
  by (auto simp: ds_create_def Let_def repo_create_def new_document_def split: sum.splits if_splits)

lemma ds_create_inv:
  assumes "db_inv (w_db w)" "ds_create B P t cr up uid evid occ ok tn p w = (r, w')"
  shows "db_inv (w_db w')"
proof (cases "repo_create (new_document cr up uid tn p) (w_db w)")
  case (Inl e)
  then show ?thesis using assms by (auto simp: ds_create_def Let_def)
next
  case (Inr db1)
  then show ?thesis
    using assms repo_create_inv [OF assms(1) new_document_ok Inr]
    by (auto simp: ds_create_def Let_def split: if_splits)
qed

lemma ds_delete_cases:
  assumes "ds_delete B P t now evid occ ok tn u w = (Inr (), w')" "db_inv (w_db w)"
  obtains d where "row_of (w_db w) u = Some d" "doc_tenant_id d = tn" "doc_status d \<noteq> DELETED"
    "\<forall>x. row_of (w_db w') x = (if x = u then Some (deleted_row now d) else row_of (w_db w) x)"
    "db_inv (w_db w')" "db_up (w_db w')"
    "w_cache w' = invalidate_tenant B t tn (cc_delete B [document_key tn (str_uuid u)] (w_cache w))"
    "w_pub w' = snd (publish P (event_of evid occ tn (deleted_row now d) EVENT_DELETE) (w_pub w))"
proof -
  obtain d where d: "repo_get tn u False (w_db w) = Inr (Some d)"
    using assms(1) by (auto simp: ds_delete_def split: sum.splits option.splits)
  then have row: "row_of (w_db w) u = Some d" "doc_tenant_id d = tn" "doc_status d \<noteq> DELETED" "db_up (w_db w)"
    by (auto simp: repo_get_row [OF assms(2)] split: if_splits option.splits)
  obtain d1 db1 where s: "repo_soft_delete now d (w_db w) = Inr (d1, db1)"
    using row(4) by (simp add: repo_soft_delete_def)
  have mem: "d \<in> set (db_documents (w_db w))" and u: "doc_id d = u" using row_of_Some [OF row(1)] by auto
  from repo_soft_delete_inv [OF assms(2) mem row(3) s]
  have "db_inv db1" "d1 = deleted_row now d" "db_up db1"
    "\<forall>x. row_of db1 x = (if x = u then Some (deleted_row now d) else row_of (w_db w) x)"
    using row(4) u by auto
  moreover have "w' = w\<lparr>w_db := db1,
      w_cache := invalidate_tenant B t tn (cc_delete B [document_key tn (str_uuid u)] (w_cache w)),
      w_pub := snd (publish P (event_of evid occ tn d1 EVENT_DELETE) (w_pub w))\<rparr>"
    using assms(1) d s by (auto simp: ds_delete_def Let_def ds_publish_snd split: if_splits)
  ultimately show thesis using that row by simp
qed

locale document_service = cb: cache_backend B cup look + ep: event_publisher P pending pup
  for B :: "'c cache_ops" and cup look and P :: "'p publisher_ops" and pending and pup
begin

lemma get_uncached:
  assumes "db_inv (w_db w)"
    "\<not> cup (w_cache w) \<or> look t1 (w_cache w) (document_key tn (str_uuid u)) = None"
  shows "fst (ds_get B C st t1 t2 tn u w) =
    (if \<not> db_up (w_db w) then Inl DatabaseErr
     else case row_of (w_db w) u of
       None \<Rightarrow> Inl (AppErr (NotFoundError (Some ''Document not found.'')))
     | Some d \<Rightarrow> if doc_tenant_id d = tn \<and> doc_status d \<noteq> DELETED then Inr (from_model d)
                 else Inl (AppErr (NotFoundError (Some ''Document not found.''))))"
proof -
  let ?k = "document_key tn (str_uuid u)"
  have "fst (get_json B t1 ?k (w_cache w)) = None"
    using assms(2) cb.get_json_down cb.get_json_value by (cases "cup (w_cache w)") auto
  then obtain c1 where "get_json B t1 ?k (w_cache w) = (None, c1)" by (metis prod.collapse)
  then show ?thesis
    by (auto simp: ds_get_def Let_def repo_get_row [OF assms(1)] split: option.splits)
qed

lemma create_get:
  assumes inv: "db_inv (w_db w)"
    and cr: "ds_create B P t cr up uid evid occ ok tn p w = (Inr d, w')"
    and cold: "\<not> cup (w_cache w) \<or> look t1 (w_cache w) (document_key tn (str_uuid uid)) = None" and t: "t \<le> t1"
  shows "fst (ds_get B C st t1 t2 tn uid w') = Inr (from_model d)"
proof -
  let ?k = "document_key tn (str_uuid uid)"
  have d: "d = new_document cr up uid tn p" using ds_create_db [OF cr] by simp
  obtain db1 where db1: "repo_create d (w_db w) = Inr db1" "w_db w' = db1"
    "w_cache w' = invalidate_tenant B t tn (w_cache w)"
    using cr d by (auto simp: ds_create_def Let_def split: sum.splits if_splits)
  have row: "row_of (w_db w') uid = Some d"
    using repo_create_row [OF db1(1), of uid] db1(2) d by (simp add: new_document_def)
  have up: "db_up (w_db w')" using repo_create_up [OF db1(1)] db1(2) by simp
  have cold': "\<not> cup (w_cache w') \<or> look t1 (w_cache w') ?k = None"
  proof (cases "cup (w_cache w)")
    case True
    then show ?thesis
      using cold t document_key_not_generation [of tn uid tn]
      by (simp add: db1(3) invalidate_tenant_def cb.cc_incr_frame)
  next
    case False
    then show ?thesis by (simp add: db1(3) invalidate_tenant_def cb.cc_incr_down)
  qed
  from get_uncached [OF ds_create_inv [OF inv cr] cold'] row up show ?thesis
    by (simp add: d new_document_def)
qed

lemma delete_get:
  assumes inv: "db_inv (w_db w)" and del: "ds_delete B P t now evid occ ok tn u w = (Inr (), w')"
    and up: "cup (w_cache w)" and t: "t \<le> t1"
  shows "fst (ds_get B C st t1 t2 tn u w') = Inl (AppErr (NotFoundError (Some ''Document not found.'')))"
proof -
  let ?k = "document_key tn (str_uuid u)"
  obtain d where d: "\<forall>x. row_of (w_db w') x = (if x = u then Some (deleted_row now d) else row_of (w_db w) x)"
    "db_inv (w_db w')" "db_up (w_db w')"
    "w_cache w' = invalidate_tenant B t tn (cc_delete B [?k] (w_cache w))"
    using ds_delete_cases [OF del inv] by metis
  have "look t1 (cc_delete B [?k] (w_cache w)) ?k = None"
    by (simp add: cc_delete_def cb.del_look [OF up])
  then have "look t1 (w_cache w') ?k = None"
    using document_key_not_generation [of tn u tn] cb.cc_delete_up [OF up] t
    by (simp add: d(4) invalidate_tenant_def cb.cc_incr_frame)
  with get_uncached [OF d(2), of t1 tn u C st t2] d show ?thesis by simp
qed

lemma get_own_document:
  assumes ok: "doc_cache_ok look C T (w_cache w)" and T: "T \<le> t1" and inv: "db_inv (w_db w)" and C: "codec_ok C"
    and g: "ds_get B C st t1 t2 tn u w = (Inr r, w')"
  shows "rs_tenant_id r = tn \<and> rs_id r = u"
proof (cases "cup (w_cache w) \<and> look t1 (w_cache w) (document_key tn (str_uuid u)) \<noteq> None")
  case True
  let ?k = "document_key tn (str_uuid u)"
  obtain v where "look t1 (w_cache w) ?k = Some v" using True by blast
  with ok T obtain r' where r': "look t1 (w_cache w) ?k = Some (JsonText (dump_doc C r'))" "rs_tenant_id r' = tn" "rs_id r' = u"
    unfolding doc_cache_ok_def by blast
  have "fst (get_json B t1 ?k (w_cache w)) = Some (dump_doc C r')"
    using True r'(1) C by (simp add: cb.get_json_value codec_ok_def)
  then obtain c1 where "get_json B t1 ?k (w_cache w) = (Some (dump_doc C r'), c1)" by (metis prod.collapse)
  then have "r = r'" using g C by (simp add: ds_get_def Let_def codec_ok_def)
  with r' show ?thesis by simp
next
  case False
  then have "fst (ds_get B C st t1 t2 tn u w) = Inr r" using g by simp
  with get_uncached [OF inv, of t1 tn u C st t2] False show ?thesis
    by (auto simp: from_model_def dest: row_of_Some split: if_splits option.splits)
qed

lemma doc_ok_frame:
  assumes "doc_cache_ok look C T c" "T \<le> T'"
    "\<And>now t u. T' \<le> now \<Longrightarrow> look now c' (document_key t (str_uuid u)) = look now c (document_key t (str_uuid u)) \<or>
       look now c' (document_key t (str_uuid u)) = None"
  shows "doc_cache_ok look C T' c'"
  using assms unfolding doc_cache_ok_def by (metis option.distinct(1) order.trans)

lemma doc_ok_get_json:
  assumes "doc_cache_ok look C T c" "T \<le> now" "cup c"
  shows "doc_cache_ok look C now (snd (get_json B now k c))"
proof (rule doc_ok_frame [OF assms(1,2)])
  fix n t u assume n: "now \<le> n"
  let ?d = "document_key t (str_uuid u)"
  show "look n (snd (get_json B now k c)) ?d = look n c ?d \<or> look n (snd (get_json B now k c)) ?d = None"
  proof (cases "look n c ?d")
    case (Some v)
    then obtain w where "look n c ?d = Some (JsonText w)"
      using assms(1,2) n unfolding doc_cache_ok_def by (metis order.trans)
    then show ?thesis using cb.get_json_look [OF assms(3) n] by blast
  next
    case None
    show ?thesis
    proof (cases "?d = k")
      case False
      then show ?thesis using cb.get_json_look [OF assms(3) n] by blast
    next
      case True
      have "look now c k = None \<or> (\<exists>w. look now c k = Some (JsonText w))"
        using assms(1,2) True unfolding doc_cache_ok_def by (metis not_None_eq)
      then have "snd (get_json B now k c) = snd (cget B now k c)"
        using cb.get_up [OF assms(3), of now k] by (cases "cget B now k c") (auto simp: get_json_def)
      then show ?thesis using cb.get_look [OF assms(3) n] by simp
    qed
  qed
qed

lemma get_keeps_cache:
  assumes ok: "doc_cache_ok look C T (w_cache w)" and T: "T \<le> t1" "t1 \<le> t2" and inv: "db_inv (w_db w)"
    and g: "ds_get B C st t1 t2 tn u w = (r, w')"
  shows "doc_cache_ok look C t2 (w_cache w')"
proof -
  let ?k = "document_key tn (str_uuid u)"
  obtain v c1 where gj: "get_json B t1 ?k (w_cache w) = (v, c1)" by (cases "get_json B t1 ?k (w_cache w)")
  have later: "doc_cache_ok look C t2 c" if "doc_cache_ok look C t1 c" for c
    using that T(2) unfolding doc_cache_ok_def by (meson order.trans)
  have ok1: "doc_cache_ok look C t1 c1"
  proof (cases "cup (w_cache w)")
    case True
    then show ?thesis using doc_ok_get_json [OF ok T(1) True, of ?k] gj by simp
  next
    case False
    then show ?thesis using cb.get_json_down [OF False, of t1 ?k] gj ok T(1)
      unfolding doc_cache_ok_def by (auto intro: order.trans)
  qed
  have set: "doc_cache_ok look C t2 (set_json B t2 ?k (dump_doc C (from_model d)) ttl c1)"
    if d: "repo_get tn u False (w_db w) = Inr (Some d)" for d ttl
  proof (cases "cup c1")
    case True
    have own: "rs_tenant_id (from_model d) = tn" "rs_id (from_model d) = u"
      using d by (auto simp: repo_get_row [OF inv] from_model_def dest: row_of_Some split: if_splits option.splits)
    show ?thesis unfolding doc_cache_ok_def
    proof (intro allI impI)
      fix n t x v assume n: "t2 \<le> n" and v: "look n (set_json B t2 ?k (dump_doc C (from_model d)) ttl c1) (document_key t (str_uuid x)) = Some v"
      show "\<exists>r. v = JsonText (dump_doc C r) \<and> rs_tenant_id r = t \<and> rs_id r = x"
      proof (cases "document_key t (str_uuid x) = ?k")
        case True
        then have "t = tn" "x = u" using document_key_inject by blast+
        with v own True \<open>cup c1\<close> show ?thesis by (auto simp: cb.set_json_look split: if_splits)
      next
        case False
        with v \<open>cup c1\<close> have "look n c1 (document_key t (str_uuid x)) = Some v" by (simp add: cb.set_json_look)
        with later [OF ok1] n show ?thesis unfolding doc_cache_ok_def by blast
      qed
    qed
  next
    case False
    then show ?thesis using later [OF ok1] by (simp add: cb.set_json_down)
  qed
  show ?thesis
    using g gj later [OF ok1] set by (auto simp: ds_get_def Let_def split: option.splits sum.splits)
qed

lemma create_publishes:
  assumes "ds_create B P t cr up uid evid occ ok tn p w = (Inr d, w')"
  shows "pending (w_pub w') = pending (w_pub w) @ (if pup (w_pub w) then [event_of evid occ tn d EVENT_INDEX] else [])"
  using assms ep.publish_pending
  by (auto simp: ds_create_def Let_def ds_publish_snd split: sum.splits if_splits)

end

interpretation dsv: document_service inmemory_ops im_available im_look inmemory_publisher_ops mp_events mp_available
  by unfold_locales

end
