(* ===== verification/Rate_Limiter.thy ===== *)
theory Rate_Limiter
  imports Cache_Keys Errors
begin

text \<open>
  \<open>services/rate_limiter.py\<close>: the token bucket as the Lua script computes it, the process-local
  bucket, and the limiter that tries the first and falls back to the second.

  \<open>script\<close> is the script on the values its Redis commands yield: the clock, and what \<open>HMGET\<close>
  returned for the two fields; it gives the reply and the fields it writes with \<open>HSET\<close>.  Redis
  itself is a parameter: \<open>run\<close> executes a script under a key and answers or raises.  Division
  by zero gives infinity in Lua (the reply \<open>Forever\<close>) and raises in Python.  Tokens are reals; the
  decimal rendering of the script's reply is not modelled.
\<close>

record bucket =
  bk_tokens :: real
  bk_ts :: real

datatype wait = Seconds real | Forever

record script_reply =
  rp_allowed :: bool
  rp_tokens :: real
  rp_retry_after :: wait

definition script ::
  "real \<Rightarrow> real \<Rightarrow> real \<Rightarrow> real \<Rightarrow> real option \<Rightarrow> real option \<Rightarrow> script_reply \<times> bucket" where
  "script capacity refill_rate cost now data1 data2 =
     (let (tokens0, ts) = (case (data1, data2) of (Some tokens, Some ts) \<Rightarrow> (tokens, ts) | _ \<Rightarrow> (capacity, now));
          tokens = min capacity (tokens0 + max 0 (now - ts) * refill_rate)
      in if tokens \<ge> cost
         then (\<lparr>rp_allowed = True, rp_tokens = tokens - cost, rp_retry_after = Seconds 0\<rparr>,
               \<lparr>bk_tokens = tokens - cost, bk_ts = now\<rparr>)
         else (\<lparr>rp_allowed = False, rp_tokens = tokens,
                rp_retry_after = (if refill_rate = 0 then Forever else Seconds ((cost - tokens) / refill_rate))\<rparr>,
               \<lparr>bk_tokens = tokens, bk_ts = now\<rparr>))"

record rate_limit_decision =
  rd_allowed :: bool
  rd_limit_per_minute :: int
  rd_remaining :: int
  rd_retry_after_seconds :: wait
  rd_degraded :: bool

record rate_limiter =
  rl_burst_ratio :: real
  rl_local :: "(string \<times> bucket) list"

type_synonym 's script_client =
  "string \<Rightarrow> (real \<Rightarrow> real option \<Rightarrow> real option \<Rightarrow> script_reply \<times> bucket) \<Rightarrow> int \<Rightarrow> 's \<Rightarrow> script_reply result \<times> 's"

definition capacity_of :: "real \<Rightarrow> int \<Rightarrow> real" where
  "capacity_of burst_ratio limit_per_minute = max 5 (of_int limit_per_minute * burst_ratio)"

text \<open>
  The bucket of a key is one object: refilling it changes the stored bucket of a known key even
  when the division raises, while a new bucket is stored at the end only.
\<close>

definition check_local ::
  "real \<Rightarrow> string \<Rightarrow> real \<Rightarrow> real \<Rightarrow> rate_limiter \<Rightarrow> rate_limit_decision result \<times> rate_limiter" where
  "check_local now key capacity refill_rate rl =
     (let b0 = (case map_of (rl_local rl) key of Some b \<Rightarrow> b | None \<Rightarrow> \<lparr>bk_tokens = capacity, bk_ts = now\<rparr>);
          tokens = min capacity (bk_tokens b0 + max 0 (now - bk_ts b0) * refill_rate)
      in if tokens \<ge> 1
         then (Inr \<lparr>rd_allowed = True, rd_limit_per_minute = 0, rd_remaining = py_int (tokens - 1),
                    rd_retry_after_seconds = Seconds 0, rd_degraded = True\<rparr>,
               rl\<lparr>rl_local := AList.update key \<lparr>bk_tokens = tokens - 1, bk_ts = now\<rparr> (rl_local rl)\<rparr>)
         else if refill_rate = 0
         then (Inl ZeroDivisionErr,
               if map_of (rl_local rl) key = None then rl
               else rl\<lparr>rl_local := AList.update key \<lparr>bk_tokens = tokens, bk_ts = now\<rparr> (rl_local rl)\<rparr>)
         else (Inr \<lparr>rd_allowed = False, rd_limit_per_minute = 0, rd_remaining = py_int tokens,
                    rd_retry_after_seconds = Seconds ((1 - tokens) / refill_rate), rd_degraded = True\<rparr>,
               rl\<lparr>rl_local := AList.update key \<lparr>bk_tokens = tokens, bk_ts = now\<rparr> (rl_local rl)\<rparr>))"

definition rl_check ::
  "'s script_client option \<Rightarrow> real \<Rightarrow> string \<Rightarrow> string \<Rightarrow> int \<Rightarrow> rate_limiter \<times> 's
   \<Rightarrow> rate_limit_decision result \<times> rate_limiter \<times> 's" where
  "rl_check client now tenant_id bucket limit_per_minute rs =
     (case rs of (rl, s) \<Rightarrow>
        (let capacity = capacity_of (rl_burst_ratio rl) limit_per_minute;
             refill_rate = of_int limit_per_minute / 60;
             key = rate_limit_key tenant_id bucket;
             local = (\<lambda>s1. case check_local now key capacity refill_rate rl of
                             (Inl e, rl1) \<Rightarrow> (Inl e, rl1, s1)
                           | (Inr d, rl1) \<Rightarrow> (Inr (d\<lparr>rd_limit_per_minute := limit_per_minute\<rparr>), rl1, s1))
         in case client of
              None \<Rightarrow> local s
            | Some run \<Rightarrow>
                (case run key (script capacity refill_rate 1) 120 s of
                   (Inr r, s1) \<Rightarrow>
                     (Inr \<lparr>rd_allowed = rp_allowed r, rd_limit_per_minute = limit_per_minute,
                           rd_remaining = py_int (rp_tokens r), rd_retry_after_seconds = rp_retry_after r,
                           rd_degraded = False\<rparr>, rl, s1)
                 | (Inl e, s1) \<Rightarrow> local s1)))"

text \<open>
  The two buckets as state machines: what one request at a given time does to the stored bucket
  of its key.
\<close>

definition script_grab :: "real \<Rightarrow> real \<Rightarrow> real \<Rightarrow> bucket \<Rightarrow> bool \<times> bucket" where
  "script_grab capacity rate now b =
     (case script capacity rate 1 now (Some (bk_tokens b)) (Some (bk_ts b)) of (r, b1) \<Rightarrow> (rp_allowed r, b1))"

definition local_grab :: "string \<Rightarrow> real \<Rightarrow> real \<Rightarrow> real \<Rightarrow> bucket \<Rightarrow> bool \<times> bucket" where
  "local_grab key capacity rate now b =
     (case check_local now key capacity rate \<lparr>rl_burst_ratio = 0, rl_local = [(key, b)]\<rparr> of
        (r, rl) \<Rightarrow> ((case r of Inr d \<Rightarrow> rd_allowed d | Inl e \<Rightarrow> False), the (map_of (rl_local rl) key)))"

fun run_grabs :: "(real \<Rightarrow> 'b \<Rightarrow> bool \<times> 'b) \<Rightarrow> real list \<Rightarrow> 'b \<Rightarrow> bool list \<times> 'b" where
  "run_grabs grab [] b = ([], b)"
| "run_grabs grab (t # ts) b =
     (case grab t b of (a, b1) \<Rightarrow> (case run_grabs grab ts b1 of (as, b2) \<Rightarrow> (a # as, b2)))"

definition was_allowed :: "rate_limit_decision result \<Rightarrow> bool" where
  "was_allowed r = (case r of Inr d \<Rightarrow> rd_allowed d | Inl e \<Rightarrow> False)"

text \<open>
  A sequence of requests (time, tenant, bucket) at one process without Redis; \<open>limit\<close> is each tenant's
  quota.  The answer pairs every request with whether it was allowed.
\<close>

fun rl_run ::
  "(string \<Rightarrow> int) \<Rightarrow> (real \<times> string \<times> string) list \<Rightarrow> rate_limiter
   \<Rightarrow> ((string \<times> string) \<times> bool) list \<times> rate_limiter" where
  "rl_run limit [] rl = ([], rl)"
| "rl_run limit ((now, t, k) # rs) rl =
     (case rl_check None now t k (limit t) (rl, ()) of
        (r, rl1, _) \<Rightarrow> (case rl_run limit rs rl1 of (as, rl2) \<Rightarrow> (((t, k), was_allowed r) # as, rl2)))"

definition bucket_of :: "rate_limiter \<Rightarrow> string \<Rightarrow> real \<Rightarrow> real \<Rightarrow> bucket" where
  "bucket_of rl key capacity now =
     (case map_of (rl_local rl) key of Some b \<Rightarrow> b | None \<Rightarrow> \<lparr>bk_tokens = capacity, bk_ts = now\<rparr>)"

text \<open>What a key may still spend until time \<open>T1\<close>, for requests from \<open>T0\<close> on.\<close>

definition budget :: "rate_limiter \<Rightarrow> string \<Rightarrow> real \<Rightarrow> real \<Rightarrow> real \<Rightarrow> real \<Rightarrow> real" where
  "budget rl key capacity rate T0 T1 =
     (case map_of (rl_local rl) key of
        None \<Rightarrow> capacity + (T1 - T0) * rate
      | Some b \<Rightarrow> bk_tokens b + (T1 - bk_ts b) * rate)"

definition bucket_ok :: "rate_limiter \<Rightarrow> string \<Rightarrow> real \<Rightarrow> bool" where
  "bucket_ok rl key T \<longleftrightarrow> (\<forall>b. map_of (rl_local rl) key = Some b \<longrightarrow> 0 \<le> bk_tokens b \<and> bk_ts b \<le> T)"

subsection \<open>The contract of a token bucket\<close>

locale token_bucket =
  fixes grab :: "real \<Rightarrow> 'b \<Rightarrow> bool \<times> 'b" and tokens stamp :: "'b \<Rightarrow> real" and capacity rate :: real
  assumes grab_allowed: "fst (grab now b) \<longleftrightarrow> 1 \<le> min capacity (tokens b + max 0 (now - stamp b) * rate)"
    and grab_tokens: "tokens (snd (grab now b)) =
      min capacity (tokens b + max 0 (now - stamp b) * rate) - (if fst (grab now b) then 1 else 0)"
    and grab_stamp: "stamp (snd (grab now b)) = now"
begin

lemma grab_bounds:
  assumes "0 \<le> capacity" "0 \<le> rate" "0 \<le> tokens b"
  shows "0 \<le> tokens (snd (grab now b))" "tokens (snd (grab now b)) \<le> capacity"
proof -
  have "0 \<le> max 0 (now - stamp b) * rate" using assms by simp
  then show "0 \<le> tokens (snd (grab now b))" "tokens (snd (grab now b)) \<le> capacity"
    using grab_allowed [of now b] grab_tokens [of now b] assms by auto
qed

text \<open>However the requests are spread, the allowed ones are paid for by the initial tokens and the refill.\<close>

lemma run_bound:
  assumes "0 \<le> capacity" "0 \<le> rate" "0 \<le> tokens b" "sorted (stamp b # ts)"
    "run_grabs grab ts b = (as, b')"
  shows "real (count_list as True) + tokens b' \<le> tokens b + (last (stamp b # ts) - stamp b) * rate
    \<and> 0 \<le> tokens b'"
  using assms
proof (induction ts arbitrary: b as)
  case Nil
  then show ?case by simp
next
  case (Cons t ts)
  obtain a b1 where t: "grab t b = (a, b1)" by force
  obtain as' where r: "run_grabs grab ts b1 = (as', b')" "as = a # as'"
    using Cons.prems(5) t by (auto split: prod.splits)
  have b1: "0 \<le> tokens b1" "stamp b1 = t" using grab_bounds [OF Cons.prems(1-3), of t] grab_stamp [of t b] t by simp_all
  have le: "stamp b \<le> t" using Cons.prems(4) by simp
  have IH: "real (count_list as' True) + tokens b' \<le> tokens b1 + (last (t # ts) - t) * rate \<and> 0 \<le> tokens b'"
    using Cons.IH [OF Cons.prems(1,2) b1(1) _ r(1)] Cons.prems(4) b1(2) by simp
  have "tokens b1 + (if a then 1 else 0) \<le> tokens b + (t - stamp b) * rate"
    using grab_tokens [of t b] t le by auto
  moreover have "(last (t # ts) - t) * rate + (t - stamp b) * rate = (last (t # ts) - stamp b) * rate"
    by (simp add: algebra_simps)
  moreover have "last (stamp b # t # ts) = last (t # ts)" by simp
  ultimately show ?case using IH r(2) by (cases a) auto
qed

lemma wait_then_allowed:
  assumes "1 \<le> capacity" "0 < rate" "\<not> fst (grab now b)"
    "w \<ge> (1 - tokens (snd (grab now b))) / rate"
  shows "fst (grab (now + w) (snd (grab now b)))"
proof -
  let ?b = "snd (grab now b)"
  have lt: "tokens ?b < 1"
    using grab_allowed [of now b] grab_tokens [of now b] assms(1,3) by auto
  then have w: "0 \<le> w" using assms(2,4) by (smt (verit) divide_nonneg_pos)
  have "1 - tokens ?b \<le> w * rate" using assms(2,4) by (simp add: pos_divide_le_eq)
  then show ?thesis using grab_allowed [of "now + w" ?b] grab_stamp [of now b] assms(1) w by simp
qed

end

interpretation lua: token_bucket "script_grab capacity rate" bk_tokens bk_ts capacity rate
  by unfold_locales (auto simp: script_grab_def script_def Let_def)

interpretation loc: token_bucket "local_grab key capacity rate" bk_tokens bk_ts capacity rate
  by unfold_locales (auto simp: local_grab_def check_local_def Let_def)

subsection \<open>The limiter without Redis\<close>

lemma check_local_grab:
  assumes "check_local now key cap rate rl = (r, rl1)" "rate \<noteq> 0"
  shows "was_allowed r = fst (local_grab key cap rate now (bucket_of rl key cap now))"
    and "rl_local rl1 = AList.update key (snd (local_grab key cap rate now (bucket_of rl key cap now))) (rl_local rl)"
    and "rl_burst_ratio rl1 = rl_burst_ratio rl"
proof -
  define b where "b = bucket_of rl key cap now"
  define x where "x = min cap (bk_tokens b + max 0 (now - bk_ts b) * rate)"
  have l: "local_grab key cap rate now b = (1 \<le> x, \<lparr>bk_tokens = if 1 \<le> x then x - 1 else x, bk_ts = now\<rparr>)"
    using assms(2) by (simp add: local_grab_def check_local_def Let_def x_def)
  have c: "rl1 = rl\<lparr>rl_local := AList.update key \<lparr>bk_tokens = if 1 \<le> x then x - 1 else x, bk_ts = now\<rparr> (rl_local rl)\<rparr>"
    "was_allowed r = (1 \<le> x)"
    using assms unfolding check_local_def bucket_of_def [symmetric] b_def [symmetric] Let_def x_def [symmetric]
    by (auto simp: was_allowed_def split: if_splits)
  show "was_allowed r = fst (local_grab key cap rate now (bucket_of rl key cap now))"
    "rl_local rl1 = AList.update key (snd (local_grab key cap rate now (bucket_of rl key cap now))) (rl_local rl)"
    "rl_burst_ratio rl1 = rl_burst_ratio rl"
    using l c by (simp_all add: b_def)
qed

lemma rl_check_None:
  assumes "rl_check None now t k l (rl, ()) = (r, rl1, u)" "l \<noteq> 0"
  shows "was_allowed r = fst (local_grab (rate_limit_key t k) (capacity_of (rl_burst_ratio rl) l) (of_int l / 60) now
           (bucket_of rl (rate_limit_key t k) (capacity_of (rl_burst_ratio rl) l) now))"
    and "rl_local rl1 = AList.update (rate_limit_key t k)
           (snd (local_grab (rate_limit_key t k) (capacity_of (rl_burst_ratio rl) l) (of_int l / 60) now
             (bucket_of rl (rate_limit_key t k) (capacity_of (rl_burst_ratio rl) l) now))) (rl_local rl)"
    and "rl_burst_ratio rl1 = rl_burst_ratio rl"
proof -
  let ?k = "rate_limit_key t k" and ?c = "capacity_of (rl_burst_ratio rl) l" and ?r = "of_int l / 60 :: real"
  obtain r0 rl0 where c: "check_local now ?k ?c ?r rl = (r0, rl0)" by force
  have "was_allowed r = was_allowed r0" "rl1 = rl0"
    using assms(1) c by (auto simp: rl_check_def Let_def was_allowed_def split: sum.splits)
  then show "was_allowed r = fst (local_grab ?k ?c ?r now (bucket_of rl ?k ?c now))"
    "rl_local rl1 = AList.update ?k (snd (local_grab ?k ?c ?r now (bucket_of rl ?k ?c now))) (rl_local rl)"
    "rl_burst_ratio rl1 = rl_burst_ratio rl"
    using check_local_grab [OF c] assms(2) by simp_all
qed

lemma budget_grab:
  assumes "bucket_ok rl key now" "T0 \<le> now" "now \<le> T1" "0 \<le> capacity" "0 \<le> rate"
    and g: "local_grab key capacity rate now (bucket_of rl key capacity now) = (a, b)"
  shows "bk_tokens b + (T1 - bk_ts b) * rate + (if a then 1 else 0) \<le> budget rl key capacity rate T0 T1"
    and "0 \<le> bk_tokens b" "bk_ts b = now"
proof -
  let ?b = "bucket_of rl key capacity now"
  have b0: "0 \<le> bk_tokens ?b" "bk_ts ?b \<le> now" using assms(1,4) by (auto simp: bucket_of_def bucket_ok_def split: option.splits)
  show ts: "bk_ts b = now" using loc.grab_stamp [of key capacity rate now ?b] g by simp
  show "0 \<le> bk_tokens b" using loc.grab_bounds(1) [OF assms(4,5) b0(1), of key now] g by simp
  have "bk_tokens b + (if a then 1 else 0) \<le> bk_tokens ?b + (now - bk_ts ?b) * rate"
    using loc.grab_tokens [of key capacity rate now ?b] g b0(2) by (auto simp: max_def)
  moreover have "bk_tokens ?b + (T1 - bk_ts ?b) * rate \<le> budget rl key capacity rate T0 T1"
    using assms(2,5) by (auto simp: budget_def bucket_of_def mult_right_mono split: option.splits)
  moreover have "(now - bk_ts ?b) * rate + (T1 - now) * rate = (T1 - bk_ts ?b) * rate" by (simp add: algebra_simps)
  ultimately show "bk_tokens b + (T1 - bk_ts b) * rate + (if a then 1 else 0) \<le> budget rl key capacity rate T0 T1"
    unfolding ts by linarith
qed

lemma rl_run_bound:
  assumes "\<forall>t. 0 < limit t" "CHR '':'' \<notin> set k" "\<forall>(now, t', k') \<in> set rs. T0 \<le> now \<and> now \<le> T1 \<and> CHR '':'' \<notin> set k'"
    "sorted (map fst rs)" "rs = [] \<or> bucket_ok rl (rate_limit_key t k) (fst (hd rs))" "bucket_ok rl (rate_limit_key t k) T1"
    "T0 \<le> T1" "rl_run limit rs rl = (as, rl')"
  shows "real (count_list as ((t, k), True)) \<le>
    budget rl (rate_limit_key t k) (capacity_of (rl_burst_ratio rl) (limit t)) (of_int (limit t) / 60) T0 T1"
  using assms
proof (induction rs arbitrary: rl as)
  case Nil
  let ?rate = "of_int (limit t) / (60 :: real)"
  have r: "0 \<le> ?rate" using Nil.prems(1) [rule_format, of t] by simp
  then have "0 \<le> (T1 - T0) * ?rate" "\<And>b. bk_ts b \<le> T1 \<Longrightarrow> 0 \<le> (T1 - bk_ts b) * ?rate" using Nil.prems(7) by auto
  with Nil.prems show ?case by (fastforce simp: budget_def bucket_ok_def capacity_of_def split: option.splits)
next
  case (Cons req rs)
  obtain now t' k' where req: "req = (now, t', k')" by (cases req)
  let ?key = "rate_limit_key t k" and ?cap = "capacity_of (rl_burst_ratio rl) (limit t)" and ?rate = "of_int (limit t) / (60 :: real)"
  obtain r rl1 u where c: "rl_check None now t' k' (limit t') (rl, ()) = (r, rl1, u)" by (cases "rl_check None now t' k' (limit t') (rl, ())") auto
  obtain as' where as: "rl_run limit rs rl1 = (as', rl')" "as = ((t', k'), was_allowed r) # as'"
    using Cons.prems(8) by (auto simp: req c split: prod.splits)
  have "limit t' \<noteq> 0" using Cons.prems(1) by (metis less_irrefl)
  note st = rl_check_None [OF c this]
  have times: "T0 \<le> now" "now \<le> T1" "CHR '':'' \<notin> set k'" "\<forall>(n, x, y) \<in> set rs. now \<le> n" "bucket_ok rl ?key now"
    using Cons.prems(3,4,5) by (auto simp: req)
  have later: "rs = [] \<or> now \<le> fst (hd rs)" using times(4) by (cases rs) auto
  have nonneg: "0 \<le> ?cap" "0 \<le> ?rate" using Cons.prems(1) [rule_format, of t] by (simp_all add: capacity_of_def)
  show ?case
  proof (cases "rate_limit_key t' k' = ?key")
    case True
    then have tk: "t' = t" "k' = k" using rate_limit_key_inject Cons.prems(2) times(3) by blast+
    obtain a b where g: "local_grab ?key ?cap ?rate now (bucket_of rl ?key ?cap now) = (a, b)" by force
    note bg = budget_grab [OF times(5,1,2) nonneg g]
    have m: "map_of (rl_local rl1) ?key = Some b" "was_allowed r = a" using st g tk by simp_all
    then have "bucket_ok rl1 ?key now" using bg(2,3) by (simp add: bucket_ok_def)
    then have "rs = [] \<or> bucket_ok rl1 ?key (fst (hd rs))" "bucket_ok rl1 ?key T1"
      using later times(2) by (auto simp: bucket_ok_def)
    with Cons.IH [OF Cons.prems(1,2) _ _ _ _ Cons.prems(7) as(1)] Cons.prems(3,4)
    have "real (count_list as' ((t, k), True)) \<le> bk_tokens b + (T1 - bk_ts b) * ?rate"
      by (simp add: budget_def m st(3))
    then show ?thesis using bg(1) m(2) by (auto simp: as(2) tk split: if_splits)
  next
    case False
    have m: "map_of (rl_local rl1) ?key = map_of (rl_local rl) ?key" using st(2) False by simp
    then have ok: "bucket_ok rl1 ?key now" "bucket_ok rl1 ?key T1" using times(5) Cons.prems(6) by (simp_all add: bucket_ok_def)
    then have "rs = [] \<or> bucket_ok rl1 ?key (fst (hd rs))" using later by (auto simp: bucket_ok_def)
    with Cons.IH [OF Cons.prems(1,2) _ _ _ ok(2) Cons.prems(7) as(1)] Cons.prems(3,4)
    have "real (count_list as' ((t, k), True)) \<le> budget rl ?key ?cap ?rate T0 T1"
      by (simp add: budget_def m st(3))
    moreover have "(t', k') \<noteq> (t, k)" using False by auto
    ultimately show ?thesis by (auto simp: as(2))
  qed
qed

lemma rl_check_denied:
  assumes "rl_check None now t k l (rl, ()) = (Inr d, rl1, ())" "\<not> rd_allowed d" "l \<noteq> 0"
  shows "\<exists>b. map_of (rl_local rl1) (rate_limit_key t k) = Some b \<and> bk_tokens b < 1 \<and> bk_ts b = now \<and>
    rd_retry_after_seconds d = Seconds ((1 - bk_tokens b) / (of_int l / 60)) \<and> rl_burst_ratio rl1 = rl_burst_ratio rl"
  using assms
  by (auto simp: rl_check_def check_local_def Let_def split: if_splits option.splits)

subsection \<open>Properties\<close>

text \<open>
  C15: In any interleaving of requests of all tenants and buckets at one process, the requests of
  one tenant to one bucket that are allowed between \<open>T0\<close> and \<open>T1\<close> number at most the burst capacity plus
  the refill over that time; what other tenants or buckets do is irrelevant.
\<close>

theorem local_rate_bound:
  assumes "\<forall>t. 0 < limit t" "CHR '':'' \<notin> set k" "\<forall>(now, t', k') \<in> set rs. T0 \<le> now \<and> now \<le> T1 \<and> CHR '':'' \<notin> set k'"
    "sorted (map fst rs)" "T0 \<le> T1" "rl_local rl = []"
  shows "real (count_list (fst (rl_run limit rs rl)) ((t, k), True)) \<le>
    capacity_of (rl_burst_ratio rl) (limit t) + of_int (limit t) / 60 * (T1 - T0)"
proof -
  obtain as rl' where r: "rl_run limit rs rl = (as, rl')" by force
  have "bucket_ok rl (rate_limit_key t k) T" for T using assms(6) by (simp add: bucket_ok_def)
  from rl_run_bound [OF assms(1-4) disjI2 [OF this] this assms(5) r] show ?thesis
    using assms(6) by (simp add: r budget_def mult.commute)
qed

theorem local_rate_bound_witness:
  "real (count_list (fst (rl_run (\<lambda>_. 60) [(0, ''acme'', ''read''), (1, ''globex'', ''read''), (2, ''acme'', ''read'')]
       \<lparr>rl_burst_ratio = 1/4, rl_local = []\<rparr>)) ((''acme'', ''read''), True))
   \<le> capacity_of (1/4) 60 + of_int 60 / 60 * (2 - 0)"
  using local_rate_bound [of "\<lambda>_. 60" "''read''"
      "[(0, ''acme'', ''read''), (1, ''globex'', ''read''), (2, ''acme'', ''read'')]" 0 2
      "\<lparr>rl_burst_ratio = 1/4, rl_local = []\<rparr>" "''acme''"]
  by simp

text \<open>
  The Redis script keeps the same bound: from a bucket with a non-negative number of tokens,
  requests at non-decreasing times are allowed at most as often as the stored tokens and the refill since the
  bucket's time stamp pay for.
\<close>

theorem script_rate_bound:
  assumes "0 \<le> capacity" "0 \<le> rate" "0 \<le> bk_tokens b" "sorted (bk_ts b # ts)"
  shows "real (count_list (fst (run_grabs (script_grab capacity rate) ts b)) True)
    \<le> bk_tokens b + (last (bk_ts b # ts) - bk_ts b) * rate"
proof -
  obtain as b' where r: "run_grabs (script_grab capacity rate) ts b = (as, b')" by force
  from lua.run_bound [OF assms r] show ?thesis by (simp add: r)
qed

theorem script_rate_bound_witness:
  "real (count_list (fst (run_grabs (script_grab 30 2) [1, 1, 3] \<lparr>bk_tokens = 1, bk_ts = 0\<rparr>)) True)
    \<le> 1 + (3 - 0) * (2 :: real)"
  using script_rate_bound [of 30 2 "\<lparr>bk_tokens = 1, bk_ts = 0\<rparr>" "[1, 1, 3]"] by simp





text \<open>
  A tenant whose quota is zero is not throttled with 429: once its local bucket is empty, the limiter
  divides by the refill rate zero and raises.
\<close>

theorem zero_limit_raises:
  assumes "map_of (rl_local rl) (rate_limit_key t k) = Some b" "bk_tokens b < 1"
  shows "fst (rl_check None now t k 0 (rl, ())) = Inl ZeroDivisionErr"
  using assms by (simp add: rl_check_def check_local_def Let_def)

theorem zero_limit_raises_witness:
  "fst (rl_check None 1 ''acme'' ''read'' 0
     (\<lparr>rl_burst_ratio = 1/4, rl_local = [(rate_limit_key ''acme'' ''read'', \<lparr>bk_tokens = 0, bk_ts = 0\<rparr>)]\<rparr>, ()))
   = Inl ZeroDivisionErr"
  by (rule zero_limit_raises [of _ _ _ "\<lparr>bk_tokens = 0, bk_ts = 0\<rparr>"]) simp_all

end
