(* ===== verification/Health.thy ===== *)
theory Health
  imports Cache Queue InMemory_Engine Documents
begin

text \<open>
  \<open>services/health_service.py\<close>, \<open>schemas/health.py\<close>, the probes of \<open>container.py\<close> and the routes of
  \<open>api/routes/health.py\<close>.  A probe is run concurrently with the others and bounded by a timeout; its
  outcome here is what \<open>wait_for(probe.check())\<close> yields, an expired timeout being an exception,
  together with the elapsed seconds.
\<close>

record probe =
  pb_name :: string
  pb_critical :: bool
  pb_check :: "bool result"

record dependency_health =
  dh_name :: string
  dh_status :: string
  dh_critical :: bool
  dh_latency_ms :: real

record health_response =
  hr_status :: string
  hr_service :: string
  hr_environment :: string
  hr_dependencies :: "dependency_health list"

definition run_probe :: "probe \<Rightarrow> real \<Rightarrow> dependency_health" where
  "run_probe p elapsed =
     (let ok = (case pb_check p of Inr b \<Rightarrow> b | Inl e \<Rightarrow> False)
      in \<lparr>dh_name = pb_name p, dh_status = (if ok then ''up'' else ''down''), dh_critical = pb_critical p,
          dh_latency_ms = py_round 2 (elapsed * 1000)\<rparr>)"

definition health_check :: "string \<Rightarrow> string \<Rightarrow> (probe \<times> real) list \<Rightarrow> health_response" where
  "health_check service environ probes =
     (let results = map (\<lambda>(p, elapsed). run_probe p elapsed) probes;
          status = (if \<exists>r \<in> set results. dh_status r = ''down'' \<and> dh_critical r then ''unhealthy''
                    else if \<exists>r \<in> set results. dh_status r = ''down'' then ''degraded''
                    else ''healthy'')
      in \<lparr>hr_status = status, hr_service = service, hr_environment = environ, hr_dependencies = results\<rparr>)"

definition db_ping :: "database \<Rightarrow> bool result" where
  "db_ping db = (if \<not> db_up db then Inl DatabaseErr else Inr True)"

definition build_health ::
  "'c cache_ops \<Rightarrow> bool \<Rightarrow> 'e engine_ops \<Rightarrow> 'p publisher_ops \<Rightarrow> database \<Rightarrow> 'c \<Rightarrow> 'e \<Rightarrow> 'p \<Rightarrow> probe list" where
  "build_health B timely E P db c e p =
     [\<lparr>pb_name = ''postgres'', pb_critical = True, pb_check = db_ping db\<rparr>,
      \<lparr>pb_name = ''opensearch'', pb_critical = True, pb_check = fst (e_ping E e)\<rparr>,
      \<lparr>pb_name = ''redis'', pb_critical = False, pb_check = Inr (fst (cc_ping B timely c))\<rparr>,
      \<lparr>pb_name = ''rabbitmq'', pb_critical = False, pb_check = fst (pub_ping P p)\<rparr>]"

definition container_health ::
  "'c cache_ops \<Rightarrow> bool \<Rightarrow> 'e engine_ops \<Rightarrow> 'p publisher_ops \<Rightarrow> settings \<Rightarrow> real list \<Rightarrow> database \<Rightarrow> 'c \<Rightarrow> 'e \<Rightarrow> 'p
   \<Rightarrow> health_response" where
  "container_health B timely E P st elapsed db c e p =
     health_check (app_name st) (environment st) (zip (build_health B timely E P db c e p) elapsed)"

definition health_route :: "health_response \<Rightarrow> int \<times> health_response" where
  "health_route result = (if hr_status result = ''unhealthy'' then 503 else 200, result)"

definition liveness_route :: "int \<times> (string \<times> string) list" where
  "liveness_route = (200, [(''status'', ''alive'')])"

definition readiness_route :: "health_response \<Rightarrow> int \<times> (string \<times> string) list" where
  "readiness_route result =
     (let ready = (hr_status result \<noteq> ''unhealthy'')
      in (if ready then 200 else 503, [(''status'', if ready then ''ready'' else ''not_ready'')]))"

subsection \<open>Lemmas\<close>

lemma probe_down: "dh_status (run_probe p t) = ''down'' \<longleftrightarrow> pb_check p \<noteq> Inr True"
  by (auto simp: run_probe_def Let_def split: sum.splits)

lemma probe_critical [simp]: "dh_critical (run_probe p t) = pb_critical p"
  by (simp add: run_probe_def Let_def)

lemma health_status:
  "hr_status (health_check s en ps) =
     (if \<exists>(p, t) \<in> set ps. pb_check p \<noteq> Inr True \<and> pb_critical p then ''unhealthy''
      else if \<exists>(p, t) \<in> set ps. pb_check p \<noteq> Inr True then ''degraded'' else ''healthy'')"
  by (auto simp: health_check_def Let_def probe_down split_def)

subsection \<open>Properties\<close>

text \<open>
  The verdict of \<open>/health\<close> and \<open>/health/ready\<close>: 503 exactly when the database or the search engine
  does not answer its ping positively; an outage of the cache or of the queue only degrades, and the
  status is \<open>healthy\<close> exactly when all four answer positively.
\<close>

theorem health_verdict:
  assumes "h = container_health B timely E P st [x1, x2, x3, x4] db c e p"
  shows "(fst (health_route h) = 503 \<longleftrightarrow> \<not> db_up db \<or> fst (e_ping E e) \<noteq> Inr True) \<and>
    fst (readiness_route h) = fst (health_route h) \<and>
    (hr_status h = ''healthy'' \<longleftrightarrow>
       db_up db \<and> fst (e_ping E e) = Inr True \<and> fst (cc_ping B timely c) \<and> fst (pub_ping P p) = Inr True) \<and>
    (hr_status h = ''degraded'' \<longleftrightarrow>
       db_up db \<and> fst (e_ping E e) = Inr True \<and> (\<not> fst (cc_ping B timely c) \<or> fst (pub_ping P p) \<noteq> Inr True))"
  unfolding assms health_route_def readiness_route_def
  by (auto simp: container_health_def health_status build_health_def db_ping_def Let_def)

theorem health_verdict_witness:
  "fst (health_route (container_health inmemory_ops True (inmemory_engine_ops id 0) inmemory_publisher_ops
      default_settings [0, 0, 0, 0] \<lparr>db_documents = [], db_tenants = [], db_up = True\<rparr>
      new_inmemory_cache \<lparr>ie_docs = [], ie_available = False\<rparr> new_inmemory_publisher)) = 503"
  using health_verdict [OF refl, of inmemory_ops True "inmemory_engine_ops id 0" inmemory_publisher_ops
      default_settings 0 0 0 0 "\<lparr>db_documents = [], db_tenants = [], db_up = True\<rparr>"
      new_inmemory_cache "\<lparr>ie_docs = [], ie_available = False\<rparr>" new_inmemory_publisher]
  by (simp add: inmemory_engine_ops_def ie_ping_def)

end
