(* ===== verification/Api.thy ===== *)
theory Api
  imports Document_Service Rate_Limiter Health
begin

text \<open>
  \<open>api/deps.py\<close>, \<open>api/routes/documents.py\<close>, \<open>api/routes/search.py\<close>,
  \<open>middleware/request_context.py\<close>: a protected request is authenticated, rate limited, its
  parameters are validated, and the handler runs; the middleware adds the headers.

  \<open>services\<close> bundles the adapters and settings of the container, \<open>app_world\<close> their states and the
  database, \<open>readings\<close> what a request reads from the clocks and generators and the outcome of
  \<open>COMMIT\<close> (\<open>rg_errors\<close>: what the framework reports of invalid parameters).  \<open>hexdigest\<close> (SHA-256) and \<open>parse_path\<close> (the framework's UUID converter) are parameters, as is
  \<open>json_loads\<close>, used only for a tenant entry that is a JSON string.  A handler
  answers a typed payload; an exception is turned into its envelope by \<open>handle_exn\<close>.  The
  parameters of \<open>/search\<close> arrive as the converted query values.
\<close>

record ('c, 'p, 'e, 's) services =
  sv_cache :: "'c cache_ops"
  sv_pub :: "'p publisher_ops"
  sv_engine :: "'e engine_ops"
  sv_script :: "'s script_client option"
  sv_codec :: codec
  sv_hexdigest :: "string \<Rightarrow> string"
  sv_json_loads :: "string \<Rightarrow> json result"
  sv_settings :: settings

record ('c, 'p, 'e, 's) app_world =
  aw_db :: database
  aw_cache :: 'c
  aw_pub :: 'p
  aw_engine :: 'e
  aw_limiter :: rate_limiter
  aw_script :: 's

record readings =
  rg_t1 :: real
  rg_t2 :: real
  rg_t3 :: real
  rg_t4 :: real
  rg_t5 :: real
  rg_mono :: real
  rg_created :: datetime
  rg_updated :: datetime
  rg_uuid :: uuid
  rg_event_id :: string
  rg_occurred :: string
  rg_commit_ok :: bool
  rg_took :: int
  rg_random :: real
  rg_request_id :: string
  rg_errors :: "validation_item list"

datatype payload =
    Accepted document_accepted
  | DocumentBody document_response
  | SearchBody search_response
  | EmptyBody
  | ErrorBody json

record response =
  rsp_status :: int
  rsp_headers :: "(string \<times> string) list"
  rsp_payload :: payload

definition hash_api_key :: "(string \<Rightarrow> string) \<Rightarrow> string \<Rightarrow> string" where
  "hash_api_key hexdigest api_key = hexdigest api_key"

definition tenant_json :: "tenant \<Rightarrow> json" where
  "tenant_json t =
     JObj [(''id'', JStr (tn_id t)), (''name'', JStr (tn_name t)), (''api_key_hash'', JStr (tn_api_key_hash t)),
           (''status'', JStr (tn_status t)), (''rate_limit_per_minute'', JInt (tn_rate_limit_per_minute t))]"

text \<open>
  \<open>Tenant(**cached)\<close>.  Entries under a tenant key are written with exactly the five columns below; a
  dictionary with other keys or types is a \<open>TypeErr\<close>.
\<close>

definition tenant_of_json :: "json \<Rightarrow> tenant result" where
  "tenant_of_json j =
     (case j of
        JObj [(a, JStr i), (b, JStr n), (c, JStr h), (d, JStr s), (e, JInt r)] \<Rightarrow>
          if [a, b, c, d, e] = [''id'', ''name'', ''api_key_hash'', ''status'', ''rate_limit_per_minute'']
          then Inr \<lparr>tn_id = i, tn_name = n, tn_api_key_hash = h, tn_status = s, tn_rate_limit_per_minute = r\<rparr>
          else Inl TypeErr
      | _ \<Rightarrow> Inl TypeErr)"

definition cached_tenant :: "(string \<Rightarrow> json result) \<Rightarrow> json \<Rightarrow> tenant result" where
  "cached_tenant loads cached =
     (case cached of JStr s \<Rightarrow> rbind (loads s) tenant_of_json | _ \<Rightarrow> tenant_of_json cached)"

definition get_current_tenant ::
  "('c, 'p, 'e, 's) services \<Rightarrow> real \<Rightarrow> real \<Rightarrow> string option \<Rightarrow> database \<Rightarrow> 'c \<Rightarrow> tenant result \<times> 'c" where
  "get_current_tenant sv t1 t2 x_api_key db c =
     (case x_api_key of
        None \<Rightarrow> (Inl (AppErr (UnauthorizedError (Some ''Missing X-API-Key header.''))), c)
      | Some api_key \<Rightarrow>
          if api_key = [] then (Inl (AppErr (UnauthorizedError (Some ''Missing X-API-Key header.''))), c)
          else
            (let key_hash = hash_api_key (sv_hexdigest sv) api_key; cache_key = tenant_key key_hash
             in case get_json (sv_cache sv) t1 cache_key c of
                  (Some cached, c1) \<Rightarrow> (cached_tenant (sv_json_loads sv) cached, c1)
                | (None, c1) \<Rightarrow>
                    (case get_by_api_key_hash key_hash db of
                       Inl e \<Rightarrow> (Inl e, c1)
                     | Inr None \<Rightarrow> (Inl (AppErr (UnauthorizedError None)), c1)
                     | Inr (Some tenant) \<Rightarrow>
                         (Inr tenant,
                          set_json (sv_cache sv) t2 cache_key (tenant_json tenant)
                            (tenant_cache_ttl_seconds (sv_settings sv)) c1))))"

definition enforce_tenant_scope :: "string option \<Rightarrow> tenant \<Rightarrow> string result" where
  "enforce_tenant_scope requested_tenant tenant =
     (case requested_tenant of
        Some r \<Rightarrow>
          if r \<noteq> [] \<and> r \<noteq> tn_id tenant
          then Inl (AppErr (ForbiddenError (Some ''The requested tenant does not match the authenticated tenant.'')))
          else Inr (tn_id tenant)
      | None \<Rightarrow> Inr (tn_id tenant))"

text \<open>An infinite wait makes the handler of \<open>RateLimitedError\<close> raise when it converts it to an integer.\<close>

definition throttled :: "wait \<Rightarrow> int \<Rightarrow> exn" where
  "throttled w limit =
     (case w of Seconds r \<Rightarrow> AppErr (RateLimitedError r limit) | Forever \<Rightarrow> OverflowErr)"

definition rate_limited ::
  "('c, 'p, 'e, 's) services \<Rightarrow> real \<Rightarrow> string \<Rightarrow> tenant \<Rightarrow> ('c, 'p, 'e, 's) app_world
   \<Rightarrow> unit result \<times> rate_limit_decision option \<times> ('c, 'p, 'e, 's) app_world" where
  "rate_limited sv now bucket tenant w =
     (case rl_check (sv_script sv) now (tn_id tenant) bucket (tn_rate_limit_per_minute tenant)
             (aw_limiter w, aw_script w) of
        (Inl e, rl, s) \<Rightarrow> (Inl e, None, w\<lparr>aw_limiter := rl, aw_script := s\<rparr>)
      | (Inr d, rl, s) \<Rightarrow>
          (if rd_allowed d then Inr ()
           else Inl (throttled (rd_retry_after_seconds d) (tn_rate_limit_per_minute tenant)),
           Some d, w\<lparr>aw_limiter := rl, aw_script := s\<rparr>))"

text \<open>Authentication and rate limiting in front of every protected handler.\<close>

definition protect ::
  "('c, 'p, 'e, 's) services \<Rightarrow> readings \<Rightarrow> string \<Rightarrow> string option \<Rightarrow> ('c, 'p, 'e, 's) app_world
   \<Rightarrow> tenant result \<times> rate_limit_decision option \<times> ('c, 'p, 'e, 's) app_world" where
  "protect sv rg bucket x_api_key w =
     (case get_current_tenant sv (rg_t1 rg) (rg_t2 rg) x_api_key (aw_db w) (aw_cache w) of
        (Inl e, c1) \<Rightarrow> (Inl e, None, w\<lparr>aw_cache := c1\<rparr>)
      | (Inr tenant, c1) \<Rightarrow>
          (case rate_limited sv (rg_mono rg) bucket tenant (w\<lparr>aw_cache := c1\<rparr>) of
             (Inl e, d, w1) \<Rightarrow> (Inl e, d, w1)
           | (Inr _, d, w1) \<Rightarrow> (Inr tenant, d, w1)))"

definition to_doc_world :: "('c, 'p, 'e, 's) app_world \<Rightarrow> ('c, 'p) doc_world" where
  "to_doc_world w = \<lparr>w_db = aw_db w, w_cache = aw_cache w, w_pub = aw_pub w\<rparr>"

definition with_doc_world :: "('c, 'p, 'e, 's) app_world \<Rightarrow> ('c, 'p) doc_world \<Rightarrow> ('c, 'p, 'e, 's) app_world" where
  "with_doc_world w d = w\<lparr>aw_db := w_db d, aw_cache := w_cache d, aw_pub := w_pub d\<rparr>"

definition create_document ::
  "('c, 'p, 'e, 's) services \<Rightarrow> readings \<Rightarrow> (string \<times> json) list \<Rightarrow> tenant \<Rightarrow> ('c, 'p, 'e, 's) app_world
   \<Rightarrow> response result \<times> ('c, 'p, 'e, 's) app_world" where
  "create_document sv rg body tenant w =
     (case validate_document_create body of
        Inl bad \<Rightarrow> (Inl ValidationErr, w)
      | Inr payload \<Rightarrow>
          (case ds_create (sv_cache sv) (sv_pub sv) (rg_t3 rg) (rg_created rg) (rg_updated rg) (rg_uuid rg)
                  (rg_event_id rg) (rg_occurred rg) (rg_commit_ok rg) (tn_id tenant) payload (to_doc_world w) of
             (Inl e, d) \<Rightarrow> (Inl e, with_doc_world w d)
           | (Inr document, d) \<Rightarrow>
               (Inr \<lparr>rsp_status = 202,
                     rsp_headers = [(''Location'', ''/documents/'' @ str_uuid (doc_id document))],
                     rsp_payload = Accepted
                       \<lparr>da_id = doc_id document, da_tenant_id = doc_tenant_id document,
                        da_status = status_value (doc_status document), da_version = doc_version document,
                        da_created_at = doc_created_at document\<rparr>\<rparr>,
                with_doc_world w d)))"

definition get_document ::
  "('c, 'p, 'e, 's) services \<Rightarrow> readings \<Rightarrow> (string \<Rightarrow> uuid option) \<Rightarrow> string \<Rightarrow> tenant \<Rightarrow> ('c, 'p, 'e, 's) app_world
   \<Rightarrow> response result \<times> ('c, 'p, 'e, 's) app_world" where
  "get_document sv rg parse_path path_id tenant w =
     (case parse_path path_id of
        None \<Rightarrow> (Inl ValidationErr, w)
      | Some document_id \<Rightarrow>
          (case ds_get (sv_cache sv) (sv_codec sv) (sv_settings sv) (rg_t3 rg) (rg_t4 rg) (tn_id tenant) document_id
                  (to_doc_world w) of
             (Inl e, d) \<Rightarrow> (Inl e, with_doc_world w d)
           | (Inr r, d) \<Rightarrow>
               (Inr \<lparr>rsp_status = 200, rsp_headers = [], rsp_payload = DocumentBody r\<rparr>, with_doc_world w d)))"

definition delete_document ::
  "('c, 'p, 'e, 's) services \<Rightarrow> readings \<Rightarrow> (string \<Rightarrow> uuid option) \<Rightarrow> string \<Rightarrow> tenant \<Rightarrow> ('c, 'p, 'e, 's) app_world
   \<Rightarrow> response result \<times> ('c, 'p, 'e, 's) app_world" where
  "delete_document sv rg parse_path path_id tenant w =
     (case parse_path path_id of
        None \<Rightarrow> (Inl ValidationErr, w)
      | Some document_id \<Rightarrow>
          (case ds_delete (sv_cache sv) (sv_pub sv) (rg_t3 rg) (rg_updated rg) (rg_event_id rg) (rg_occurred rg)
                  (rg_commit_ok rg) (tn_id tenant) document_id (to_doc_world w) of
             (Inl e, d) \<Rightarrow> (Inl e, with_doc_world w d)
           | (Inr _, d) \<Rightarrow>
               (Inr \<lparr>rsp_status = 204, rsp_headers = [], rsp_payload = EmptyBody\<rparr>, with_doc_world w d)))"

record search_params =
  sp_q :: "string option"
  sp_tenant :: "string option"
  sp_page :: int
  sp_size :: int
  sp_fuzzy :: bool
  sp_highlight :: bool
  sp_facets :: bool

definition valid_params :: "search_params \<Rightarrow> bool" where
  "valid_params p \<longleftrightarrow>
     (case sp_q p of None \<Rightarrow> False | Some q \<Rightarrow> 1 \<le> length q \<and> length q \<le> 512) \<and>
     1 \<le> sp_page p \<and> sp_page p \<le> 1000 \<and> 1 \<le> sp_size p \<and> sp_size p \<le> 50"

definition search_query_of :: "settings \<Rightarrow> search_params \<Rightarrow> string \<Rightarrow> search_query result" where
  "search_query_of st p tenant_id =
     (let size = min (sp_size p) (max_page_size st)
      in if size = 0 then Inl ZeroDivisionErr
         else
           (let max_page = max 1 (max_result_window st div size)
            in Inr \<lparr>sq_tenant_id = tenant_id, sq_text = (case sp_q p of Some q \<Rightarrow> q | None \<Rightarrow> []),
                    sq_page = min (sp_page p) max_page, sq_size = size, sq_fuzzy = sp_fuzzy p,
                    sq_highlight = sp_highlight p, sq_facets = sp_facets p\<rparr>))"

definition search_documents ::
  "('c, 'p, 'e, 's) services \<Rightarrow> readings \<Rightarrow> search_params \<Rightarrow> tenant \<Rightarrow> ('c, 'p, 'e, 's) app_world
   \<Rightarrow> response result \<times> ('c, 'p, 'e, 's) app_world" where
  "search_documents sv rg p tenant w =
     (if \<not> valid_params p then (Inl ValidationErr, w)
      else
        (case enforce_tenant_scope (sp_tenant p) tenant of
           Inl e \<Rightarrow> (Inl e, w)
         | Inr tenant_id \<Rightarrow>
             (case search_query_of (sv_settings sv) p tenant_id of
                Inl e \<Rightarrow> (Inl e, w)
              | Inr query \<Rightarrow>
                  (case search_service_search (sv_cache sv) (sv_engine sv) (sv_codec sv) (sv_hexdigest sv)
                          (sv_settings sv) (rg_t3 rg) (rg_t4 rg) (rg_t5 rg) (rg_took rg) (rg_random rg) tenant_id query
                          (aw_cache w, aw_engine w) of
                     (Inl e, c, en) \<Rightarrow> (Inl e, w\<lparr>aw_cache := c, aw_engine := en\<rparr>)
                   | (Inr r, c, en) \<Rightarrow>
                       (Inr \<lparr>rsp_status = 200, rsp_headers = [], rsp_payload = SearchBody r\<rparr>,
                        w\<lparr>aw_cache := c, aw_engine := en\<rparr>)))))"

subsection \<open>Requests\<close>

datatype request =
    PostDocument "(string \<times> json) list"
  | GetDocument string
  | DeleteDocument string
  | GetSearch search_params

fun bucket_name :: "request \<Rightarrow> string" where
  "bucket_name (PostDocument b) = ''write''"
| "bucket_name (GetDocument i) = ''read''"
| "bucket_name (DeleteDocument i) = ''write''"
| "bucket_name (GetSearch p) = ''search''"

fun handler ::
  "('c, 'p, 'e, 's) services \<Rightarrow> readings \<Rightarrow> (string \<Rightarrow> uuid option) \<Rightarrow> request \<Rightarrow> tenant \<Rightarrow> ('c, 'p, 'e, 's) app_world
   \<Rightarrow> response result \<times> ('c, 'p, 'e, 's) app_world" where
  "handler sv rg pp (PostDocument b) = create_document sv rg b"
| "handler sv rg pp (GetDocument i) = get_document sv rg pp i"
| "handler sv rg pp (DeleteDocument i) = delete_document sv rg pp i"
| "handler sv rg pp (GetSearch p) = search_documents sv rg p"

definition endpoint ::
  "('c, 'p, 'e, 's) services \<Rightarrow> readings \<Rightarrow> (string \<Rightarrow> uuid option) \<Rightarrow> string option \<Rightarrow> request
   \<Rightarrow> ('c, 'p, 'e, 's) app_world \<Rightarrow> response result \<times> rate_limit_decision option \<times> ('c, 'p, 'e, 's) app_world" where
  "endpoint sv rg pp x_api_key req w =
     (case protect sv rg (bucket_name req) x_api_key w of
        (Inl e, d, w1) \<Rightarrow> (Inl e, d, w1)
      | (Inr tenant, d, w1) \<Rightarrow> (case handler sv rg pp req tenant w1 of (r, w2) \<Rightarrow> (r, d, w2)))"

text \<open>
  The middleware.  Domain errors and validation errors become responses inside it; any other exception
  passes through it and is answered by the outermost error handler, without its headers.
\<close>

definition error_response :: "http_response \<Rightarrow> response" where
  "error_response h = \<lparr>rsp_status = resp_status h, rsp_headers = resp_headers h, rsp_payload = ErrorBody (resp_body h)\<rparr>"

definition limit_headers :: "rate_limit_decision option \<Rightarrow> (string \<times> string) list \<Rightarrow> (string \<times> string) list" where
  "limit_headers d hs =
     (case d of
        None \<Rightarrow> hs
      | Some d \<Rightarrow>
          if rd_limit_per_minute d = 0 then hs
          else AList.update ''X-RateLimit-Remaining'' (str_int (max 0 (rd_remaining d)))
                 (AList.update ''X-RateLimit-Limit'' (str_int (rd_limit_per_minute d)) hs))"

definition inner_response :: "string \<Rightarrow> validation_item list \<Rightarrow> response result \<Rightarrow> response option" where
  "inner_response request_id errors r =
     (case r of
        Inr rsp \<Rightarrow> Some rsp
      | Inl (AppErr a) \<Rightarrow> Some (error_response (handle_app_error request_id a))
      | Inl ValidationErr \<Rightarrow> Some (error_response (handle_validation_error request_id errors))
      | Inl e \<Rightarrow> None)"

definition dispatch ::
  "('c, 'p, 'e, 's) services \<Rightarrow> readings \<Rightarrow> (string \<Rightarrow> uuid option) \<Rightarrow> string option \<Rightarrow> string option \<Rightarrow> request
   \<Rightarrow> ('c, 'p, 'e, 's) app_world \<Rightarrow> response \<times> ('c, 'p, 'e, 's) app_world" where
  "dispatch sv rg pp x_request_id x_api_key req w =
     (let request_id = (case x_request_id of
                          Some i \<Rightarrow> if i = [] then take 16 (rg_request_id rg) else i
                        | None \<Rightarrow> take 16 (rg_request_id rg))
      in case endpoint sv rg pp x_api_key req w of
           (r, d, w1) \<Rightarrow>
             (case inner_response request_id (rg_errors rg) r of
                None \<Rightarrow> (error_response (handle_unexpected request_id), w1)
              | Some rsp \<Rightarrow>
                  (rsp\<lparr>rsp_headers := limit_headers d (AList.update ''X-Request-ID'' request_id (rsp_headers rsp))\<rparr>, w1)))"

end
