(* ===== verification/Processor.thy ===== *)
theory Processor
  imports Document_Service
begin

text \<open>
  \<open>workers/processor.py\<close>: a batch of events is collapsed to the newest per document, the current
  rows are re-read, one bulk request is sent, confirmed documents are marked, and the search
  cache of each affected tenant is invalidated.  \<open>B = None\<close> is a processor without cache;
  \<open>set_order\<close> is the iteration order of the Python set of tenants; \<open>commit_ok\<close> the outcome of
  \<open>COMMIT\<close>.  The state is the database, the cache and the engine.
\<close>

record process_outcome =
  po_indexed :: "string list"
  po_deleted :: "string list"
  po_failed :: "string list"
  po_skipped :: "string list"

record ('c, 'e) proc_world =
  pw_db :: database
  pw_cache :: 'c
  pw_engine :: 'e

definition to_search_source :: "document \<Rightarrow> search_source" where
  "to_search_source d =
     \<lparr>src_document_id = str_uuid (doc_id d), src_tenant_id = doc_tenant_id d, src_title = doc_title d,
      src_content = doc_content d, src_content_type = doc_content_type d, src_tags = doc_tags d,
      src_metadata = doc_metadata d, src_version = doc_version d,
      src_created_at = isoformat (as_utc (doc_created_at d)),
      src_updated_at = isoformat (as_utc (doc_updated_at d))\<rparr>"

definition note_event :: "doc_event \<Rightarrow> (string \<times> doc_event) list \<Rightarrow> (string \<times> doc_event) list" where
  "note_event event latest =
     (case map_of latest (ev_document_id event) of
        None \<Rightarrow> AList.update (ev_document_id event) event latest
      | Some current \<Rightarrow>
          if ev_version event \<ge> ev_version current
          then AList.update (ev_document_id event) event latest else latest)"

definition latest_events :: "doc_event list \<Rightarrow> (string \<times> doc_event) list" where
  "latest_events events = fold note_event events []"

definition malformed_ids :: "string list \<Rightarrow> string list" where
  "malformed_ids ids = filter (\<lambda>i. parse_uuid i = None) ids"

definition parsed_ids :: "string list \<Rightarrow> uuid list" where
  "parsed_ids ids = List.map_filter parse_uuid ids"

definition rows_by_id :: "document list \<Rightarrow> string \<Rightarrow> document option" where
  "rows_by_id ds = map_of (map (\<lambda>d. (str_uuid (doc_id d), d)) ds)"

definition found_rows :: "document list \<Rightarrow> string list \<Rightarrow> (string \<times> document) list" where
  "found_rows ds ids = List.map_filter (\<lambda>i. map_option (\<lambda>d. (i, d)) (rows_by_id ds i)) ids"

definition op_for :: "string \<Rightarrow> document \<Rightarrow> engine_op" where
  "op_for i d =
     (if doc_status d = DELETED then DeleteOperation i (doc_tenant_id d) (doc_version d)
      else IndexOperation i (doc_tenant_id d) (doc_version d) (to_search_source d))"

definition invalidate_changed ::
  "'c cache_ops option \<Rightarrow> (string list \<Rightarrow> string list) \<Rightarrow> real \<Rightarrow> (string \<times> doc_event) list \<Rightarrow> process_outcome
   \<Rightarrow> 'c \<Rightarrow> 'c" where
  "invalidate_changed Bo set_order t latest outcome c =
     (case Bo of
        None \<Rightarrow> c
      | Some B \<Rightarrow>
          (let changed = po_indexed outcome @ po_deleted outcome;
               tenants = set_order (remdups (map ev_tenant_id (List.map_filter (map_of latest) changed)))
           in fold (\<lambda>tenant_id c. snd (cc_incr B t (search_generation_key tenant_id) c)) tenants c))"

definition write_batch ::
  "'c cache_ops option \<Rightarrow> 'e engine_ops \<Rightarrow> (string list \<Rightarrow> string list) \<Rightarrow> datetime \<Rightarrow> real \<Rightarrow> bool
   \<Rightarrow> (string \<times> doc_event) list \<Rightarrow> string list \<Rightarrow> (string \<times> document) list \<Rightarrow> ('c, 'e) proc_world
   \<Rightarrow> process_outcome result \<times> ('c, 'e) proc_world" where
  "write_batch Bo E set_order now t commit_ok latest skipped found w =
     (let operations = map (\<lambda>(i, d). op_for i d) found;
          index_ids = map fst (filter (\<lambda>(i, d). doc_status d \<noteq> DELETED) found);
          delete_ids = map fst (filter (\<lambda>(i, d). doc_status d = DELETED) found)
      in if operations = []
         then (Inr \<lparr>po_indexed = [], po_deleted = [], po_failed = [], po_skipped = skipped\<rparr>, w)
         else
           (case e_bulk E operations (pw_engine w) of
              (Inl e, en) \<Rightarrow>
                (Inr \<lparr>po_indexed = [], po_deleted = [], po_failed = map fst latest, po_skipped = skipped\<rparr>,
                 w\<lparr>pw_engine := en\<rparr>)
            | (Inr r, en) \<Rightarrow>
                (let succeeded = set (br_succeeded r);
                     outcome = \<lparr>po_indexed = filter (\<lambda>i. i \<in> succeeded) index_ids,
                                po_deleted = filter (\<lambda>i. i \<in> succeeded) delete_ids,
                                po_failed = filter (\<lambda>i. i \<notin> succeeded) (index_ids @ delete_ids),
                                po_skipped = skipped\<rparr>
                 in case repo_mark_indexed now (parsed_ids (po_indexed outcome)) (pw_db w) of
                      Inl e \<Rightarrow> (Inl e, w\<lparr>pw_engine := en\<rparr>)
                    | Inr db1 \<Rightarrow>
                        if \<not> commit_ok then (Inl DatabaseErr, w\<lparr>pw_engine := en\<rparr>)
                        else (Inr outcome,
                              w\<lparr>pw_engine := en, pw_db := db1,
                                pw_cache := invalidate_changed Bo set_order t latest outcome (pw_cache w)\<rparr>))))"

definition process ::
  "'c cache_ops option \<Rightarrow> 'e engine_ops \<Rightarrow> (string list \<Rightarrow> string list) \<Rightarrow> datetime \<Rightarrow> real \<Rightarrow> bool
   \<Rightarrow> doc_event list \<Rightarrow> ('c, 'e) proc_world \<Rightarrow> process_outcome result \<times> ('c, 'e) proc_world" where
  "process Bo E set_order now t commit_ok events w =
     (if events = [] then (Inr \<lparr>po_indexed = [], po_deleted = [], po_failed = [], po_skipped = []\<rparr>, w)
      else
        (let latest = latest_events events;
             keys = map fst latest;
             malformed = malformed_ids keys;
             valid = filter (\<lambda>i. i \<notin> set malformed) keys
         in case repo_get_many (parsed_ids keys) (pw_db w) of
              Inl e \<Rightarrow> (Inl e, w)
            | Inr ds \<Rightarrow>
                write_batch Bo E set_order now t commit_ok latest
                  (malformed @ filter (\<lambda>i. rows_by_id ds i = None) valid) (found_rows ds valid) w))"

text \<open>
  The read model never runs ahead of the source of truth: a stored document belongs to a row of
  the same tenant, its version is at most the row's, and at the row's own version it is the
  row's content and the row is not deleted.
\<close>

definition same_content :: "search_source \<Rightarrow> document \<Rightarrow> bool" where
  "same_content s d \<longleftrightarrow>
     src_document_id s = str_uuid (doc_id d) \<and> src_tenant_id s = doc_tenant_id d \<and> src_title s = doc_title d \<and>
     src_content s = doc_content d \<and> src_content_type s = doc_content_type d \<and> src_tags s = doc_tags d \<and>
     src_metadata s = doc_metadata d \<and> src_version s = doc_version d"

definition stored_ok :: "database \<Rightarrow> string \<Rightarrow> stored_doc \<Rightarrow> bool" where
  "stored_ok db k sd \<longleftrightarrow>
     (\<exists>u d. k = str_uuid u \<and> row_of db u = Some d \<and> sd_tenant_id sd = doc_tenant_id d \<and>
            sd_version sd \<le> doc_version d \<and>
            (sd_version sd = doc_version d \<longrightarrow> doc_status d \<noteq> DELETED \<and> same_content (sd_source sd) d))"

definition coherent :: "database \<Rightarrow> inmemory_engine \<Rightarrow> bool" where
  "coherent db en \<longleftrightarrow> engine_inv en \<and> (\<forall>k sd. map_of (ie_docs en) k = Some sd \<longrightarrow> stored_ok db k sd)"

text \<open>The engine shows the row as it is: absent when deleted, else stored at the row's version.\<close>

definition up_to_date :: "document \<Rightarrow> inmemory_engine \<Rightarrow> bool" where
  "up_to_date d en \<longleftrightarrow>
     (case map_of (ie_docs en) (str_uuid (doc_id d)) of
        None \<Rightarrow> doc_status d = DELETED
      | Some sd \<Rightarrow> doc_status d \<noteq> DELETED \<and> sd_tenant_id sd = doc_tenant_id d \<and>
                   sd_version sd = doc_version d \<and> same_content (sd_source sd) d)"

text \<open>The operations of a batch: one per known document, built from the row as it is now.\<close>

definition batch_ops :: "database \<Rightarrow> engine_op list \<Rightarrow> bool" where
  "batch_ops db ops \<longleftrightarrow>
     distinct (map op_document_id ops) \<and>
     (\<forall>op \<in> set ops. \<exists>u d. row_of db u = Some d \<and> op = op_for (str_uuid u) d)"

definition valid_ids :: "doc_event list \<Rightarrow> string list" where
  "valid_ids events = (let keys = map fst (latest_events events) in filter (\<lambda>i. i \<notin> set (malformed_ids keys)) keys)"

definition skipped_ids :: "document list \<Rightarrow> doc_event list \<Rightarrow> string list" where
  "skipped_ids ds events =
     malformed_ids (map fst (latest_events events)) @ filter (\<lambda>i. rows_by_id ds i = None) (valid_ids events)"

text \<open>A small world used to evaluate the operations.\<close>

definition sample_time :: datetime where
  "sample_time = \<lparr>dt_year = 2024, dt_month = 5, dt_day = 6, dt_hour = 7, dt_minute = 8, dt_second = 9,
                  dt_micro = 10, dt_aware = True\<rparr>"

definition sample_row :: document where
  "sample_row = new_document sample_time sample_time 77 ''acme''
     \<lparr>dc_title = ''Plan'', dc_content = ''quarterly plan'', dc_content_type = ''text/plain'',
      dc_tags = [''q3''], dc_metadata = []\<rparr>"

definition sample_world :: "(unit, inmemory_engine) proc_world" where
  "sample_world = \<lparr>pw_db = \<lparr>db_documents = [sample_row], db_tenants = [], db_up = True\<rparr>, pw_cache = (),
                   pw_engine = new_inmemory_engine\<rparr>"

definition sample_event :: doc_event where
  "sample_event = event_of ''e1'' ''now'' ''acme'' sample_row EVENT_INDEX"

subsection \<open>Collapsing a batch\<close>

lemma note_event_map:
  "map_of (note_event e m) k =
     (if k = ev_document_id e then
        (case map_of m k of None \<Rightarrow> Some e | Some c \<Rightarrow> if ev_version c \<le> ev_version e then Some e else Some c)
      else map_of m k)"
  by (auto simp: note_event_def split: option.splits)

lemma note_event_keys: "fst ` set (note_event e m) = insert (ev_document_id e) (fst ` set m)"
proof -
  have "ev_document_id e \<in> fst ` set m" if "map_of m (ev_document_id e) = Some c" for c
    using that by (metis domI dom_map_of_conv_image_fst)
  then show ?thesis by (auto simp: note_event_def keys_update split: option.splits)
qed

lemma latest_distinct_gen: "distinct (map fst m) \<Longrightarrow> distinct (map fst (fold note_event es m))"
proof (induction es arbitrary: m)
  case (Cons e es)
  have "distinct (map fst (note_event e m))"
    using Cons.prems by (auto simp: note_event_def distinct_keys_update split: option.splits)
  with Cons.IH show ?case by simp
qed simp

lemma latest_distinct: "distinct (map fst (latest_events es))"
  by (simp add: latest_events_def latest_distinct_gen)

lemma latest_keys_gen: "fst ` set (fold note_event es m) = ev_document_id ` set es \<union> fst ` set m"
  by (induction es arbitrary: m) (auto simp: note_event_keys)

lemma latest_keys: "set (map fst (latest_events es)) = ev_document_id ` set es"
  using latest_keys_gen [of es "[]"] by (simp add: latest_events_def)

lemma latest_gen:
  "map_of (fold note_event es m) k = Some c \<Longrightarrow>
   (\<forall>c0. map_of m k = Some c0 \<longrightarrow> ev_version c0 \<le> ev_version c) \<and>
   (\<forall>e \<in> set es. ev_document_id e = k \<longrightarrow> ev_version e \<le> ev_version c) \<and>
   (map_of m k = Some c \<or> c \<in> set es \<and> ev_document_id c = k)"
proof (induction es arbitrary: m)
  case Nil
  then show ?case by simp
next
  case (Cons e es)
  from Cons.IH [of "note_event e m"] Cons.prems
  have IH: "\<forall>c0. map_of (note_event e m) k = Some c0 \<longrightarrow> ev_version c0 \<le> ev_version c"
    "\<forall>e \<in> set es. ev_document_id e = k \<longrightarrow> ev_version e \<le> ev_version c"
    "map_of (note_event e m) k = Some c \<or> c \<in> set es \<and> ev_document_id c = k" by simp_all
  show ?case
  proof (cases "k = ev_document_id e")
    case True
    then show ?thesis using IH by (auto simp: note_event_map split: option.splits if_splits)
  next
    case False
    then show ?thesis using IH by (auto simp: note_event_map)
  qed
qed

lemma map_filter_eq: "List.map_filter f xs = map (the \<circ> f) (filter (\<lambda>x. f x \<noteq> None) xs)"
  by (induction xs) (auto simp: List.map_filter_def)

lemma set_map_filter: "set (List.map_filter f xs) = {y. \<exists>x \<in> set xs. f x = Some y}"
  by (force simp: map_filter_eq image_iff)

lemma rows_by_id_eq:
  assumes "ds = filter (\<lambda>d. doc_id d \<in> U) (db_documents db)"
  shows "rows_by_id ds (str_uuid u) = (if u \<in> U then row_of db u else None)"
proof -
  have "map_of (map (\<lambda>d. (str_uuid (doc_id d), d)) (filter (\<lambda>d. doc_id d \<in> U) xs)) (str_uuid u)
      = (if u \<in> U then find (\<lambda>d. doc_id d = u) xs else None)" for xs
    by (induction xs) (auto simp: str_uuid_inject)
  from this [of "db_documents db"] show ?thesis unfolding rows_by_id_def row_of_def assms(1) .
qed

lemma rows_by_id_Some:
  "rows_by_id ds i = Some d \<Longrightarrow> d \<in> set ds \<and> i = str_uuid (doc_id d)"
  by (auto simp: rows_by_id_def dest!: map_of_SomeD)

lemma found_rows_spec:
  assumes "ds = filter (\<lambda>d. doc_id d \<in> U) (db_documents db)"
  shows "set (found_rows ds ids) \<subseteq> {(str_uuid u, d) | u d. row_of db u = Some d}"
    and "distinct ids \<Longrightarrow> distinct (map fst (found_rows ds ids))"
    and "str_uuid u \<in> set ids \<Longrightarrow> u \<in> U \<Longrightarrow> row_of db u = Some d \<Longrightarrow> (str_uuid u, d) \<in> set (found_rows ds ids)"
proof -
  show "set (found_rows ds ids) \<subseteq> {(str_uuid u, d) | u d. row_of db u = Some d}"
  proof (clarsimp simp: found_rows_def set_map_filter)
    fix i d assume r: "rows_by_id ds i = Some d"
    from rows_by_id_Some [OF r] have "i = str_uuid (doc_id d)" by simp
    with r show "\<exists>u. i = str_uuid u \<and> row_of db u = Some d"
      using rows_by_id_eq [OF assms, of "doc_id d"] by (auto split: if_splits)
  qed
  have "map fst (found_rows ds ids) = filter (\<lambda>i. rows_by_id ds i \<noteq> None) ids"
    by (induction ids) (auto simp: found_rows_def map_filter_eq)
  then show "distinct ids \<Longrightarrow> distinct (map fst (found_rows ds ids))" by simp
  show "str_uuid u \<in> set ids \<Longrightarrow> u \<in> U \<Longrightarrow> row_of db u = Some d \<Longrightarrow> (str_uuid u, d) \<in> set (found_rows ds ids)"
    using rows_by_id_eq [OF assms, of u] by (force simp: found_rows_def set_map_filter)
qed

lemma op_for_id [simp]: "op_document_id (op_for i d) = i" "op_tenant_id (op_for i d) = doc_tenant_id d"
  "op_version (op_for i d) = doc_version d"
  by (simp_all add: op_for_def)

lemma same_content_source: "i = str_uuid (doc_id d) \<Longrightarrow> same_content (to_search_source d) d"
  by (simp add: same_content_def to_search_source_def)

subsection \<open>What a batch does to the engine and the rows\<close>

lemma repo_get_many_filter:
  "repo_get_many ids db = Inr ds \<Longrightarrow> ds = filter (\<lambda>d. doc_id d \<in> set ids) (db_documents db)"
  by (auto simp: repo_get_many_def split: if_splits)

lemma found_batch_ops:
  assumes "repo_get_many (parsed_ids keys) db = Inr ds" "distinct ids"
  shows "batch_ops db (map (\<lambda>(i, d). op_for i d) (found_rows ds ids))"
proof -
  note f = found_rows_spec [OF repo_get_many_filter [OF assms(1)], where ids = ids]
  have "map op_document_id (map (\<lambda>(i, d). op_for i d) (found_rows ds ids)) = map fst (found_rows ds ids)"
    by (simp add: comp_def split_def)
  then have "distinct (map op_document_id (map (\<lambda>(i, d). op_for i d) (found_rows ds ids)))"
    using f(2) [OF assms(2)] by (simp only:)
  moreover have "\<exists>u d. row_of db u = Some d \<and> op = op_for (str_uuid u) d"
    if "op \<in> set (map (\<lambda>(i, d). op_for i d) (found_rows ds ids))" for op
    using that f(1) by (auto dest!: subsetD)
  ultimately show ?thesis unfolding batch_ops_def by blast
qed

lemma process_cases:
  assumes "process Bo E so now t ok events w = (r, w')"
  obtains (empty) "events = []" "w' = w" "r = Inr \<lparr>po_indexed = [], po_deleted = [], po_failed = [], po_skipped = []\<rparr>"
  | (no_rows) e where "events \<noteq> []" "repo_get_many (parsed_ids (map fst (latest_events events))) (pw_db w) = Inl e"
      "r = Inl e" "w' = w"
  | (batch) ds where "events \<noteq> []" "repo_get_many (parsed_ids (map fst (latest_events events))) (pw_db w) = Inr ds"
      "write_batch Bo E so now t ok (latest_events events) (skipped_ids ds events)
         (found_rows ds (valid_ids events)) w = (r, w')"
  using assms by (auto simp: process_def Let_def valid_ids_def skipped_ids_def split: if_splits sum.splits)

lemma write_batch_effect:
  assumes "write_batch Bo (inmemory_engine_ops so took) so' now t ok latest sk found w = (r, w')"
  shows "pw_engine w' = pw_engine w \<or>
         pw_engine w' = (pw_engine w)\<lparr>ie_docs := fold bulk_one (map (\<lambda>(i, d). op_for i d) found) (ie_docs (pw_engine w))\<rparr>"
    and "pw_db w' = pw_db w \<or> (\<exists>ids. repo_mark_indexed now ids (pw_db w) = Inr (pw_db w'))"
  using assms
  by (auto simp: write_batch_def Let_def inmemory_engine_ops_def ie_bulk_def ie_guard_def split: if_splits sum.splits)

lemma valid_ids_distinct: "distinct (valid_ids events)"
  using latest_distinct by (simp add: valid_ids_def Let_def distinct_filter)

lemma process_effect:
  assumes "process Bo (inmemory_engine_ops so took) so' now t ok events w = (r, w')"
  shows "\<exists>ops. batch_ops (pw_db w) ops \<and>
            pw_engine w' = (pw_engine w)\<lparr>ie_docs := fold bulk_one ops (ie_docs (pw_engine w))\<rparr>"
    and "pw_db w' = pw_db w \<or> (\<exists>ids. repo_mark_indexed now ids (pw_db w) = Inr (pw_db w'))"
proof -
  have none: "\<exists>ops. batch_ops (pw_db w) ops \<and>
            pw_engine w = (pw_engine w)\<lparr>ie_docs := fold bulk_one ops (ie_docs (pw_engine w))\<rparr>"
    by (rule exI [of _ "[]"]) (simp add: batch_ops_def)
  show "\<exists>ops. batch_ops (pw_db w) ops \<and>
            pw_engine w' = (pw_engine w)\<lparr>ie_docs := fold bulk_one ops (ie_docs (pw_engine w))\<rparr>"
    using assms
  proof (cases rule: process_cases)
    case (batch ds)
    then show ?thesis
      using write_batch_effect(1) [OF batch(3)] found_batch_ops [OF batch(2) valid_ids_distinct] none by metis
  qed (use none in auto)
  show "pw_db w' = pw_db w \<or> (\<exists>ids. repo_mark_indexed now ids (pw_db w) = Inr (pw_db w'))"
    using assms by (cases rule: process_cases) (auto dest: write_batch_effect(2))
qed

subsection \<open>Coherence of rows and read model\<close>

lemma up_to_date_effect:
  assumes "row_of db u = Some d" "\<forall>sd. old = Some sd \<longrightarrow> stored_ok db (str_uuid u) sd"
  shows "(case op_effect (op_for (str_uuid u) d) old of
            None \<Rightarrow> doc_status d = DELETED
          | Some sd \<Rightarrow> doc_status d \<noteq> DELETED \<and> sd_tenant_id sd = doc_tenant_id d \<and>
              sd_version sd = doc_version d \<and> same_content (sd_source sd) d)"
proof -
  have u: "str_uuid u = str_uuid (doc_id d)" using row_of_Some [OF assms(1)] by simp
  have "sd_tenant_id sd = doc_tenant_id d \<and> sd_version sd \<le> doc_version d \<and>
      (sd_version sd = doc_version d \<longrightarrow> doc_status d \<noteq> DELETED \<and> same_content (sd_source sd) d)" if "old = Some sd" for sd
    using assms that by (auto simp: stored_ok_def str_uuid_inject)
  then show ?thesis using same_content_source [OF u]
    by (cases old) (fastforce simp: op_effect_def op_for_def)+
qed

lemma up_to_date_stored_ok:
  "row_of db u = Some d \<Longrightarrow> up_to_date d en \<Longrightarrow> map_of (ie_docs en) (str_uuid u) = Some sd \<Longrightarrow>
   stored_ok db (str_uuid u) sd"
  by (frule row_of_Some) (auto simp: up_to_date_def stored_ok_def)

lemma batch_up_to_date:
  assumes "coherent db en" "batch_ops db ops" "op_for (str_uuid u) d \<in> set ops" "row_of db u = Some d"
  shows "up_to_date d (en\<lparr>ie_docs := fold bulk_one ops (ie_docs en)\<rparr>)"
proof -
  have "map_of (fold bulk_one ops (ie_docs en)) (str_uuid u) =
      op_effect (op_for (str_uuid u) d) (map_of (ie_docs en) (str_uuid u))"
    using map_of_fold_bulk [OF _ assms(3), of "ie_docs en"] assms(2) by (simp add: batch_ops_def)
  moreover have "doc_id d = u" using row_of_Some [OF assms(4)] by simp
  ultimately show ?thesis
    using up_to_date_effect [OF assms(4), of "map_of (ie_docs en) (str_uuid u)"] assms(1)
    by (simp add: up_to_date_def coherent_def)
qed

lemma batch_coherent:
  assumes "coherent db en" "batch_ops db ops"
  shows "coherent db (en\<lparr>ie_docs := fold bulk_one ops (ie_docs en)\<rparr>)" (is "coherent db ?en")
  unfolding coherent_def
proof (intro conjI allI impI)
  show "engine_inv ?en" using assms(1) by (simp add: coherent_def engine_inv_def fold_bulk_inv)
  fix k sd assume k: "map_of (ie_docs ?en) k = Some sd"
  show "stored_ok db k sd"
  proof (cases "k \<in> op_document_id ` set ops")
    case False
    with k assms(1) show ?thesis by (simp add: map_of_fold_bulk_other coherent_def)
  next
    case True
    then obtain u d where u: "row_of db u = Some d" "op_for (str_uuid u) d \<in> set ops" "k = str_uuid u"
      using assms(2) unfolding batch_ops_def by force
    from up_to_date_stored_ok [OF u(1) batch_up_to_date [OF assms u(2,1)], of sd] k u(3) show ?thesis by simp
  qed
qed

text \<open>Coherence survives a change of the rows that keeps content and only raises versions.\<close>

lemma coherent_rows:
  assumes "coherent db en"
    "\<And>u d. row_of db u = Some d \<Longrightarrow>
       \<exists>d'. row_of db' u = Some d' \<and> doc_tenant_id d' = doc_tenant_id d \<and>
         (doc_version d < doc_version d' \<or>
          doc_version d' = doc_version d \<and> (doc_status d \<noteq> DELETED \<longrightarrow> doc_status d' \<noteq> DELETED) \<and>
          (\<forall>s. same_content s d \<longrightarrow> same_content s d'))"
  shows "coherent db' en"
  unfolding coherent_def
proof (intro conjI allI impI)
  show "engine_inv en" using assms(1) by (simp add: coherent_def)
  fix k sd assume "map_of (ie_docs en) k = Some sd"
  with assms(1) obtain u d where u: "k = str_uuid u" "row_of db u = Some d" "sd_tenant_id sd = doc_tenant_id d"
      "sd_version sd \<le> doc_version d"
      "sd_version sd = doc_version d \<longrightarrow> doc_status d \<noteq> DELETED \<and> same_content (sd_source sd) d"
    unfolding coherent_def stored_ok_def by blast
  from assms(2) [OF u(2)] obtain d' where d': "row_of db' u = Some d'" "doc_tenant_id d' = doc_tenant_id d"
    "doc_version d < doc_version d' \<or>
     doc_version d' = doc_version d \<and> (doc_status d \<noteq> DELETED \<longrightarrow> doc_status d' \<noteq> DELETED) \<and>
     (\<forall>s. same_content s d \<longrightarrow> same_content s d')" by blast
  then have "sd_version sd \<le> doc_version d'" "sd_tenant_id sd = doc_tenant_id d'"
    "sd_version sd = doc_version d' \<longrightarrow> doc_status d' \<noteq> DELETED \<and> same_content (sd_source sd) d'"
    using u by auto
  with u(1) d'(1) show "stored_ok db' k sd" unfolding stored_ok_def by blast
qed

lemma mark_indexed_coherent:
  assumes "coherent db en" "repo_mark_indexed now ids db = Inr db'"
  shows "coherent db' en"
  by (rule coherent_rows [OF assms(1)]) (auto simp: repo_mark_indexed_row [OF assms(2)] same_content_def)

lemma process_coherent:
  assumes "coherent (pw_db w) (pw_engine w)"
    "process Bo (inmemory_engine_ops so took) so' now t ok events w = (r, w')"
  shows "coherent (pw_db w') (pw_engine w')"
proof -
  from process_effect(1) [OF assms(2)] obtain ops where ops: "batch_ops (pw_db w) ops"
    "pw_engine w' = (pw_engine w)\<lparr>ie_docs := fold bulk_one ops (ie_docs (pw_engine w))\<rparr>" by blast
  then have "coherent (pw_db w) (pw_engine w')" using batch_coherent [OF assms(1)] by simp
  then show ?thesis using process_effect(2) [OF assms(2)] mark_indexed_coherent by metis
qed

lemma create_coherent:
  assumes "coherent db en" "repo_create d db = Inr db'"
  shows "coherent db' en"
proof (rule coherent_rows [OF assms(1)])
  fix u r assume r: "row_of db u = Some r"
  then have "u \<noteq> doc_id d" using assms(2) row_of_Some [OF r] by (auto simp: repo_create_def image_iff split: if_splits)
  with r repo_create_row [OF assms(2), of u]
  show "\<exists>d'. row_of db' u = Some d' \<and> doc_tenant_id d' = doc_tenant_id r \<and>
         (doc_version r < doc_version d' \<or>
          doc_version d' = doc_version r \<and> (doc_status r \<noteq> DELETED \<longrightarrow> doc_status d' \<noteq> DELETED) \<and>
          (\<forall>s. same_content s r \<longrightarrow> same_content s d'))" by auto
qed

lemma soft_delete_coherent:
  assumes "coherent db en" "db_inv db" "d \<in> set (db_documents db)" "doc_status d \<noteq> DELETED"
    "repo_soft_delete now d db = Inr (d', db')"
  shows "coherent db' en"
proof (rule coherent_rows [OF assms(1)])
  fix u r assume r: "row_of db u = Some r"
  have "row_of db (doc_id d) = Some d" using assms(2,3) by (auto simp: db_inv_def row_of_unique)
  with r repo_soft_delete_inv [OF assms(2-5)]
  show "\<exists>d'. row_of db' u = Some d' \<and> doc_tenant_id d' = doc_tenant_id r \<and>
         (doc_version r < doc_version d' \<or>
          doc_version d' = doc_version r \<and> (doc_status r \<noteq> DELETED \<longrightarrow> doc_status d' \<noteq> DELETED) \<and>
          (\<forall>s. same_content s r \<longrightarrow> same_content s d'))" by (cases "u = doc_id d") auto
qed

subsection \<open>A processed batch\<close>

lemma event_valid:
  assumes "e \<in> set events" "ev_document_id e = str_uuid u"
  shows "str_uuid u \<in> set (valid_ids events)" "u \<in> set (parsed_ids (map fst (latest_events events)))"
proof -
  have k: "str_uuid u \<in> set (map fst (latest_events events))" using assms latest_keys [of events] by force
  then show "str_uuid u \<in> set (valid_ids events)" by (auto simp: valid_ids_def malformed_ids_def Let_def)
  show "u \<in> set (parsed_ids (map fst (latest_events events)))"
    using k unfolding parsed_ids_def set_map_filter by (force intro: bexI [of _ "str_uuid u"])
qed

text \<open>A batch of one event of a known document.\<close>

lemma single_event:
  assumes "row_of db u = Some d" "db_up db" "ev_document_id e = str_uuid u"
  shows "latest_events [e] = [(str_uuid u, e)]" "malformed_ids [str_uuid u] = []" "parsed_ids [str_uuid u] = [u]"
    "\<exists>ds. repo_get_many [u] db = Inr ds \<and> rows_by_id ds (str_uuid u) = Some d \<and> found_rows ds [str_uuid u] = [(str_uuid u, d)]"
proof -
  show "latest_events [e] = [(str_uuid u, e)]" by (simp add: latest_events_def note_event_def assms(3))
  show "malformed_ids [str_uuid u] = []" "parsed_ids [str_uuid u] = [u]"
    by (simp_all add: malformed_ids_def parsed_ids_def List.map_filter_def)
  obtain ds where ds: "repo_get_many [u] db = Inr ds" using assms(2) by (simp add: repo_get_many_def)
  then have r: "rows_by_id ds (str_uuid u) = Some d"
    using rows_by_id_eq [OF repo_get_many_filter [OF ds], of u] assms(1) by simp
  with ds show "\<exists>ds. repo_get_many [u] db = Inr ds \<and> rows_by_id ds (str_uuid u) = Some d \<and> found_rows ds [str_uuid u] = [(str_uuid u, d)]"
    by (auto simp: found_rows_def List.map_filter_def)
qed

lemma process_single:
  assumes "row_of (pw_db w) u = Some d" "db_up (pw_db w)" "ev_document_id e = str_uuid u"
  shows "process Bo E so now t ok [e] w = write_batch Bo E so now t ok [(str_uuid u, e)] [] [(str_uuid u, d)] w"
  using single_event [OF assms] by (auto simp: process_def Let_def)

lemma write_batch_up:
  assumes "write_batch Bo (inmemory_engine_ops so took) so' now t ok latest sk found w = (r, w')"
    "found \<noteq> []" "ie_available (pw_engine w)"
  shows "pw_engine w' = (pw_engine w)\<lparr>ie_docs := fold bulk_one (map (\<lambda>(i, d). op_for i d) found) (ie_docs (pw_engine w))\<rparr>"
  using assms
  by (auto simp: write_batch_def Let_def inmemory_engine_ops_def ie_bulk_def ie_guard_def split: if_splits sum.splits)

lemma write_batch_outcome:
  assumes "write_batch Bo (inmemory_engine_ops so took) so' now t ok latest sk found w = (Inr out, w')"
    "ie_available (pw_engine w)"
  shows "po_indexed out = map fst (filter (\<lambda>(i, d). doc_status d \<noteq> DELETED) found)"
    "po_deleted out = map fst (filter (\<lambda>(i, d). doc_status d = DELETED) found)"
    "po_failed out = []" "po_skipped out = sk"
proof -
  have "filter (\<lambda>i. i \<in> fst ` set found) (map fst (filter P found)) = map fst (filter P found)" for P
    by (rule filter_True) auto
  moreover have "filter (\<lambda>i. i \<notin> fst ` set found) (map fst (filter P found)) = []" for P by auto
  ultimately show "po_indexed out = map fst (filter (\<lambda>(i, d). doc_status d \<noteq> DELETED) found)"
    "po_deleted out = map fst (filter (\<lambda>(i, d). doc_status d = DELETED) found)"
    "po_failed out = []" "po_skipped out = sk"
    using assms
    by (auto simp: write_batch_def Let_def inmemory_engine_ops_def ie_bulk_def ie_guard_def image_image split_def
        split: if_splits sum.splits)
qed

lemma up_to_date_mark:
  assumes "up_to_date d en"
  shows "up_to_date (d\<lparr>doc_status := INDEXED, doc_indexed_at := i, doc_updated_at := n\<rparr>) en \<or> doc_status d = DELETED"
  using assms by (auto simp: up_to_date_def same_content_def split: option.splits)

lemma process_up_to_date:
  assumes co: "coherent (pw_db w) (pw_engine w)" and en: "ie_available (pw_engine w)"
    and pr: "process Bo (inmemory_engine_ops so took) so' now t ok events w = (Inr out, w')"
    and e: "e \<in> set events" "ev_document_id e = str_uuid u" and d': "row_of (pw_db w') u = Some d'"
  shows "up_to_date d' (pw_engine w')"
proof -
  obtain d where d: "row_of (pw_db w) u = Some d"
    using d' process_effect(2) [OF pr] by (auto simp: repo_mark_indexed_row)
  have up: "up_to_date d (pw_engine w')"
    using pr
  proof (cases rule: process_cases)
    case (batch ds)
    note f = found_rows_spec(3) [OF repo_get_many_filter [OF batch(2)] event_valid [OF e] d]
    then have ne: "found_rows ds (valid_ids events) \<noteq> []" by auto
    have "op_for (str_uuid u) d \<in> set (map (\<lambda>(i, d). op_for i d) (found_rows ds (valid_ids events)))"
      using f by force
    with batch_up_to_date [OF co found_batch_ops [OF batch(2) valid_ids_distinct] _ d]
    show ?thesis unfolding write_batch_up [OF batch(3) ne en] by blast
  qed (use e in auto)
  show ?thesis
    using process_effect(2) [OF pr]
  proof
    assume "pw_db w' = pw_db w"
    with d d' up show ?thesis by simp
  next
    assume "\<exists>ids. repo_mark_indexed now ids (pw_db w) = Inr (pw_db w')"
    then obtain ids where m: "repo_mark_indexed now ids (pw_db w) = Inr (pw_db w')" by blast
    then show ?thesis
      using d d' up up_to_date_mark [OF up, where i = "Some now" and n = now] repo_mark_indexed_row [OF m, of u]
      by (auto split: if_splits)
  qed
qed

lemma write_batch_total:
  assumes "ie_available (pw_engine w)" "db_up (pw_db w)"
  shows "\<exists>out w'. write_batch Bo (inmemory_engine_ops so took) so' now t True latest sk found w = (Inr out, w') \<and>
    (repo_mark_indexed now (parsed_ids (map fst (filter (\<lambda>(i, d). doc_status d \<noteq> DELETED) found))) (pw_db w) = Inr (pw_db w')
     \<or> found = [] \<and> pw_db w' = pw_db w)"
proof -
  have "filter (\<lambda>i. i \<in> fst ` set found) (map fst (filter P found)) = map fst (filter P found)" for P
    by (rule filter_True) auto
  then show ?thesis
    using assms
    by (auto simp: write_batch_def Let_def inmemory_engine_ops_def ie_bulk_def ie_guard_def repo_mark_indexed_def
        image_image split_def split: sum.splits)
qed

lemma process_total:
  assumes "ie_available (pw_engine w)" "db_up (pw_db w)"
  shows "\<exists>out w'. process Bo (inmemory_engine_ops so took) so' now t True events w = (Inr out, w')"
proof -
  obtain r w' where p: "process Bo (inmemory_engine_ops so took) so' now t True events w = (r, w')" by force
  then show ?thesis
  proof (cases rule: process_cases)
    case (no_rows e)
    then show ?thesis using assms(2) by (simp add: repo_get_many_def split: if_splits)
  next
    case (batch ds)
    then show ?thesis using write_batch_total [OF assms] p by (metis prod.inject)
  qed (use p in auto)
qed

lemma process_marks:
  assumes pr: "process Bo (inmemory_engine_ops so took) so' now t True events w = (r, w')"
    and up: "ie_available (pw_engine w)" "db_up (pw_db w)"
    and e: "e \<in> set events" "ev_document_id e = str_uuid u" and d: "row_of (pw_db w) u = Some d" "doc_status d = PENDING"
  shows "row_of (pw_db w') u = Some (d\<lparr>doc_status := INDEXED, doc_indexed_at := Some now, doc_updated_at := now\<rparr>)"
  using pr
proof (cases rule: process_cases)
  case (batch ds)
  let ?found = "found_rows ds (valid_ids events)"
  let ?ids = "parsed_ids (map fst (filter (\<lambda>(i, d). doc_status d \<noteq> DELETED) ?found))"
  note f = found_rows_spec(3) [OF repo_get_many_filter [OF batch(2)] event_valid [OF e] d(1)]
  then have "str_uuid u \<in> set (map fst (filter (\<lambda>(i, d). doc_status d \<noteq> DELETED) ?found))" using d(2) by force
  then have u: "u \<in> set ?ids" unfolding parsed_ids_def set_map_filter by (force intro: bexI [of _ "str_uuid u"])
  have "repo_mark_indexed now ?ids (pw_db w) = Inr (pw_db w')"
    using write_batch_total [OF up, of Bo so took so' now t "latest_events events" "skipped_ids ds events" ?found] batch(3) f by auto
  from repo_mark_indexed_row [OF this, of u] u d row_of_Some [OF d(1)] show ?thesis by simp
next
  case (no_rows x)
  then show ?thesis using up(2) by (simp add: repo_get_many_def split: if_splits)
qed (use e in simp)


subsection \<open>Properties\<close>

text \<open>
  C9: Whatever the batch and whatever the outcome (engine down, database error, failed commit), a batch
  keeps the read model coherent with the source of truth: every stored document belongs to a
  row of the same tenant, never has a newer version than the row, and at the row's version has
  the row's content and the row is not deleted.  So, as long as batches do not overlap, a replayed, duplicated or out-of-order
  event cannot resurrect stale content or undo a delete.
\<close>

theorem process_keeps_coherent:
  "coherent (pw_db w) (pw_engine w) \<Longrightarrow>
   coherent (pw_db (snd (process Bo (inmemory_engine_ops so took) so' now t ok events w)))
     (pw_engine (snd (process Bo (inmemory_engine_ops so took) so' now t ok events w)))"
  using process_coherent by (metis prod.collapse)

theorem process_keeps_coherent_witness:
  "coherent (pw_db sample_world) (pw_engine sample_world) \<and>
   coherent (pw_db (snd (process None (inmemory_engine_ops id 0) id sample_time 0 True [sample_event] sample_world)))
     (pw_engine (snd (process None (inmemory_engine_ops id 0) id sample_time 0 True [sample_event] sample_world)))"
proof -
  have "coherent (pw_db sample_world) (pw_engine sample_world)"
    by (simp add: sample_world_def coherent_def engine_inv_def docs_ok_def new_inmemory_engine_def)
  with process_keeps_coherent [of sample_world None id 0 id sample_time 0 True "[sample_event]"]
  show ?thesis by simp
qed



text \<open>
  When the bulk request fails, every event of the batch is reported for retry, the malformed and vanished ones included
  that the same outcome lists as skipped for good.
\<close>

theorem bulk_failure_retries_all:
  assumes "process Bo (inmemory_engine_ops so took) so' now t ok events w = (Inr out, w')" "\<not> ie_available (pw_engine w)"
    "e \<in> set events" "ev_document_id e = str_uuid u" "row_of (pw_db w) u = Some d"
  shows "set (po_failed out) = ev_document_id ` set events \<and> set (po_skipped out) \<subseteq> set (po_failed out) \<and>
    pw_db w' = pw_db w \<and> pw_engine w' = pw_engine w"
  using assms(1)
proof (cases rule: process_cases)
  case (batch ds)
  let ?found = "found_rows ds (valid_ids events)"
  note f = found_rows_spec(3) [OF repo_get_many_filter [OF batch(2)] event_valid [OF assms(3,4)] assms(5)]
  have "out = \<lparr>po_indexed = [], po_deleted = [], po_failed = map fst (latest_events events), po_skipped = skipped_ids ds events\<rparr>"
    "pw_db w' = pw_db w" "pw_engine w' = pw_engine w"
    using batch(3) assms(2) f
    by (auto simp: write_batch_def Let_def inmemory_engine_ops_def ie_bulk_def ie_guard_def split: if_splits)
  moreover have "set (skipped_ids ds events) \<subseteq> set (map fst (latest_events events))"
    by (auto simp: skipped_ids_def malformed_ids_def valid_ids_def Let_def)
  ultimately show ?thesis using latest_keys [of events] by simp
qed (use assms(3) in auto)

theorem bulk_failure_retries_all_witness:
  "set (po_failed (projr (fst (process None (inmemory_engine_ops id 0) id sample_time 0 True
      [sample_event, sample_event\<lparr>ev_document_id := ''bad''\<rparr>]
      (sample_world\<lparr>pw_engine := \<lparr>ie_docs = [], ie_available = False\<rparr>\<rparr>))))) = {str_uuid 77, ''bad''}"
proof -
  let ?w = "sample_world\<lparr>pw_engine := \<lparr>ie_docs = [], ie_available = False\<rparr>\<rparr>"
  let ?es = "[sample_event, sample_event\<lparr>ev_document_id := ''bad''\<rparr>]"
  let ?p = "process None (inmemory_engine_ops id 0) id sample_time 0 True ?es ?w"
  have row: "row_of (pw_db ?w) 77 = Some sample_row" "ev_document_id sample_event = str_uuid 77"
    by (simp_all add: sample_world_def row_of_def sample_row_def new_document_def sample_event_def event_of_def)
  obtain r w' where p: "?p = (r, w')" by force
  have "\<exists>out. r = Inr out"
    using p
  proof (cases rule: process_cases)
    case (no_rows e)
    then show ?thesis by (simp add: repo_get_many_def sample_world_def split: if_splits)
  next
    case (batch ds)
    then show ?thesis
      by (auto simp: write_batch_def Let_def inmemory_engine_ops_def ie_bulk_def ie_guard_def split: if_splits)
  qed auto
  then obtain out where p: "?p = (Inr out, w')" using p by blast
  from bulk_failure_retries_all [OF p _ _ row(2,1)] p row(2) show ?thesis by simp
qed

text \<open>
  A document marked as failed stays failed: no batch, however successful, changes the status of its row, so the
  reconciler finds it again and again.
\<close>

theorem failed_stays_failed:
  assumes "process Bo (inmemory_engine_ops so took) so' now t ok events w = (r, w')"
    "row_of (pw_db w) u = Some d" "doc_status d = FAILED"
  shows "row_of (pw_db w') u = Some d"
  using process_effect(2) [OF assms(1)] assms(2,3) by (auto simp: repo_mark_indexed_row)

theorem failed_stays_failed_witness:
  "row_of (pw_db (snd (process None (inmemory_engine_ops id 0) id sample_time 0 True [sample_event]
      (sample_world\<lparr>pw_db := \<lparr>db_documents = [sample_row\<lparr>doc_status := FAILED\<rparr>], db_tenants = [], db_up = True\<rparr>\<rparr>)))) 77 =
   Some (sample_row\<lparr>doc_status := FAILED\<rparr>)"
  by (rule failed_stays_failed [OF prod.collapse [symmetric]]) (simp_all add: row_of_def sample_row_def new_document_def)

end
