(* ===== verification/Reconciler.thy ===== *)
theory Reconciler
  imports Processor
begin

text \<open>
  \<open>workers/reconciler.py\<close>: the sweep that re-publishes documents the search index never confirmed.
  \<open>evid\<close> and \<open>occ\<close> supply the generated identifier and time of the event published for the
  \<open>i\<close>-th document.  The endless loop \<open>run_forever\<close> is a sequence of sweeps: \<open>sweeps\<close> runs one
  per element of a list of clock readings and ignores a raising sweep, as the loop does.
\<close>

fun republish ::
  "'p publisher_ops \<Rightarrow> (nat \<Rightarrow> string) \<Rightarrow> (nat \<Rightarrow> string) \<Rightarrow> nat \<Rightarrow> document list \<Rightarrow> 'p \<Rightarrow> 'p" where
  "republish P evid occ i [] p = p"
| "republish P evid occ i (d # ds) p =
     (let event_type = (if doc_status d = DELETED then EVENT_DELETE else EVENT_INDEX)
      in case publish P (event_of (evid i) (occ i) (doc_tenant_id d) d event_type) p of
           (Inl e, p1) \<Rightarrow> p1
         | (Inr _, p1) \<Rightarrow> republish P evid occ (Suc i) ds p1)"

definition sweep_once ::
  "'p publisher_ops \<Rightarrow> settings \<Rightarrow> datetime \<Rightarrow> (nat \<Rightarrow> string) \<Rightarrow> (nat \<Rightarrow> string) \<Rightarrow> database \<Rightarrow> 'p
   \<Rightarrow> int result \<times> 'p" where
  "sweep_once P st now evid occ db p =
     (case repo_find_stale now (reconcile_stale_after_seconds st) (reconcile_batch_size st) db of
        Inl e \<Rightarrow> (Inl e, p)
      | Inr stale \<Rightarrow> (Inr (int (length stale)), republish P evid occ 0 stale p))"

fun sweeps ::
  "'p publisher_ops \<Rightarrow> settings \<Rightarrow> (datetime \<times> (nat \<Rightarrow> string) \<times> (nat \<Rightarrow> string)) list \<Rightarrow> database \<Rightarrow> 'p \<Rightarrow> 'p" where
  "sweeps P st [] db p = p"
| "sweeps P st ((now, evid, occ) # ts) db p = sweeps P st ts db (snd (sweep_once P st now evid occ db p))"

text \<open>The documents the index never confirmed, past the grace period.\<close>

definition stale_docs :: "settings \<Rightarrow> datetime \<Rightarrow> database \<Rightarrow> document list" where
  "stale_docs st now db =
     filter (\<lambda>d. doc_status d \<in> {PENDING, FAILED} \<and>
                 before_cutoff now (reconcile_stale_after_seconds st) (doc_updated_at d)) (db_documents db)"

subsection \<open>Lemmas\<close>

lemma find_stale_docs:
  "db_up db \<Longrightarrow> repo_find_stale now (reconcile_stale_after_seconds st) (reconcile_batch_size st) db =
     Inr (take (nat (reconcile_batch_size st)) (sort_key (\<lambda>d. instant (doc_updated_at d)) (stale_docs st now db)))"
  by (simp add: repo_find_stale_def stale_docs_def)

lemma stale_type: "d \<in> set (stale_docs st now db) \<Longrightarrow> doc_status d \<noteq> DELETED"
  by (auto simp: stale_docs_def)

context event_publisher
begin

lemma republish_all:
  assumes "up p" "\<forall>d \<in> set ds. doc_status d \<noteq> DELETED"
  shows "pending (republish P evid occ i ds p) =
      pending p @ map (\<lambda>(j, d). event_of (evid (i + j)) (occ (i + j)) (doc_tenant_id d) d EVENT_INDEX) (enumerate 0 ds)
    \<and> up (republish P evid occ i ds p)"
  using assms
proof (induction ds arbitrary: i p)
  case Nil
  then show ?case by simp
next
  case (Cons d ds)
  let ?e = "event_of (evid i) (occ i) (doc_tenant_id d) d EVENT_INDEX"
  obtain p1 where p1: "publish P ?e p = (Inr (), p1)" "up p1" "pending p1 = pending p @ [?e]"
    using publish_up [OF Cons.prems(1)] by blast
  have shift: "enumerate (Suc 0) ds = map (\<lambda>(j, d). (Suc j, d)) (enumerate 0 ds)"
    by (rule nth_equalityI) (auto simp: nth_enumerate_eq)
  have "doc_status d \<noteq> DELETED" "\<forall>d \<in> set ds. doc_status d \<noteq> DELETED" using Cons.prems(2) by simp_all
  with Cons.IH [OF p1(2), of "Suc i"] p1 show ?case
    by (simp add: Let_def shift comp_def split_def)
qed

lemma republish_down: "\<not> up p \<Longrightarrow> republish P evid occ i ds p = p"
proof (cases ds)
  case (Cons d ds')
  assume "\<not> up p"
  then have "\<exists>x. publish P e p = (Inl x, p)" for e by (rule publish_down)
  then have "publish P e p = (Inl (fst (projl (fst (publish P e p)), ())), p)" for e by (metis fst_conv sum.sel(1))
  then have "(case publish P e p of (Inl x, p1) \<Rightarrow> p1 | (Inr _, p1) \<Rightarrow> f p1) = p" for e f
    by (metis (no_types, lifting) case_prod_conv old.sum.simps(5))
  with Cons show ?thesis by (simp add: Let_def)
qed simp

lemma sweep_publishes:
  assumes "db_up db" "up p"
  shows "\<exists>n p'. sweep_once P st now evid occ db p = (Inr n, p') \<and> up p' \<and>
    map (\<lambda>e. (ev_document_id e, ev_tenant_id e, ev_version e, ev_type e)) (drop (length (pending p)) (pending p')) =
    map (\<lambda>d. (str_uuid (doc_id d), doc_tenant_id d, doc_version d, EVENT_INDEX))
      (take (nat (reconcile_batch_size st)) (sort_key (\<lambda>d. instant (doc_updated_at d)) (stale_docs st now db)))"
proof -
  let ?ds = "take (nat (reconcile_batch_size st)) (sort_key (\<lambda>d. instant (doc_updated_at d)) (stale_docs st now db))"
  have nd: "\<forall>d \<in> set ?ds. doc_status d \<noteq> DELETED" using stale_type by (fastforce dest: in_set_takeD)
  have "map (\<lambda>x. f (snd x)) (enumerate 0 xs) = map f xs" for f :: "document \<Rightarrow> string \<times> string \<times> int \<times> string" and xs
    by (metis (no_types, lifting) list.map_comp map_snd_enumerate comp_def map_eq_conv)
  with republish_all [OF assms(2) nd, of evid occ 0] show ?thesis
    by (auto simp: sweep_once_def find_stale_docs [OF assms(1)] event_of_def comp_def split_def)
qed

end

subsection \<open>Properties\<close>

text \<open>
  A sweep with database and queue up publishes one index event for each of the stalest documents that are pending or failed
  past the grace period, oldest first, at most the configured number, and for no other document.
\<close>

theorem sweep_republishes:
  assumes "db_up db" "mp_available p"
  shows "\<exists>n p'. sweep_once inmemory_publisher_ops st now evid occ db p = (Inr n, p') \<and> mp_available p' \<and>
    map (\<lambda>e. (ev_document_id e, ev_tenant_id e, ev_version e, ev_type e)) (drop (length (mp_events p)) (mp_events p')) =
    map (\<lambda>d. (str_uuid (doc_id d), doc_tenant_id d, doc_version d, EVENT_INDEX))
      (take (nat (reconcile_batch_size st)) (sort_key (\<lambda>d. instant (doc_updated_at d)) (stale_docs st now db)))"
  by (rule mpub.sweep_publishes [OF assms])

theorem sweep_republishes_witness:
  "\<exists>n p'. sweep_once inmemory_publisher_ops default_settings sample_time (\<lambda>_. ''e'') (\<lambda>_. ''now'') (pw_db sample_world) new_inmemory_publisher = (Inr n, p') \<and>
    map (\<lambda>e. (ev_document_id e, ev_tenant_id e, ev_version e, ev_type e)) (drop (length (mp_events new_inmemory_publisher)) (mp_events p')) =
    map (\<lambda>d. (str_uuid (doc_id d), doc_tenant_id d, doc_version d, EVENT_INDEX))
      (take (nat (reconcile_batch_size default_settings)) (sort_key (\<lambda>d. instant (doc_updated_at d)) (stale_docs default_settings sample_time (pw_db sample_world))))"
  using sweep_republishes [of "pw_db sample_world" new_inmemory_publisher default_settings sample_time "\<lambda>_. ''e''" "\<lambda>_. ''now''"]
  by (auto simp: sample_world_def new_inmemory_publisher_def)

text \<open>
  A lost delete event is never made up for: no sweep publishes an event for a deleted document.
\<close>

theorem deleted_never_republished:
  assumes "db_inv db" "db_up db" "mp_available p" "row_of db u = Some d" "doc_status d = DELETED"
    "sweep_once inmemory_publisher_ops st now evid occ db p = (r, p')"
  shows "\<forall>e \<in> set (drop (length (mp_events p)) (mp_events p')). ev_document_id e \<noteq> str_uuid u"
proof
  fix e assume e: "e \<in> set (drop (length (mp_events p)) (mp_events p'))"
  let ?ds = "take (nat (reconcile_batch_size st)) (sort_key (\<lambda>d. instant (doc_updated_at d)) (stale_docs st now db))"
  have "map (\<lambda>e. (ev_document_id e, ev_tenant_id e, ev_version e, ev_type e)) (drop (length (mp_events p)) (mp_events p')) =
    map (\<lambda>d. (str_uuid (doc_id d), doc_tenant_id d, doc_version d, EVENT_INDEX)) ?ds"
    using mpub.sweep_publishes [OF assms(2,3), of st now evid occ] assms(6) by auto
  then have "(ev_document_id e, ev_tenant_id e, ev_version e, ev_type e) \<in>
      (\<lambda>d. (str_uuid (doc_id d), doc_tenant_id d, doc_version d, EVENT_INDEX)) ` set ?ds"
    using e by (metis (no_types, lifting) image_eqI list.set_map)
  then obtain d' where d': "d' \<in> set ?ds" "ev_document_id e = str_uuid (doc_id d')" by auto
  then have st: "d' \<in> set (stale_docs st now db)" by (auto dest: in_set_takeD)
  show "ev_document_id e \<noteq> str_uuid u"
  proof
    assume "ev_document_id e = str_uuid u"
    then have "doc_id d' = u" using d'(2) by (simp add: str_uuid_inject)
    moreover have "row_of db (doc_id d') = Some d'"
      using st assms(1) by (intro row_of_unique) (auto simp: stale_docs_def db_inv_def)
    ultimately show False using assms(4,5) stale_type [OF st] by simp
  qed
qed

theorem deleted_never_republished_witness:
  "str_uuid 77 \<notin> ev_document_id ` set (drop (length (mp_events new_inmemory_publisher)) (mp_events (snd (sweep_once
      inmemory_publisher_ops default_settings sample_time (\<lambda>_. ''e'') (\<lambda>_. ''now'')
      \<lparr>db_documents = [deleted_row sample_time sample_row], db_tenants = [], db_up = True\<rparr> new_inmemory_publisher))))"
proof -
  let ?db = "\<lparr>db_documents = [deleted_row sample_time sample_row], db_tenants = [], db_up = True\<rparr>"
  have "db_inv ?db" "row_of ?db 77 = Some (deleted_row sample_time sample_row)" "doc_status (deleted_row sample_time sample_row) = DELETED"
    "db_up ?db" "mp_available new_inmemory_publisher"
    by (simp_all add: db_inv_def row_ok_def row_of_def deleted_row_def sample_row_def new_document_def new_inmemory_publisher_def)
  note h = deleted_never_republished [OF this(1,4,5,2,3) prod.collapse [symmetric],
      of default_settings sample_time "\<lambda>_. ''e''" "\<lambda>_. ''now''"]
  have "y \<notin> f ` A" if "\<forall>x \<in> A. f x \<noteq> y" for f :: "doc_event \<Rightarrow> string" and y A using that by blast
  from this [OF h] show ?thesis .
qed

end
