(* ===== verification/Consumer.thy ===== *)
theory Consumer
  imports Reconciler "HOL-Library.Multiset"
begin

text \<open>
  \<open>workers/consumer.py\<close>: the batching consumer.  A delivery is its tag, the decoded body (\<open>None\<close> if it
  is not JSON) and its headers.  The calls on the channel are recorded in order as
  \<open>channel_act\<close>s; a channel call that raises ends the worker like any other exception and has no
  case of its own.  \<open>proc\<close> is \<open>IndexingProcessor.process\<close>, a function on events and the
  processor's world.  One turn of the \<open>while\<close> loop takes what \<open>wait_for\<close> yields (\<open>Delivered\<close>,
  \<open>TimedOut\<close>) and the two clock readings of that turn; the list of turns ends when \<open>stop\<close> was called
  or the iterator is exhausted (\<open>Exhausted\<close>).

  An event whose identifier is not text makes \<open>uuid.UUID\<close> raise inside \<open>process\<close>, which is not
  caught: \<open>flush\<close> raises.  (The events of the publishers have text in every text field.)
\<close>

record delivery =
  dl_tag :: nat
  dl_body :: "json option"
  dl_headers :: "(string \<times> json) list"

datatype channel_act =
    AckMsg nat
  | NackMsg nat
  | PublishTo string "json option" string

definition count_of :: "json \<Rightarrow> int" where
  "count_of entry =
     (case entry of
        JObj kvs \<Rightarrow>
          (case map_of kvs ''count'' of
             None \<Rightarrow> 0
           | Some v \<Rightarrow> (case py_int_json v of Inr n \<Rightarrow> n | Inl e \<Rightarrow> 0))
      | _ \<Rightarrow> 0)"

definition death_count :: "(string \<times> json) list \<Rightarrow> int result" where
  "death_count headers =
     (case map_of headers ''x-death'' of
        None \<Rightarrow> Inr 0
      | Some (JArr deaths) \<Rightarrow> Inr (sum_list (map count_of deaths))
      | Some (JInt n) \<Rightarrow> (if n = 0 then Inr 0 else Inl TypeErr)
      | Some (JFloat x) \<Rightarrow> (if x = 0 then Inr 0 else Inl TypeErr)
      | Some (JBool b) \<Rightarrow> (if \<not> b then Inr 0 else Inl TypeErr)
      | Some _ \<Rightarrow> Inr 0)"

definition to_dlq :: "settings \<Rightarrow> delivery \<Rightarrow> doc_event \<Rightarrow> channel_act list" where
  "to_dlq st message event = [PublishTo (queue_exchange st @ ''.dlq'') (dl_body message) (ev_type event)]"

fun settle_all :: "settings \<Rightarrow> string set \<Rightarrow> (delivery \<times> doc_event) list \<Rightarrow> unit result \<times> channel_act list" where
  "settle_all st failed [] = (Inr (), [])"
| "settle_all st failed ((message, event) # rest) =
     (if ev_document_id event \<in> failed then
        (case death_count (dl_headers message) of
           Inl e \<Rightarrow> (Inl e, [])
         | Inr n \<Rightarrow>
             (let acts = (if n + 1 \<ge> max_index_attempts st
                          then to_dlq st message event @ [AckMsg (dl_tag message)]
                          else [NackMsg (dl_tag message)])
              in case settle_all st failed rest of (r, further) \<Rightarrow> (r, acts @ further)))
      else (case settle_all st failed rest of (r, further) \<Rightarrow> (r, AckMsg (dl_tag message) # further)))"

fun text_events :: "wire_event list \<Rightarrow> doc_event list result" where
  "text_events [] = Inr []"
| "text_events (w # ws) =
     rbind (text_event w) (\<lambda>e. rbind (text_events ws) (\<lambda>es. Inr (e # es)))"

definition flush ::
  "(doc_event list \<Rightarrow> 'w \<Rightarrow> process_outcome result \<times> 'w) \<Rightarrow> settings \<Rightarrow> (delivery \<times> wire_event) list \<Rightarrow> 'w
   \<Rightarrow> unit result \<times> channel_act list \<times> 'w" where
  "flush proc st batch w =
     (case text_events (map snd batch) of
        Inl e \<Rightarrow> (Inl e, [], w)
      | Inr events \<Rightarrow>
          (case proc events w of
             (Inl e, w1) \<Rightarrow> (Inl e, [], w1)
           | (Inr outcome, w1) \<Rightarrow>
               (case settle_all st (set (po_failed outcome)) (zip (map fst batch) events) of
                  (r, acts) \<Rightarrow> (r, acts, w1))))"

datatype feed = Delivered delivery | TimedOut | Exhausted

record 'w consumer =
  cs_batch :: "(delivery \<times> wire_event) list"
  cs_deadline :: "real option"
  cs_acts :: "channel_act list"
  cs_world :: 'w

definition parse_message :: "string \<Rightarrow> delivery \<Rightarrow> wire_event result" where
  "parse_message fresh message =
     (case dl_body message of
        None \<Rightarrow> Inl ValueErr
      | Some (JObj payload) \<Rightarrow> from_dict fresh payload
      | Some _ \<Rightarrow> Inl TypeErr)"

definition linger :: "settings \<Rightarrow> real" where
  "linger st = of_int (worker_batch_linger_ms st) / 1000"

definition receive :: "settings \<Rightarrow> string \<Rightarrow> real \<Rightarrow> delivery \<Rightarrow> 'w consumer \<Rightarrow> 'w consumer" where
  "receive st fresh now message c =
     (let c1 = (case parse_message fresh message of
                  Inr event \<Rightarrow> c\<lparr>cs_batch := cs_batch c @ [(message, event)]\<rparr>
                | Inl e \<Rightarrow> c\<lparr>cs_acts := cs_acts c @ [AckMsg (dl_tag message)]\<rparr>)
      in if cs_deadline c1 = None then c1\<lparr>cs_deadline := Some (now + linger st)\<rparr> else c1)"

definition flush_batch ::
  "(doc_event list \<Rightarrow> 'w \<Rightarrow> process_outcome result \<times> 'w) \<Rightarrow> settings \<Rightarrow> 'w consumer \<Rightarrow> unit result \<times> 'w consumer" where
  "flush_batch proc st c =
     (case flush proc st (cs_batch c) (cs_world c) of
        (Inl e, acts, w) \<Rightarrow> (Inl e, c\<lparr>cs_acts := cs_acts c @ acts, cs_world := w\<rparr>)
      | (Inr _, acts, w) \<Rightarrow>
          (Inr (), c\<lparr>cs_acts := cs_acts c @ acts, cs_world := w, cs_batch := [], cs_deadline := None\<rparr>))"

definition batch_due :: "settings \<Rightarrow> real \<Rightarrow> 'w consumer \<Rightarrow> bool" where
  "batch_due st now c \<longleftrightarrow>
     cs_batch c \<noteq> [] \<and>
     (int (length (cs_batch c)) \<ge> worker_batch_size st \<or>
      (case cs_deadline c of None \<Rightarrow> False | Some d \<Rightarrow> now \<ge> d))"

fun consumer_run ::
  "(doc_event list \<Rightarrow> 'w \<Rightarrow> process_outcome result \<times> 'w) \<Rightarrow> settings \<Rightarrow> (feed \<times> string \<times> real \<times> real) list
   \<Rightarrow> 'w consumer \<Rightarrow> unit result \<times> 'w consumer" where
  "consumer_run proc st [] c = (if cs_batch c \<noteq> [] then flush_batch proc st c else (Inr (), c))"
| "consumer_run proc st ((Exhausted, fresh, t1, t2) # turns) c =
     (if cs_batch c \<noteq> [] then flush_batch proc st c else (Inr (), c))"
| "consumer_run proc st ((TimedOut, fresh, t1, t2) # turns) c =
     (if batch_due st t2 c
      then (case flush_batch proc st c of
              (Inl e, c1) \<Rightarrow> (Inl e, c1)
            | (Inr _, c1) \<Rightarrow> consumer_run proc st turns c1)
      else consumer_run proc st turns c)"
| "consumer_run proc st ((Delivered message, fresh, t1, t2) # turns) c =
     (let c1 = receive st fresh t1 message c
      in if batch_due st t2 c1
         then (case flush_batch proc st c1 of
                 (Inl e, c2) \<Rightarrow> (Inl e, c2)
               | (Inr _, c2) \<Rightarrow> consumer_run proc st turns c2)
         else consumer_run proc st turns c1)"

text \<open>The tags an action list settles, and the deliveries the loop takes from its feed.\<close>

fun settled :: "channel_act list \<Rightarrow> nat list" where
  "settled [] = []"
| "settled (AckMsg t # acts) = t # settled acts"
| "settled (NackMsg t # acts) = t # settled acts"
| "settled (PublishTo e b k # acts) = settled acts"

fun taken :: "(feed \<times> string \<times> real \<times> real) list \<Rightarrow> nat list" where
  "taken [] = []"
| "taken ((Exhausted, _) # turns) = []"
| "taken ((TimedOut, _) # turns) = taken turns"
| "taken ((Delivered m, _) # turns) = dl_tag m # taken turns"

text \<open>
  The \<open>x-death\<close> header RabbitMQ documents for a message that went \<open>k\<close> times through the retry
  cycle: one entry per queue and reason, each with its own count (rejected from the work queue,
  expired from the retry queue).
\<close>

definition x_death :: "settings \<Rightarrow> int \<Rightarrow> (string \<times> json) list" where
  "x_death st k =
     (if k = 0 then []
      else [(''x-death'', JArr
        [JObj [(''count'', JInt k), (''reason'', JStr ''expired''), (''queue'', JStr (queue_retry_name st))],
         JObj [(''count'', JInt k), (''reason'', JStr ''rejected''), (''queue'', JStr (queue_name st))]])])"

subsection \<open>Lemmas\<close>

lemma settled_append [simp]: "settled (xs @ ys) = settled xs @ settled ys"
  by (induction xs rule: settled.induct) auto

lemma settle_all_settled:
  "settle_all st failed batch = (Inr (), acts) \<Longrightarrow> settled acts = map (dl_tag \<circ> fst) batch"
proof (induction batch arbitrary: acts)
  case (Cons me rest)
  obtain m e where me: "me = (m, e)" by force
  obtain r further where s: "settle_all st failed rest = (r, further)" by force
  from Cons.prems have "r = Inr ()"
    by (auto simp: me s Let_def split: if_splits sum.splits)
  with Cons.IH s have "settled further = map (dl_tag \<circ> fst) rest" by simp
  with Cons.prems show ?case
    by (auto simp: me s Let_def to_dlq_def split: if_splits sum.splits)
qed simp

lemma text_events_length: "text_events ws = Inr es \<Longrightarrow> length es = length ws"
  by (induction ws arbitrary: es) (auto simp: rbind_def split: sum.splits)

lemma flush_settles:
  assumes "flush proc st batch w = (Inr (), acts, w')"
  shows "settled acts = map (dl_tag \<circ> fst) batch"
proof -
  obtain events out where e: "text_events (map snd batch) = Inr events" "proc events w = (Inr out, w')"
    "settle_all st (set (po_failed out)) (zip (map fst batch) events) = (Inr (), acts)"
    using assms by (auto simp: flush_def split: sum.splits prod.splits)
  have "map (dl_tag \<circ> fst) (zip (map fst batch) events) = map dl_tag (map fst (zip (map fst batch) events))"
    by simp
  also have "\<dots> = map (dl_tag \<circ> fst) batch" using text_events_length [OF e(1)] by simp
  finally show ?thesis using settle_all_settled [OF e(3)] by simp
qed

lemma flush_batch_settles:
  assumes "flush_batch proc st c = (Inr (), c')"
  shows "settled (cs_acts c') = settled (cs_acts c) @ map (dl_tag \<circ> fst) (cs_batch c) \<and> cs_batch c' = []"
  using assms flush_settles by (fastforce simp: flush_batch_def split: prod.splits sum.splits)

lemma receive_tags:
  "mset (settled (cs_acts (receive st f t m c))) + mset (map (dl_tag \<circ> fst) (cs_batch (receive st f t m c))) =
   mset (settled (cs_acts c)) + mset (map (dl_tag \<circ> fst) (cs_batch c)) + {#dl_tag m#}"
  by (simp add: receive_def Let_def split: sum.splits)

lemma consumer_run_settles:
  "consumer_run proc st turns c = (Inr (), c') \<Longrightarrow>
   mset (settled (cs_acts c')) = mset (settled (cs_acts c)) + mset (map (dl_tag \<circ> fst) (cs_batch c)) + mset (taken turns)"
proof (induction proc st turns c rule: consumer_run.induct)
  case (3 proc st fresh t1 t2 turns c)
  then show ?case
    by (auto simp: comp_def split: if_splits prod.splits sum.splits dest!: flush_batch_settles)
next
  case (4 proc st message fresh t1 t2 turns c)
  let ?c1 = "receive st fresh t1 message c"
  have "mset (settled (cs_acts c')) = mset (settled (cs_acts ?c1)) + mset (map (dl_tag \<circ> fst) (cs_batch ?c1)) + mset (taken turns)"
    using 4 by (auto simp: Let_def comp_def split: if_splits prod.splits sum.splits dest!: flush_batch_settles)
  then show ?case using receive_tags [of st fresh t1 message c] by (simp add: comp_def)
qed (auto split: if_splits dest!: flush_batch_settles)

lemma death_count_x_death: "death_count (x_death st k) = Inr (2 * k)"
  by (simp add: death_count_def x_death_def count_of_def)

subsection \<open>Properties\<close>

text \<open>
  A consumer that ends normally has settled every delivery it took exactly once: malformed ones, indexed ones,
  failed ones, and those still waiting in the batch when it was stopped.
\<close>

theorem every_delivery_settled_once:
  assumes "consumer_run proc st turns \<lparr>cs_batch = [], cs_deadline = None, cs_acts = [], cs_world = w\<rparr> = (Inr (), c')"
  shows "mset (settled (cs_acts c')) = mset (taken turns)"
  using consumer_run_settles [OF assms] by simp

theorem every_delivery_settled_once_witness:
  "mset (settled (cs_acts (snd (consumer_run (\<lambda>es w. (Inr \<lparr>po_indexed = [], po_deleted = [], po_failed = [], po_skipped = []\<rparr>, w :: nat))
      default_settings [(Delivered \<lparr>dl_tag = 4, dl_body = None, dl_headers = []\<rparr>, ''f'', 0, 0), (TimedOut, ''f'', 0, 1)]
      \<lparr>cs_batch = [], cs_deadline = None, cs_acts = [], cs_world = 0\<rparr>)))) = {#4#}"
proof -
  let ?proc = "\<lambda>es w. (Inr \<lparr>po_indexed = [], po_deleted = [], po_failed = [], po_skipped = []\<rparr>, w :: nat)"
  let ?turns = "[(Delivered \<lparr>dl_tag = 4, dl_body = None, dl_headers = []\<rparr>, ''f'', 0, 0), (TimedOut, ''f'', 0, 1)]"
  let ?c = "\<lparr>cs_batch = [], cs_deadline = None, cs_acts = [], cs_world = 0\<rparr>"
  have r: "fst (consumer_run ?proc default_settings ?turns ?c) = Inr ()"
    by (simp add: receive_def parse_message_def batch_due_def Let_def)
  obtain c' where c': "consumer_run ?proc default_settings ?turns ?c = (Inr (), c')" using r by (metis prod.collapse)
  from every_delivery_settled_once [OF c'] show ?thesis unfolding c' by simp
qed

text \<open>
  When a failed event goes to the dead-letter queue: after \<open>k\<close> trips through the retry cycle the broker's header
  counts each trip twice (rejected and expired), so the event is published to the dead-letter exchange and acknowledged once
  \<open>2 * k + 1\<close> reaches the configured number of attempts, and is sent round again before that.
\<close>

theorem dlq_after_retries:
  "settle_all st (insert (ev_document_id e) F) [(\<lparr>dl_tag = t, dl_body = b, dl_headers = x_death st k\<rparr>, e)] =
     (Inr (), if 2 * k + 1 \<ge> max_index_attempts st
              then [PublishTo (queue_exchange st @ ''.dlq'') b (ev_type e), AckMsg t] else [NackMsg t])"
  by (simp add: death_count_x_death to_dlq_def)

end
