(* ===== verification/System.thy ===== *)
theory System
  imports Api Consumer
begin

text \<open>
  The whole service over its in-process adapters (\<open>build_test_container\<close>): requests, worker batches, reconciliation
  sweeps and outages as steps on \<open>app_world\<close>, the invariant of the reachable states, and tenant isolation.

  \<open>cache_ok\<close> speaks of every entry a reader can see from time \<open>T\<close> on: under a search key lies a response
  to the tenant of the key whose hits are that tenant's documents, under a document key the dump of that
  tenant's document, under a tenant key an active tenant with that key hash, under a generation key a number.
\<close>

definition owned :: "database \<Rightarrow> string \<Rightarrow> string set" where
  "owned db t = {str_uuid u | u d. row_of db u = Some d \<and> doc_tenant_id d = t}"

definition entry_ok :: "codec \<Rightarrow> (string \<Rightarrow> string) \<Rightarrow> database \<Rightarrow> string \<Rightarrow> cache_text \<Rightarrow> bool" where
  "entry_ok C hexdigest db k v \<longleftrightarrow>
     (\<forall>t g q. k = query_key hexdigest t g q \<longrightarrow>
        (\<exists>r. v = JsonText (JObj (cacheable C r)) \<and> response_of (owned db) t r)) \<and>
     (\<forall>t u. k = document_key t (str_uuid u) \<longrightarrow>
        (\<exists>r. v = JsonText (dump_doc C r) \<and> rs_tenant_id r = t \<and> rs_id r = u)) \<and>
     (\<forall>h. k = tenant_key h \<longrightarrow>
        (\<exists>t \<in> set (db_tenants db). v = JsonText (tenant_json t) \<and> tn_api_key_hash t = h \<and> tn_status t = ''active'')) \<and>
     (\<forall>t. k = search_generation_key t \<longrightarrow> (\<exists>n. v = JsonText (JInt n)))"

definition cache_ok :: "codec \<Rightarrow> (string \<Rightarrow> string) \<Rightarrow> database \<Rightarrow> real \<Rightarrow> inmemory_cache \<Rightarrow> bool" where
  "cache_ok C hexdigest db T c \<longleftrightarrow>
     (\<forall>now k v. T \<le> now \<longrightarrow> im_look now c k = Some v \<longrightarrow> entry_ok C hexdigest db k v)"

type_synonym test_world = "(inmemory_cache, inmemory_publisher, inmemory_engine, unit) app_world"

text \<open>\<open>build_test_container\<close>: the in-process adapters and no Redis client behind the limiter.\<close>

definition build_test_container ::
  "settings \<Rightarrow> codec \<Rightarrow> (string \<Rightarrow> string) \<Rightarrow> (string \<Rightarrow> json result) \<Rightarrow> (string list \<Rightarrow> string list) \<Rightarrow> int
   \<Rightarrow> (inmemory_cache, inmemory_publisher, inmemory_engine, unit) services" where
  "build_test_container st C hexdigest loads set_order took =
     \<lparr>sv_cache = inmemory_ops, sv_pub = inmemory_publisher_ops, sv_engine = inmemory_engine_ops set_order took,
      sv_script = None, sv_codec = C, sv_hexdigest = hexdigest, sv_json_loads = loads, sv_settings = st\<rparr>"

definition sys_inv :: "codec \<Rightarrow> (string \<Rightarrow> string) \<Rightarrow> real \<Rightarrow> test_world \<Rightarrow> bool" where
  "sys_inv C hexdigest T w \<longleftrightarrow>
     db_inv (aw_db w) \<and> coherent (aw_db w) (aw_engine w) \<and> cache_ok C hexdigest (aw_db w) T (aw_cache w)"

definition ordered_readings :: "real \<Rightarrow> readings \<Rightarrow> bool" where
  "ordered_readings T rg \<longleftrightarrow>
     T \<le> rg_t1 rg \<and> rg_t1 rg \<le> rg_t2 rg \<and> rg_t2 rg \<le> rg_t3 rg \<and> rg_t3 rg \<le> rg_t4 rg \<and> rg_t4 rg \<le> rg_t5 rg"

definition rows_kept :: "database \<Rightarrow> database \<Rightarrow> bool" where
  "rows_kept db db' \<longleftrightarrow>
     db_tenants db' = db_tenants db \<and>
     (\<forall>u d. row_of db u = Some d \<longrightarrow> (\<exists>d'. row_of db' u = Some d' \<and> doc_tenant_id d' = doc_tenant_id d))"

text \<open>Steps of the running system; the first component is the clock of the cache.\<close>

inductive sys_step ::
  "settings \<Rightarrow> codec \<Rightarrow> (string \<Rightarrow> string) \<Rightarrow> (string \<Rightarrow> json result) \<Rightarrow> (string list \<Rightarrow> string list) \<Rightarrow> (string \<Rightarrow> uuid option)
   \<Rightarrow> real \<times> test_world \<Rightarrow> real \<times> test_world \<Rightarrow> bool"
  for st C hexdigest loads set_order parse_path where
  request: "ordered_readings T rg \<Longrightarrow>
     endpoint (build_test_container st C hexdigest loads set_order took) rg parse_path x_api_key req w = (r, d, w') \<Longrightarrow>
     sys_step st C hexdigest loads set_order parse_path (T, w) (rg_t5 rg, w')"
| worker: "T \<le> t \<Longrightarrow>
     process (Some inmemory_ops) (inmemory_engine_ops set_order took) set_order now t ok events
       \<lparr>pw_db = aw_db w, pw_cache = aw_cache w, pw_engine = aw_engine w\<rparr> = (r, pw) \<Longrightarrow>
     sys_step st C hexdigest loads set_order parse_path (T, w)
       (t, w\<lparr>aw_db := pw_db pw, aw_cache := pw_cache pw, aw_engine := pw_engine pw\<rparr>)"
| sweep: "sweep_once inmemory_publisher_ops st now evid occ (aw_db w) (aw_pub w) = (n, p) \<Longrightarrow>
     sys_step st C hexdigest loads set_order parse_path (T, w) (T, w\<lparr>aw_pub := p\<rparr>)"
| drain: "sys_step st C hexdigest loads set_order parse_path (T, w) (T, w\<lparr>aw_pub := snd (mp_drain (aw_pub w))\<rparr>)"
| outage: "sys_step st C hexdigest loads set_order parse_path (T, w)
     (T, w\<lparr>aw_db := (aw_db w)\<lparr>db_up := a\<rparr>, aw_cache := (aw_cache w)\<lparr>im_available := b\<rparr>,
           aw_engine := (aw_engine w)\<lparr>ie_available := c\<rparr>, aw_pub := (aw_pub w)\<lparr>mp_available := d\<rparr>\<rparr>)"

inductive sys_reach ::
  "settings \<Rightarrow> codec \<Rightarrow> (string \<Rightarrow> string) \<Rightarrow> (string \<Rightarrow> json result) \<Rightarrow> (string list \<Rightarrow> string list) \<Rightarrow> (string \<Rightarrow> uuid option)
   \<Rightarrow> tenant list \<Rightarrow> real \<times> test_world \<Rightarrow> bool"
  for st C hexdigest loads set_order parse_path tenants where
  start: "sys_reach st C hexdigest loads set_order parse_path tenants
     (T, \<lparr>aw_db = \<lparr>db_documents = [], db_tenants = tenants, db_up = True\<rparr>, aw_cache = new_inmemory_cache,
          aw_pub = new_inmemory_publisher, aw_engine = new_inmemory_engine,
          aw_limiter = \<lparr>rl_burst_ratio = rate_limit_burst_ratio st, rl_local = []\<rparr>, aw_script = ()\<rparr>)"
| more: "sys_reach st C hexdigest loads set_order parse_path tenants s \<Longrightarrow>
     sys_step st C hexdigest loads set_order parse_path s s' \<Longrightarrow>
     sys_reach st C hexdigest loads set_order parse_path tenants s'"

subsection \<open>Entries of the cache\<close>

lemma query_key_classes:
  assumes "hex_text hx"
  shows "query_key hx t g q \<noteq> document_key t' (str_uuid u)" "query_key hx t g q \<noteq> search_generation_key t'"
    "query_key hx t g q \<noteq> tenant_key h"
  using search_key_not_document [OF assms] search_key_not_generation [OF assms] tenant_key_prefix(3)
  by (auto simp: query_key_def) (metis tenant_key_prefix(3))

lemma entry_ok_generation: "hex_text hx \<Longrightarrow> entry_ok C hx db (search_generation_key t) (JsonText (JInt n))"
  using query_key_classes(2) document_key_not_generation tenant_key_prefix(2) by (auto simp: entry_ok_def) metis+

lemma entry_ok_search:
  assumes "hex_text hx" "response_of (owned db) t r"
  shows "entry_ok C hx db (query_key hx t g q) (JsonText (JObj (cacheable C r)))"
proof -
  have "t' = t" if "query_key hx t g q = query_key hx t' g' q'" for t' g' q'
    using search_key_inject [OF assms(1) that [unfolded query_key_def]] by simp
  then show ?thesis
    using assms(2) query_key_classes [OF assms(1)] unfolding entry_ok_def by blast
qed

lemma entry_ok_document:
  assumes "hex_text hx" "rs_tenant_id r = t" "rs_id r = u"
  shows "entry_ok C hx db (document_key t (str_uuid u)) (JsonText (dump_doc C r))"
  using assms document_key_inject query_key_classes(1) [OF assms(1)] tenant_key_prefix(1) document_key_not_generation
  unfolding entry_ok_def by metis

lemma entry_ok_tenant:
  assumes "hex_text hx" "t \<in> set (db_tenants db)" "tn_status t = ''active''"
  shows "entry_ok C hx db (tenant_key (tn_api_key_hash t)) (JsonText (tenant_json t))"
proof -
  have "h = tn_api_key_hash t" if "tenant_key (tn_api_key_hash t) = tenant_key h" for h
    using that by (simp add: tenant_key_def)
  then show ?thesis
    using assms query_key_classes(3) [OF assms(1)] tenant_key_prefix(1,2) unfolding entry_ok_def by metis
qed

lemma cache_ok_later: "cache_ok C hx db T c \<Longrightarrow> T \<le> T' \<Longrightarrow> cache_ok C hx db T' c"
  unfolding cache_ok_def by (meson order.trans)

lemma cache_ok_get:
  "cache_ok C hx db T c \<Longrightarrow> T \<le> now \<Longrightarrow> cache_ok C hx db now (snd (get_json inmemory_ops now k c))"
  unfolding cache_ok_def using imc.get_json_shrinks by (meson order.trans)

lemma cache_ok_delete: "cache_ok C hx db T c \<Longrightarrow> cache_ok C hx db T (cc_delete inmemory_ops ks c)"
  unfolding cache_ok_def using imc.cc_delete_shrinks by blast

lemma cache_ok_set:
  assumes "cache_ok C hx db T c" "entry_ok C hx db k (JsonText v)"
  shows "cache_ok C hx db T (set_json inmemory_ops now k v ttl c)"
proof (cases "im_available c")
  case True
  then show ?thesis using assms unfolding cache_ok_def by (auto simp: imc.set_json_look split: if_splits)
next
  case False
  then show ?thesis using assms by (simp add: imc.set_json_down)
qed

lemma cc_incr_snd: "snd (cc_incr B now k c) = snd (cincr B now k c)"
  by (auto simp: cc_incr_def split: prod.splits sum.splits)

lemma cache_ok_number:
  assumes "cache_ok C hx db T c" "T \<le> now"
  shows "\<exists>n. im_look now c (search_generation_key t) = None \<or> im_look now c (search_generation_key t) = Some (JsonText (JInt n))"
  using assms unfolding cache_ok_def entry_ok_def by (metis not_None_eq)

lemma cache_ok_invalidate:
  assumes "cache_ok C hx db T c" "T \<le> now" "hex_text hx"
  shows "cache_ok C hx db now (snd (cc_incr inmemory_ops now (search_generation_key t) c))"
proof (cases "im_available c")
  case True
  show ?thesis unfolding cache_ok_def
  proof (intro allI impI)
    fix n k v
    assume n: "now \<le> n" and v: "im_look n (snd (cc_incr inmemory_ops now (search_generation_key t) c)) k = Some v"
    show "entry_ok C hx db k v"
    proof (cases "k = search_generation_key t")
      case False
      with v have "im_look n c k = Some v" by (simp add: imc.cc_incr_frame [OF True n])
      then show ?thesis using assms(1,2) n unfolding cache_ok_def by (meson order.trans)
    next
      case gen: True
      from cache_ok_number [OF assms(1,2)] obtain j
        where "im_look now c k = None \<or> im_look now c k = Some (JsonText (JInt j))" unfolding gen by blast
      from im_incr_eq [OF True this refl] have "\<exists>m. v = JsonText (JInt m)"
        using v im_get_eq(2) [OF True, of now k]
        by (auto simp: gen cc_incr_snd inmemory_ops_def im_set_look split: if_splits)
      then show ?thesis using entry_ok_generation [OF assms(3)] gen by blast
    qed
  qed
next
  case False
  then show ?thesis using cache_ok_later [OF assms(1,2)] by (simp add: imc.cc_incr_down)
qed

text \<open>Growing the database keeps the entries good.\<close>

lemma cache_ok_db:
  assumes "cache_ok C hx db T c" "\<And>t. owned db t \<subseteq> owned db' t" "db_tenants db' = db_tenants db"
  shows "cache_ok C hx db' T c"
proof -
  have "response_of (owned db') t r" if "response_of (owned db) t r" for t r
    using that assms(2) by (auto simp: response_of_def)
  then have "entry_ok C hx db' k v" if "entry_ok C hx db k v" for k v
    using that unfolding entry_ok_def assms(3) by blast
  with assms(1) show ?thesis unfolding cache_ok_def by blast
qed

lemma cache_ok_search: "cache_ok C hx db T c \<Longrightarrow> search_cache_ok im_look C hx (owned db) T c"
  unfolding cache_ok_def search_cache_ok_def entry_ok_def by blast

lemma cache_ok_doc: "cache_ok C hx db T c \<Longrightarrow> doc_cache_ok im_look C T c"
  unfolding cache_ok_def doc_cache_ok_def entry_ok_def by blast

subsection \<open>Rows keep their tenant\<close>

lemma rows_kept_refl [simp]: "rows_kept db db"
  by (simp add: rows_kept_def)

lemma rows_kept_cache: "rows_kept db db' \<Longrightarrow> cache_ok C hx db T c \<Longrightarrow> cache_ok C hx db' T c"
  by (rule cache_ok_db) (force simp: rows_kept_def owned_def)+

lemma rows_kept_create:
  assumes "repo_create d db = Inr db'"
  shows "rows_kept db db'"
proof -
  have "row_of db' u = Some r" if "row_of db u = Some r" for u r
  proof -
    have "u \<noteq> doc_id d" using assms row_of_Some [OF that] by (auto simp: repo_create_def image_iff split: if_splits)
    then show ?thesis using repo_create_row [OF assms] that by simp
  qed
  then show ?thesis using repo_create_up [OF assms] by (auto simp: rows_kept_def)
qed

lemma rows_kept_mark: "repo_mark_indexed now ids db = Inr db' \<Longrightarrow> rows_kept db db'"
  using repo_mark_indexed_row [of now ids db db']
  by (auto simp: rows_kept_def) (auto simp: repo_mark_indexed_def update_rows_def split: if_splits)

lemma coherent_visible:
  assumes "coherent db en"
  shows "ie_visible en t \<subseteq> owned db t"
proof
  fix i assume "i \<in> ie_visible en t"
  then obtain sd where sd: "sd \<in> set (corpus_of t en)" "i = sd_document_id sd" by (auto simp: ie_visible_def)
  from corpus_of_tenant [OF sd(1)] obtain k where k: "(k, sd) \<in> set (ie_docs en)" "sd_tenant_id sd = t" by auto
  have "engine_inv en" using assms by (simp add: coherent_def)
  with k(1) have "map_of (ie_docs en) k = Some sd" "sd_document_id sd = k" by (auto simp: engine_inv_def docs_ok_def)
  with assms have "stored_ok db i sd" using sd(2) by (simp add: coherent_def)
  with k(2) show "i \<in> owned db t" by (auto simp: stored_ok_def owned_def)
qed

subsection \<open>Every operation keeps the invariant\<close>

lemma ds_create_effect:
  assumes "ds_create inmemory_ops P t cr up uid evid occ ok tn p w = (r, w')"
  shows "(w_db w' = w_db w \<and> w_cache w' = w_cache w) \<or>
    (repo_create (new_document cr up uid tn p) (w_db w) = Inr (w_db w') \<and>
     w_cache w' = snd (cc_incr inmemory_ops t (search_generation_key tn) (w_cache w)))"
  using assms by (auto simp: ds_create_def Let_def invalidate_tenant_def split: sum.splits if_splits)

lemma ds_get_effect:
  assumes "ds_get inmemory_ops C st t1 t2 tn u w = (r, w')" "db_inv (w_db w)"
    "cache_ok C hx (w_db w) T (w_cache w)" "T \<le> t1" "t1 \<le> t2" "hex_text hx"
  shows "w_db w' = w_db w \<and> cache_ok C hx (w_db w) t2 (w_cache w')"
proof -
  let ?k = "document_key tn (str_uuid u)"
  obtain v c1 where g: "get_json inmemory_ops t1 ?k (w_cache w) = (v, c1)" by force
  have ok: "cache_ok C hx (w_db w) t2 c1"
    using cache_ok_later [OF cache_ok_get [OF assms(3,4), of ?k] assms(5)] g by simp
  have set: "cache_ok C hx (w_db w) t2 (set_json inmemory_ops t2 ?k (dump_doc C (from_model d)) ttl c1)"
    if "repo_get tn u False (w_db w) = Inr (Some d)" for d ttl
  proof (rule cache_ok_set [OF ok entry_ok_document [OF assms(6)]])
    show "rs_tenant_id (from_model d) = tn" "rs_id (from_model d) = u"
      using that by (auto simp: repo_get_row [OF assms(2)] from_model_def dest: row_of_Some split: if_splits option.splits)
  qed
  show ?thesis using assms(1) g ok set by (auto simp: ds_get_def Let_def split: option.splits sum.splits)
qed

lemma ds_delete_inv:
  assumes "ds_delete inmemory_ops P t now evid occ ok tn u w = (r, w')" "db_inv (w_db w)" "coherent (w_db w) en"
    "cache_ok C hx (w_db w) T (w_cache w)" "T \<le> t" "hex_text hx"
  shows "db_inv (w_db w') \<and> coherent (w_db w') en \<and> cache_ok C hx (w_db w') t (w_cache w')"
proof (cases r)
  case (Inl e)
  then have "w' = w"
    using assms(1) by (auto simp: ds_delete_def Let_def split: sum.splits option.splits if_splits prod.splits)
  then show ?thesis using assms(2,3) cache_ok_later [OF assms(4,5)] by simp
next
  case (Inr x)
  with assms(1) have del: "ds_delete inmemory_ops P t now evid occ ok tn u w = (Inr (), w')" by simp
  obtain d where d: "repo_get tn u False (w_db w) = Inr (Some d)"
    using del by (auto simp: ds_delete_def split: sum.splits option.splits)
  then have row: "row_of (w_db w) u = Some d" "doc_status d \<noteq> DELETED" "db_up (w_db w)"
    by (auto simp: repo_get_row [OF assms(2)] split: if_splits option.splits)
  have mem: "d \<in> set (db_documents (w_db w))" "doc_id d = u" using row_of_Some [OF row(1)] by auto
  obtain db1 where s: "repo_soft_delete now d (w_db w) = Inr (deleted_row now d, db1)" "w_db w' = db1"
    "w_cache w' = snd (cc_incr inmemory_ops t (search_generation_key tn)
        (cc_delete inmemory_ops [document_key tn (str_uuid u)] (w_cache w)))"
    using del d row(3) by (auto simp: ds_delete_def Let_def repo_soft_delete_def invalidate_tenant_def split: if_splits)
  note inv = repo_soft_delete_inv [OF assms(2) mem(1) row(2) s(1)]
  have "rows_kept (w_db w) db1" unfolding rows_kept_def using inv row(1) mem(2) by auto
  then have "cache_ok C hx db1 t (w_cache w')"
    unfolding s(3) by (rule rows_kept_cache) (rule cache_ok_invalidate [OF cache_ok_delete [OF assms(4)] assms(5,6)])
  moreover have "coherent db1 en" by (rule soft_delete_coherent [OF assms(3,2) mem(1) row(2) s(1)])
  ultimately show ?thesis using inv s(2) by blast
qed

lemma search_effect:
  assumes "search_service_search inmemory_ops E C hx st t1 t2 t3 took rnd tn q (c, e) = (res, c', e')"
    "cache_ok C hx db T c" "T \<le> t1" "t1 \<le> t2" "t2 \<le> t3" "hex_text hx"
    "\<And>r e1. execute E tn q e = (Inr r, e1) \<Longrightarrow> response_of (owned db) tn r"
  shows "cache_ok C hx db t3 c'"
proof -
  obtain g c1 where g: "current_generation inmemory_ops t1 tn c = (g, c1)" by force
  then have c1: "cache_ok C hx db t1 c1"
    using cache_ok_get [OF assms(2,3), of "search_generation_key tn"]
    by (auto simp: current_generation_def split: prod.splits option.splits)
  obtain v c2 where v: "get_json inmemory_ops t2 (query_key hx tn g q) c1 = (v, c2)" by force
  then have c2: "cache_ok C hx db t3 c2"
    using cache_ok_later [OF cache_ok_get [OF c1 assms(4), of "query_key hx tn g q"] assms(5)] by simp
  have "cache_ok C hx db t3 (set_json inmemory_ops t3 (query_key hx tn g q) (JObj (cacheable C r)) ttl c2)"
    if "execute E tn q e = (Inr r, e1)" for r e1 ttl
    by (rule cache_ok_set [OF c2 entry_ok_search [OF assms(6) assms(7) [OF that]]])
  then show ?thesis
    using assms(1) c2 by (auto simp: search_service_search_def g v single_flight_def split: option.splits prod.splits sum.splits)
qed

subsection \<open>Authentication\<close>

lemma cached_tenant_json [simp]: "cached_tenant loads (tenant_json t) = Inr t"
  by (simp add: cached_tenant_def tenant_json_def tenant_of_json_def)

lemmas container_simps = build_test_container_def services.simps

lemma current_tenant_sound:
  assumes "get_current_tenant (build_test_container st C hx loads so took) t1 t2 key db c = (r, c')"
    "cache_ok C hx db T c" "T \<le> t1" "t1 \<le> t2" "hex_text hx"
  shows "cache_ok C hx db t2 c'"
    and "r = Inr tn \<Longrightarrow> tn \<in> set (db_tenants db) \<and> tn_status tn = ''active'' \<and>
      (\<exists>k. key = Some k \<and> k \<noteq> [] \<and> tn_api_key_hash tn = hx k)"
proof -
  show "cache_ok C hx db t2 c'"
  proof (cases "key = None \<or> key = Some []")
    case True
    then have "c' = c" using assms(1) by (auto simp: get_current_tenant_def)
    then show ?thesis using cache_ok_later [OF assms(2), of t2] assms(3,4) by simp
  next
    case False
    then obtain k where k: "key = Some k" "k \<noteq> []" by auto
    obtain v c1 where g: "get_json inmemory_ops t1 (tenant_key (hx k)) c = (v, c1)" by force
    then have ok: "cache_ok C hx db t2 c1"
      using cache_ok_later [OF cache_ok_get [OF assms(2,3), of "tenant_key (hx k)"] assms(4)] by simp
    have "cache_ok C hx db t2 (set_json inmemory_ops t2 (tenant_key (hx k)) (tenant_json t) ttl c1)"
      if "get_by_api_key_hash (hx k) db = Inr (Some t)" for t ttl
    proof -
      have "t \<in> set (db_tenants db)" "tn_status t = ''active''" "tn_api_key_hash t = hx k"
        using that by (auto simp: get_by_api_key_hash_def dest!: find_Some_in split: if_splits)
      then show ?thesis using cache_ok_set [OF ok entry_ok_tenant [OF assms(5), of t]] by simp
    qed
    then show ?thesis using assms(1) k g ok
      by (auto simp: get_current_tenant_def container_simps hash_api_key_def Let_def split: option.splits sum.splits)
  qed
next
  assume r: "r = Inr tn"
  then obtain k where k: "key = Some k" "k \<noteq> []"
    using assms(1) by (auto simp: get_current_tenant_def split: option.splits if_splits)
  obtain v c1 where g: "get_json inmemory_ops t1 (tenant_key (hx k)) c = (v, c1)" by force
  show "tn \<in> set (db_tenants db) \<and> tn_status tn = ''active'' \<and>
      (\<exists>k. key = Some k \<and> k \<noteq> [] \<and> tn_api_key_hash tn = hx k)"
  proof (cases v)
    case None
    then have "get_by_api_key_hash (hx k) db = Inr (Some tn)"
      using assms(1) r k g
      by (auto simp: get_current_tenant_def container_simps hash_api_key_def Let_def split: option.splits sum.splits)
    then show ?thesis using k
      by (auto simp: get_by_api_key_hash_def dest!: find_Some_in split: if_splits)
  next
    case (Some j)
    have av: "im_available c" using imc.get_json_down [of c t1 "tenant_key (hx k)"] g Some by auto
    have "im_look t1 c (tenant_key (hx k)) = Some (JsonText j)"
      using imc.get_json_value [OF av, of t1 "tenant_key (hx k)"] g Some
      by (auto split: option.splits cache_text.splits if_splits)
    with assms(2,3) have "entry_ok C hx db (tenant_key (hx k)) (JsonText j)" unfolding cache_ok_def by blast
    then obtain t where t: "t \<in> set (db_tenants db)" "j = tenant_json t" "tn_api_key_hash t = hx k" "tn_status t = ''active''"
      unfolding entry_ok_def by blast
    then have "tn = t"
      using assms(1) r k g Some by (simp add: get_current_tenant_def container_simps hash_api_key_def)
    with t k show ?thesis by blast
  qed
qed

lemma protect_sound:
  assumes "protect (build_test_container st C hx loads so took) rg b key w = (r, d, w1)"
    "cache_ok C hx (aw_db w) T (aw_cache w)" "T \<le> rg_t1 rg" "rg_t1 rg \<le> rg_t2 rg" "hex_text hx"
  shows "aw_db w1 = aw_db w \<and> aw_engine w1 = aw_engine w \<and> aw_pub w1 = aw_pub w \<and>
      cache_ok C hx (aw_db w) (rg_t2 rg) (aw_cache w1)"
    and "r = Inr tn \<Longrightarrow> tn \<in> set (db_tenants (aw_db w)) \<and> tn_status tn = ''active'' \<and>
      (\<exists>k. key = Some k \<and> k \<noteq> [] \<and> tn_api_key_hash tn = hx k)"
proof -
  obtain a c1 where a: "get_current_tenant (build_test_container st C hx loads so took) (rg_t1 rg) (rg_t2 rg) key
      (aw_db w) (aw_cache w) = (a, c1)" by force
  note snd = current_tenant_sound [OF a assms(2-5)]
  show "aw_db w1 = aw_db w \<and> aw_engine w1 = aw_engine w \<and> aw_pub w1 = aw_pub w \<and>
      cache_ok C hx (aw_db w) (rg_t2 rg) (aw_cache w1)"
    using assms(1) a snd(1) by (auto simp: protect_def rate_limited_def split: sum.splits prod.splits if_splits)
  assume "r = Inr tn"
  then have "a = Inr tn"
    using assms(1) a by (auto simp: protect_def split: sum.splits prod.splits)
  then show "tn \<in> set (db_tenants (aw_db w)) \<and> tn_status tn = ''active'' \<and>
      (\<exists>k. key = Some k \<and> k \<noteq> [] \<and> tn_api_key_hash tn = hx k)" by (rule snd(2))
qed

subsection \<open>Handlers\<close>

lemma doc_world_simps [simp]:
  "w_db (to_doc_world w) = aw_db w" "w_cache (to_doc_world w) = aw_cache w" "w_pub (to_doc_world w) = aw_pub w"
  "aw_db (with_doc_world w d) = w_db d" "aw_cache (with_doc_world w d) = w_cache d"
  "aw_engine (with_doc_world w d) = aw_engine w"
  by (simp_all add: to_doc_world_def with_doc_world_def)

lemma sys_inv_later: "sys_inv C hx T w \<Longrightarrow> T \<le> T' \<Longrightarrow> sys_inv C hx T' w"
  using cache_ok_later by (auto simp: sys_inv_def)

lemma create_document_inv:
  assumes "create_document (build_test_container st C hx loads so took) rg body tn w = (r, w')"
    "sys_inv C hx T w" "T \<le> rg_t3 rg" "hex_text hx"
  shows "sys_inv C hx (rg_t3 rg) w'"
proof (cases "validate_document_create body")
  case (Inl bad)
  then show ?thesis using assms(1) sys_inv_later [OF assms(2,3)] by (simp add: create_document_def)
next
  case (Inr p)
  obtain x d where x: "ds_create inmemory_ops inmemory_publisher_ops (rg_t3 rg) (rg_created rg) (rg_updated rg) (rg_uuid rg)
      (rg_event_id rg) (rg_occurred rg) (rg_commit_ok rg) (tn_id tn) p (to_doc_world w) = (x, d)" by force
  have w': "w' = with_doc_world w d"
    using assms(1) Inr x by (auto simp: create_document_def container_simps split: sum.splits)
  note inv = assms(2) [unfolded sys_inv_def]
  have "db_inv (w_db d)" using ds_create_inv [OF _ x] inv by simp
  moreover have "coherent (w_db d) (aw_engine w) \<and> cache_ok C hx (w_db d) (rg_t3 rg) (w_cache d)"
    using ds_create_effect [OF x]
  proof (elim disjE conjE)
    assume "w_db d = w_db (to_doc_world w)" "w_cache d = w_cache (to_doc_world w)"
    then show ?thesis using inv cache_ok_later [OF _ assms(3)] by simp
  next
    assume c: "repo_create (new_document (rg_created rg) (rg_updated rg) (rg_uuid rg) (tn_id tn) p)
        (w_db (to_doc_world w)) = Inr (w_db d)"
      and ca: "w_cache d = snd (cc_incr inmemory_ops (rg_t3 rg) (search_generation_key (tn_id tn)) (w_cache (to_doc_world w)))"
    show ?thesis
      using create_coherent [OF _ c] rows_kept_cache [OF rows_kept_create [OF c]]
        cache_ok_invalidate [OF _ assms(3,4)] inv by (simp add: ca)
  qed
  ultimately show ?thesis by (simp add: sys_inv_def w')
qed

lemma get_document_inv:
  assumes "get_document (build_test_container st C hx loads so took) rg pp i tn w = (r, w')"
    "sys_inv C hx T w" "T \<le> rg_t3 rg" "rg_t3 rg \<le> rg_t4 rg" "hex_text hx"
  shows "sys_inv C hx (rg_t4 rg) w'"
proof (cases "pp i")
  case None
  then show ?thesis using assms(1) sys_inv_later [OF assms(2), of "rg_t4 rg"] assms(3,4) by (simp add: get_document_def)
next
  case (Some u)
  obtain x d where x: "ds_get inmemory_ops C st (rg_t3 rg) (rg_t4 rg) (tn_id tn) u (to_doc_world w) = (x, d)" by force
  have w': "w' = with_doc_world w d"
    using assms(1) Some x by (auto simp: get_document_def container_simps split: sum.splits)
  show ?thesis
    using ds_get_effect [OF x _ _ assms(3,4,5)] assms(2) by (simp add: sys_inv_def w')
qed

lemma delete_document_inv:
  assumes "delete_document (build_test_container st C hx loads so took) rg pp i tn w = (r, w')"
    "sys_inv C hx T w" "T \<le> rg_t3 rg" "hex_text hx"
  shows "sys_inv C hx (rg_t3 rg) w'"
proof (cases "pp i")
  case None
  then show ?thesis using assms(1) sys_inv_later [OF assms(2,3)] by (simp add: delete_document_def)
next
  case (Some u)
  obtain x d where x: "ds_delete inmemory_ops inmemory_publisher_ops (rg_t3 rg) (rg_updated rg) (rg_event_id rg)
      (rg_occurred rg) (rg_commit_ok rg) (tn_id tn) u (to_doc_world w) = (x, d)" by force
  have w': "w' = with_doc_world w d"
    using assms(1) Some x by (auto simp: delete_document_def container_simps split: sum.splits)
  show ?thesis
    using ds_delete_inv [OF x _ _ _ assms(3,4), where en = "aw_engine w" and C = C] assms(2) by (simp add: sys_inv_def w')
qed

lemma search_execute_own:
  assumes "coherent db e" "execute (inmemory_engine_ops so took) tn q e = (Inr r, e1)" "sq_tenant_id q = tn"
  shows "response_of (owned db) tn r"
proof -
  have up: "ie_available e" using assms(2) ss.execute_error [of e so took tn q] by (cases "ie_available e") auto
  obtain r' where r': "execute (inmemory_engine_ops so took) tn q e = (Inr r', e)" "sr_tenant_id r' = tn"
    "\<forall>h \<in> set (sr_hits r'). sh_id h \<in> ie_visible e (sq_tenant_id q)"
    using ss.execute_ok [OF up, of so took tn q] by metis
  then have "r = r'" using assms(2) by simp
  with r' assms(3) coherent_visible [OF assms(1), of tn] show ?thesis by (auto simp: response_of_def)
qed

lemma execute_engine_same: "execute (inmemory_engine_ops so took) tn q e = (r, e1) \<Longrightarrow> e1 = e"
  using ims.search_state [of so took q e] by (auto simp: execute_def split: prod.splits sum.splits if_splits)

lemma search_engine_same:
  "search_service_search B (inmemory_engine_ops so took) C hx st t1 t2 t3 tk rnd tn q (c, e) = (x, c', e') \<Longrightarrow> e' = e"
  by (auto simp: search_service_search_def single_flight_def Let_def dest!: execute_engine_same
      split: prod.splits option.splits sum.splits)

lemma search_query_tenant: "search_query_of st p t = Inr q \<Longrightarrow> sq_tenant_id q = t"
  by (auto simp: search_query_of_def Let_def split: if_splits)

lemma scope_tenant: "enforce_tenant_scope rt tn = Inr t \<Longrightarrow> t = tn_id tn"
  by (auto simp: enforce_tenant_scope_def split: option.splits if_splits)

lemma search_documents_inv:
  assumes "search_documents (build_test_container st C hx loads so took) rg p tn w = (r, w')"
    "sys_inv C hx T w" "T \<le> rg_t3 rg" "rg_t3 rg \<le> rg_t4 rg" "rg_t4 rg \<le> rg_t5 rg" "hex_text hx"
  shows "sys_inv C hx (rg_t5 rg) w'"
    and "codec_ok C \<Longrightarrow> r = Inr rsp \<Longrightarrow> \<exists>b. rsp_payload rsp = SearchBody b \<and> response_of (owned (aw_db w)) (tn_id tn) b"
proof -
  have late: "sys_inv C hx (rg_t5 rg) w" using sys_inv_later [OF assms(2)] assms(3-5) by simp
  have inv: "coherent (aw_db w) (aw_engine w)" "cache_ok C hx (aw_db w) T (aw_cache w)" "db_inv (aw_db w)"
    using assms(2) by (simp_all add: sys_inv_def)
  {
    fix q x c e
    assume q: "search_query_of st p (tn_id tn) = Inr q"
      and x: "search_service_search inmemory_ops (inmemory_engine_ops so took) C hx st (rg_t3 rg) (rg_t4 rg) (rg_t5 rg)
        (rg_took rg) (rg_random rg) (tn_id tn) q (aw_cache w, aw_engine w) = (x, c, e)"
    note tq = search_query_tenant [OF q]
    have "coherent (aw_db w) e" using search_engine_same [OF x] inv(1) by simp
    moreover have "cache_ok C hx (aw_db w) (rg_t5 rg) c"
      by (rule search_effect [OF x inv(2) assms(3-6)]) (rule search_execute_own [OF inv(1) _ tq])
    moreover have "codec_ok C \<Longrightarrow> x = Inr b \<Longrightarrow> response_of (owned (aw_db w)) (tn_id tn) b" for b
      using ss.search_sound [OF cache_ok_search [OF inv(2)] assms(3-5) tq coherent_visible [OF inv(1)] x _ assms(6)] by blast
    ultimately have "coherent (aw_db w) e" "cache_ok C hx (aw_db w) (rg_t5 rg) c"
      "\<And>b. codec_ok C \<Longrightarrow> x = Inr b \<Longrightarrow> response_of (owned (aw_db w)) (tn_id tn) b" by blast+
  } note core = this
  show "sys_inv C hx (rg_t5 rg) w'"
    using assms(1) late inv core(1,2)
    by (auto simp: search_documents_def container_simps sys_inv_def dest!: scope_tenant
        split: if_splits sum.splits prod.splits)
  show "codec_ok C \<Longrightarrow> r = Inr rsp \<Longrightarrow> \<exists>b. rsp_payload rsp = SearchBody b \<and> response_of (owned (aw_db w)) (tn_id tn) b"
    using assms(1) core(3)
    by (auto simp: search_documents_def container_simps dest!: scope_tenant split: if_splits sum.splits prod.splits)
qed

subsection \<open>Reachable states\<close>

lemma endpoint_inv:
  assumes "endpoint (build_test_container st C hx loads so took) rg pp key req w = (r, d, w')"
    "sys_inv C hx T w" "ordered_readings T rg" "hex_text hx"
  shows "sys_inv C hx (rg_t5 rg) w'"
proof -
  obtain a d1 w1 where p: "protect (build_test_container st C hx loads so took) rg (bucket_name req) key w = (a, d1, w1)"
    by (metis prod_cases3)
  note t = assms(3) [unfolded ordered_readings_def]
  have "cache_ok C hx (aw_db w) T (aw_cache w)" using assms(2) by (simp add: sys_inv_def)
  from protect_sound(1) [OF p this _ _ assms(4)] t assms(2)
  have inv1: "sys_inv C hx (rg_t3 rg) w1"
    using sys_inv_later [of C hx "rg_t2 rg" w1 "rg_t3 rg"] by (simp add: sys_inv_def)
  show ?thesis
  proof (cases a)
    case (Inl e)
    then have "w' = w1" using assms(1) p by (simp add: endpoint_def)
    then show ?thesis using sys_inv_later [OF inv1] t by simp
  next
    case (Inr tn)
    then have h: "handler (build_test_container st C hx loads so took) rg pp req tn w1 = (r, w')"
      using assms(1) p by (auto simp: endpoint_def split: prod.splits)
    show ?thesis
    proof (cases req)
      case (PostDocument b)
      then show ?thesis using sys_inv_later [OF create_document_inv [OF _ inv1 order.refl assms(4)]] h t by simp
    next
      case (GetDocument i)
      then show ?thesis using sys_inv_later [OF get_document_inv [OF _ inv1 order.refl _ assms(4)]] h t by simp
    next
      case (DeleteDocument i)
      then show ?thesis using sys_inv_later [OF delete_document_inv [OF _ inv1 order.refl assms(4)]] h t by simp
    next
      case (GetSearch p)
      then show ?thesis using search_documents_inv(1) [OF _ inv1 order.refl _ _ assms(4)] h t by simp
    qed
  qed
qed

lemma invalidate_changed_ok:
  assumes "cache_ok C hx db T c" "T \<le> t" "hex_text hx"
  shows "cache_ok C hx db t (invalidate_changed (Some inmemory_ops) so t latest out c)"
proof -
  have "cache_ok C hx db t (fold (\<lambda>x c. snd (cc_incr inmemory_ops t (search_generation_key x) c)) ts c)" for ts
    using cache_ok_later [OF assms(1,2)]
    by (induction ts arbitrary: c) (simp_all add: cache_ok_invalidate [OF _ order.refl assms(3)])
  then show ?thesis by (simp add: invalidate_changed_def Let_def)
qed

lemma process_cache:
  assumes "process (Some inmemory_ops) E so now t ok events w = (r, w')"
    "cache_ok C hx db T (pw_cache w)" "T \<le> t" "hex_text hx"
  shows "cache_ok C hx db t (pw_cache w')"
  using assms(1)
proof (cases rule: process_cases)
  case (batch ds)
  then show ?thesis
    using cache_ok_later [OF assms(2,3)] invalidate_changed_ok [OF assms(2-4)]
    by (auto simp: write_batch_def Let_def split: if_splits prod.splits sum.splits)
qed (use cache_ok_later [OF assms(2,3)] in simp_all)

lemma worker_inv:
  assumes "sys_inv C hx T w" "T \<le> t" "hex_text hx"
    "process (Some inmemory_ops) (inmemory_engine_ops so took) so now t ok events
       \<lparr>pw_db = aw_db w, pw_cache = aw_cache w, pw_engine = aw_engine w\<rparr> = (r, pw)"
  shows "sys_inv C hx t (w\<lparr>aw_db := pw_db pw, aw_cache := pw_cache pw, aw_engine := pw_engine pw\<rparr>)"
proof -
  have db: "pw_db pw = aw_db w \<or> (\<exists>ids. repo_mark_indexed now ids (aw_db w) = Inr (pw_db pw))"
    using process_effect(2) [OF assms(4)] by simp
  then have "rows_kept (aw_db w) (pw_db pw)" using rows_kept_mark by auto
  moreover have "cache_ok C hx (aw_db w) t (pw_cache pw)"
    using process_cache [OF assms(4) _ assms(2,3)] assms(1) by (simp add: sys_inv_def)
  ultimately have "cache_ok C hx (pw_db pw) t (pw_cache pw)" by (rule rows_kept_cache)
  moreover have "db_inv (pw_db pw)" using db assms(1) repo_mark_indexed_inv by (auto simp: sys_inv_def)
  moreover have "coherent (pw_db pw) (pw_engine pw)" using process_coherent [OF _ assms(4)] assms(1) by (simp add: sys_inv_def)
  ultimately show ?thesis by (simp add: sys_inv_def)
qed

lemma outage_inv:
  assumes "sys_inv C hx T w"
  shows "sys_inv C hx T (w\<lparr>aw_db := (aw_db w)\<lparr>db_up := a\<rparr>, aw_cache := (aw_cache w)\<lparr>im_available := b\<rparr>,
           aw_engine := (aw_engine w)\<lparr>ie_available := c\<rparr>, aw_pub := (aw_pub w)\<lparr>mp_available := d\<rparr>\<rparr>)"
proof -
  have row: "row_of (db\<lparr>db_up := a\<rparr>) u = row_of db u" for db u by (simp add: row_of_def)
  have "rows_kept (aw_db w) ((aw_db w)\<lparr>db_up := a\<rparr>)" by (simp add: rows_kept_def row)
  moreover have "im_look n ((aw_cache w)\<lparr>im_available := b\<rparr>) k = im_look n (aw_cache w) k" for n k
    by (simp add: im_look_def)
  ultimately have "cache_ok C hx ((aw_db w)\<lparr>db_up := a\<rparr>) T ((aw_cache w)\<lparr>im_available := b\<rparr>)"
    using rows_kept_cache assms by (fastforce simp: sys_inv_def cache_ok_def)
  then show ?thesis
    using assms by (simp add: sys_inv_def db_inv_def coherent_def engine_inv_def stored_ok_def row)
qed

lemma sys_step_inv:
  assumes "sys_step st C hx loads so pp s s'" "sys_inv C hx (fst s) (snd s)" "hex_text hx"
  shows "sys_inv C hx (fst s') (snd s')"
  using assms
proof (induction rule: sys_step.induct)
  case (request T rg took key req w r d w')
  then show ?case using endpoint_inv [OF request(2)] by simp
next
  case (worker T t took now ok events w r pw)
  then show ?case using worker_inv [OF _ worker(1) _ worker(2)] by simp
next
  case (outage T w a b c d)
  then show ?case using outage_inv by simp
qed (simp_all add: sys_inv_def)

lemma sys_reach_inv:
  assumes "sys_reach st C hx loads so pp tenants s" "hex_text hx"
  shows "sys_inv C hx (fst s) (snd s)"
  using assms
proof (induction rule: sys_reach.induct)
  case (start T)
  then show ?case
    by (simp add: sys_inv_def db_inv_def coherent_def engine_inv_def docs_ok_def new_inmemory_engine_def cache_ok_def
        im_look_def new_inmemory_cache_def)
next
  case (more s s')
  then show ?case using sys_step_inv by blast
qed

lemma endpoint_answer:
  assumes "endpoint (build_test_container st C hx loads so took) rg pp key req w = (Inr rsp, d, w')"
    "sys_inv C hx T w" "ordered_readings T rg" "hex_text hx" "codec_ok C"
  shows "\<exists>tn k. tn \<in> set (db_tenants (aw_db w)) \<and> tn_status tn = ''active'' \<and> key = Some k \<and>
    tn_api_key_hash tn = hx k \<and>
    (\<forall>b. rsp_payload rsp = SearchBody b \<longrightarrow> response_of (owned (aw_db w)) (tn_id tn) b) \<and>
    (\<forall>b. rsp_payload rsp = DocumentBody b \<longrightarrow> rs_tenant_id b = tn_id tn) \<and>
    (\<forall>b. rsp_payload rsp = Accepted b \<longrightarrow> da_tenant_id b = tn_id tn)"
proof -
  obtain tn d1 w1 where p: "protect (build_test_container st C hx loads so took) rg (bucket_name req) key w = (Inr tn, d1, w1)"
    and h: "handler (build_test_container st C hx loads so took) rg pp req tn w1 = (Inr rsp, w')"
    using assms(1) by (auto simp: endpoint_def split: prod.splits sum.splits)
  note t = assms(3) [unfolded ordered_readings_def]
  have co: "cache_ok C hx (aw_db w) T (aw_cache w)" using assms(2) by (simp add: sys_inv_def)
  note ps = protect_sound [OF p co _ _ assms(4)]
  have inv1: "sys_inv C hx (rg_t3 rg) w1" and db: "aw_db w1 = aw_db w"
    using ps(1) t assms(2) sys_inv_later [of C hx "rg_t2 rg" w1 "rg_t3 rg"] by (simp_all add: sys_inv_def)
  have "(\<forall>b. rsp_payload rsp = SearchBody b \<longrightarrow> response_of (owned (aw_db w)) (tn_id tn) b) \<and>
    (\<forall>b. rsp_payload rsp = DocumentBody b \<longrightarrow> rs_tenant_id b = tn_id tn) \<and>
    (\<forall>b. rsp_payload rsp = Accepted b \<longrightarrow> da_tenant_id b = tn_id tn)"
  proof (cases req)
    case (PostDocument body)
    with h show ?thesis
      by (auto simp: create_document_def container_simps new_document_def dest!: ds_create_db split: sum.splits prod.splits)
  next
    case (GetDocument i)
    with h obtain u r e where g: "ds_get inmemory_ops C st (rg_t3 rg) (rg_t4 rg) (tn_id tn) u (to_doc_world w1) = (Inr r, e)"
      "rsp_payload rsp = DocumentBody r"
      by (auto simp: get_document_def container_simps split: option.splits sum.splits prod.splits)
    have "doc_cache_ok im_look C (rg_t3 rg) (aw_cache w1)" "db_inv (aw_db w1)"
      using inv1 cache_ok_doc by (auto simp: sys_inv_def)
    with dsv.get_own_document [OF _ order.refl _ assms(5) g(1)] g(2) show ?thesis by simp
  next
    case (DeleteDocument i)
    with h show ?thesis by (auto simp: delete_document_def split: option.splits sum.splits prod.splits)
  next
    case (GetSearch q)
    with search_documents_inv(2) [OF _ inv1 order.refl _ _ assms(4,5)] h t db show ?thesis by fastforce
  qed
  with ps(2) t show ?thesis by blast
qed

end
