(* ===== verification/Codec.thy ===== *)
theory Codec
  imports Search_Service
begin

text \<open>
  A concrete instance of the two parameters of the services that stand for library code: a JSON codec for the
  response models with the round-trip property \<open>codec_ok\<close>, and a digest whose output is hexadecimal
  text.  The theorems hold for every such codec and digest; these show that the hypotheses can be met, and the
  witnesses evaluate the services with them.
\<close>

fun int_in :: "json \<Rightarrow> int" where "int_in (JInt n) = n" | "int_in j = 0"
fun bool_in :: "json \<Rightarrow> bool" where "bool_in (JBool b) = b" | "bool_in j = False"
fun str_in :: "json \<Rightarrow> string" where "str_in (JStr s) = s" | "str_in j = []"
fun real_in :: "json \<Rightarrow> real" where "real_in (JFloat x) = x" | "real_in j = 0"
fun items_in :: "json \<Rightarrow> json list" where "items_in (JArr xs) = xs" | "items_in j = []"
fun fields_in :: "json \<Rightarrow> (string \<times> json) list" where "fields_in (JObj kvs) = kvs" | "fields_in j = []"

definition dt_json :: "datetime \<Rightarrow> json" where
  "dt_json d = JArr [JInt (int (dt_year d)), JInt (int (dt_month d)), JInt (int (dt_day d)), JInt (int (dt_hour d)),
     JInt (int (dt_minute d)), JInt (int (dt_second d)), JInt (int (dt_micro d)), JBool (dt_aware d)]"

definition dt_in :: "json \<Rightarrow> datetime" where
  "dt_in j = (let n = (\<lambda>i. nat (int_in (items_in j ! i))) in
     \<lparr>dt_year = n 0, dt_month = n 1, dt_day = n 2, dt_hour = n 3, dt_minute = n 4, dt_second = n 5, dt_micro = n 6,
      dt_aware = bool_in (items_in j ! 7)\<rparr>)"

definition opt_json :: "('a \<Rightarrow> json) \<Rightarrow> 'a option \<Rightarrow> json" where
  "opt_json f v = (case v of None \<Rightarrow> JNull | Some x \<Rightarrow> f x)"

definition opt_in :: "(json \<Rightarrow> 'a) \<Rightarrow> json \<Rightarrow> 'a option" where
  "opt_in f j = (if j = JNull then None else Some (f j))"

definition hit_json :: "search_hit \<Rightarrow> json" where
  "hit_json h =
     JArr [JStr (sh_id h), JStr (sh_title h), JFloat (sh_score h), opt_json JStr (sh_snippet h),
           opt_json JStr (sh_content_type h), JArr (map JStr (sh_tags h)), JObj (sh_metadata h),
           opt_json dt_json (sh_created_at h), opt_json dt_json (sh_updated_at h)]"

definition hit_in :: "json \<Rightarrow> search_hit" where
  "hit_in j = (let x = (\<lambda>i. items_in j ! i) in
     \<lparr>sh_id = str_in (x 0), sh_title = str_in (x 1), sh_score = real_in (x 2), sh_snippet = opt_in str_in (x 3),
      sh_content_type = opt_in str_in (x 4), sh_tags = map str_in (items_in (x 5)), sh_metadata = fields_in (x 6),
      sh_created_at = opt_in dt_in (x 7), sh_updated_at = opt_in dt_in (x 8)\<rparr>)"

definition facet_json :: "string \<times> int \<Rightarrow> json" where
  "facet_json vn = JArr [JStr (fst vn), JInt (snd vn)]"

definition facet_in :: "json \<Rightarrow> string \<times> int" where
  "facet_in j = (str_in (items_in j ! 0), int_in (items_in j ! 1))"

definition search_json :: "search_response \<Rightarrow> (string \<times> json) list" where
  "search_json r =
     [(''query'', JStr (sr_query r)), (''tenant_id'', JStr (sr_tenant_id r)), (''page'', JInt (sr_page r)),
      (''size'', JInt (sr_size r)), (''total'', JInt (sr_total r)),
      (''total_is_lower_bound'', JBool (sr_total_is_lower_bound r)), (''took_ms'', JInt (sr_took_ms r)),
      (''cached'', JBool (sr_cached r)), (''hits'', JArr (map hit_json (sr_hits r))),
      (''facets'', JObj (map (\<lambda>(k, bs). (k, JArr (map facet_json bs))) (sr_facets r)))]"

definition search_in :: "json \<Rightarrow> search_response result" where
  "search_in j =
     (case j of
        JObj kvs \<Rightarrow>
          (if map fst kvs = [''query'', ''tenant_id'', ''page'', ''size'', ''total'', ''total_is_lower_bound'', ''took_ms'',
                             ''cached'', ''hits'', ''facets''] then
             (let x = (\<lambda>i. snd (kvs ! i)) in
              Inr \<lparr>sr_query = str_in (x 0), sr_tenant_id = str_in (x 1), sr_page = int_in (x 2), sr_size = int_in (x 3),
                   sr_total = int_in (x 4), sr_total_is_lower_bound = bool_in (x 5), sr_took_ms = int_in (x 6),
                   sr_cached = bool_in (x 7), sr_hits = map hit_in (items_in (x 8)),
                   sr_facets = map (\<lambda>(k, b). (k, map facet_in (items_in b))) (fields_in (x 9))\<rparr>)
           else Inl ValidationErr)
      | _ \<Rightarrow> Inl ValidationErr)"

definition doc_json :: "document_response \<Rightarrow> json" where
  "doc_json r =
     JArr [JInt (uint (rs_id r)), JStr (rs_tenant_id r), JStr (rs_title r), JStr (rs_content r),
           JStr (rs_content_type r), JArr (map JStr (rs_tags r)), JObj (rs_metadata r), JInt (rs_version r),
           JStr (rs_status r), dt_json (rs_created_at r), dt_json (rs_updated_at r), opt_json dt_json (rs_indexed_at r)]"

definition doc_in :: "json \<Rightarrow> document_response result" where
  "doc_in j =
     (if length (items_in j) \<noteq> 12 then Inl ValidationErr
      else (let x = (\<lambda>i. items_in j ! i) in
        Inr \<lparr>rs_id = word_of_int (int_in (x 0)), rs_tenant_id = str_in (x 1), rs_title = str_in (x 2),
             rs_content = str_in (x 3), rs_content_type = str_in (x 4), rs_tags = map str_in (items_in (x 5)),
             rs_metadata = fields_in (x 6), rs_version = int_in (x 7), rs_status = str_in (x 8),
             rs_created_at = dt_in (x 9), rs_updated_at = dt_in (x 10), rs_indexed_at = opt_in dt_in (x 11)\<rparr>))"

definition sample_codec :: codec where
  "sample_codec = \<lparr>dump_search = search_json, validate_search = search_in, dump_doc = doc_json,
                   validate_doc = doc_in\<rparr>"

definition sample_digest :: "string \<Rightarrow> string" where
  "sample_digest s = hex_digits 64 (foldl (\<lambda>a c. 31 * a + of_char c) 7 s)"

subsection \<open>Round trips\<close>

lemma dt_json_inverse [simp]: "dt_in (dt_json d) = d" "dt_json d \<noteq> JNull"
  by (simp_all add: dt_in_def dt_json_def)

lemma opt_json_inverse [simp]:
  "opt_in str_in (opt_json JStr s) = s" "opt_in dt_in (opt_json dt_json d) = d"
  by (auto simp: opt_json_def opt_in_def split: option.splits)

lemma texts_inverse [simp]: "map (str_in \<circ> JStr) ts = ts" "map (hit_in \<circ> hit_json) hs = hs"
  by (induction ts) (auto simp: hit_in_def hit_json_def comp_def intro!: map_idI)

lemma facet_inverse [simp]: "map (facet_in \<circ> facet_json) bs = bs"
  by (induction bs) (auto simp: facet_in_def facet_json_def)

lemma facets_inverse [simp]:
  "map ((\<lambda>p. (fst p, map facet_in (items_in (snd p)))) \<circ> (\<lambda>p. (fst p, JArr (map facet_json (snd p))))) fs = fs"
  by (rule map_idI) simp

lemma sample_codec_ok: "codec_ok sample_codec"
proof -
  have "search_in (JObj (AList.update ''took_ms'' (JInt t) (AList.update ''cached'' (JBool b) (search_json r)))) =
      Inr (r\<lparr>sr_took_ms := t, sr_cached := b\<rparr>)" for r t b
    by (simp add: search_json_def search_in_def Let_def split_def)
  moreover have "doc_in (doc_json r) = Inr r" for r
    by (simp add: doc_json_def doc_in_def Let_def)
  moreover have "doc_json r \<noteq> JNull" for r by (simp add: doc_json_def)
  ultimately show ?thesis by (simp add: codec_ok_def sample_codec_def)
qed

lemma sample_digest_hex: "hex_text sample_digest"
  using hex_digits_hexish by (simp add: hex_text_def sample_digest_def)

end
