(* ===== verification/Services.thy ===== *)
theory Services
  imports Codec Document_Service
begin

text \<open>
  The properties of the two application services over the in-memory adapters: what the cache may and may not change
  about a search, and reading one's own writes and deletes.
\<close>

definition sample_payload :: document_create where
  "sample_payload = \<lparr>dc_title = ''Plan'', dc_content = ''quarterly plan'', dc_content_type = ''text/plain'',
     dc_tags = [''q3''], dc_metadata = []\<rparr>"

definition sample_moment :: datetime where
  "sample_moment = \<lparr>dt_year = 2024, dt_month = 5, dt_day = 6, dt_hour = 7, dt_minute = 8, dt_second = 9,
                    dt_micro = 10, dt_aware = True\<rparr>"

definition sample_doc :: document where
  "sample_doc = new_document sample_moment sample_moment 77 ''acme'' sample_payload"

definition sample_doc_world :: "(inmemory_cache, inmemory_publisher) doc_world" where
  "sample_doc_world = \<lparr>w_db = \<lparr>db_documents = [sample_doc], db_tenants = [], db_up = True\<rparr>,
     w_cache = new_inmemory_cache, w_pub = new_inmemory_publisher\<rparr>"

subsection \<open>Lemmas\<close>

lemma sample_hypotheses:
  "codec_ok sample_codec" "hex_text sample_digest" "im_available new_inmemory_cache" "db_inv (w_db sample_doc_world)"
  "im_look now new_inmemory_cache k = None"
  using sample_codec_ok sample_digest_hex
  by (simp_all add: new_inmemory_cache_def im_look_def sample_doc_world_def sample_doc_def new_document_def db_inv_def
      row_ok_def)

subsection \<open>Properties of search\<close>

text \<open>
  A cache that is down never changes what a search answers: the request goes to the engine, whose answer or error is the
  result, and the cache is left as it is.
\<close>

theorem search_fail_open:
  assumes "\<not> im_available c"
  shows "search_service_search inmemory_ops (inmemory_engine_ops so tk) C hexdigest st t1 t2 t3 took rnd t q (c, e) =
    (case execute (inmemory_engine_ops so tk) t q e of (r, e1) \<Rightarrow> (r, c, e1))"
  by (rule ss.cache_down_search [OF assms])

theorem search_fail_open_witness:
  "search_service_search inmemory_ops (inmemory_engine_ops id 0) sample_codec sample_digest default_settings 1 2 3 4 0 ''acme''
     sample_query (new_inmemory_cache\<lparr>im_available := False\<rparr>, sample_engine) =
   (case execute (inmemory_engine_ops id 0) ''acme'' sample_query sample_engine of
      (r, e1) \<Rightarrow> (r, new_inmemory_cache\<lparr>im_available := False\<rparr>, e1))"
  by (rule search_fail_open) simp

text \<open>
  A search that missed the cache is repeated from the cache: while the entry lives and the generation of the tenant is
  unchanged, the same query gets the same response, marked as cached and with its own latency, and the engine,
  whatever has become of it since, is neither asked nor changed.
\<close>

theorem search_hits_cache:
  assumes "im_available c" "t1 \<le> t2" "t2 \<le> t3" "t3 \<le> t4" "t4 \<le> t5" "t5 \<le> t3 + of_int (search_ttl st rnd)"
    "im_look t4 c (search_generation_key t) = im_look t1 c (search_generation_key t)"
    "im_look t1 c (search_generation_key t) = None \<or> im_look t1 c (search_generation_key t) = Some (JsonText j)"
    "im_look t2 c (query_key hexdigest t (fst (current_generation inmemory_ops t1 t c)) q) = None"
    "search_service_search inmemory_ops (inmemory_engine_ops so tk) C hexdigest st t1 t2 t3 took rnd t q (c, e) = (Inr r, c', e')"
    "codec_ok C" "hex_text hexdigest"
  shows "\<exists>c''. search_service_search inmemory_ops (inmemory_engine_ops so tk) C hexdigest st' t4 t5 t6 took' rnd' t q (c', e'') =
    (Inr (r\<lparr>sr_took_ms := took', sr_cached := True\<rparr>), c'', e'')"
  by (rule ss.search_again [OF assms])

theorem search_hits_cache_witness:
  "\<exists>r c' c''. search_service_search inmemory_ops (inmemory_engine_ops id 0) sample_codec sample_digest default_settings 1 1 1 4 0 ''acme''
      sample_query (new_inmemory_cache, sample_engine) = (Inr r, c', sample_engine) \<and> \<not> sr_cached r \<and>
     search_service_search inmemory_ops (inmemory_engine_ops id 0) sample_codec sample_digest default_settings 2 2 2 5 0 ''acme''
      sample_query (c', sample_engine\<lparr>ie_available := False\<rparr>) =
     (Inr (r\<lparr>sr_took_ms := 5, sr_cached := True\<rparr>), c'', sample_engine\<lparr>ie_available := False\<rparr>)"
proof -
  let ?E = "inmemory_engine_ops id 0" and ?c = "new_inmemory_cache"
  obtain r where r: "execute ?E ''acme'' sample_query sample_engine = (Inr r, sample_engine)" "\<not> sr_cached r"
    using ss.execute_ok [of sample_engine id 0 "''acme''" sample_query] by (auto simp: sample_engine_def)
  have g: "current_generation inmemory_ops 1 ''acme'' ?c = (0, ?c)"
    by (simp add: current_generation_def get_json_def inmemory_ops_def im_get_def new_inmemory_cache_def im_guard_def)
  obtain c' where s: "search_service_search inmemory_ops ?E sample_codec sample_digest default_settings 1 1 1 4 0 ''acme''
      sample_query (?c, sample_engine) = (Inr r, c', sample_engine)"
    using r g by (simp add: search_service_search_def single_flight_def get_json_def inmemory_ops_def im_get_def
        new_inmemory_cache_def im_guard_def)
  have ttl: "(2::real) \<le> 1 + of_int (search_ttl default_settings 0)" by (simp add: search_ttl_def Let_def)
  note h = search_hits_cache [where so = id and tk = 0, OF sample_hypotheses(3) _ _ _ _ ttl _ _ _ s sample_hypotheses(1,2)]
  have "\<exists>c''. search_service_search inmemory_ops ?E sample_codec sample_digest default_settings 2 2 2 5 0 ''acme''
      sample_query (c', sample_engine\<lparr>ie_available := False\<rparr>) =
     (Inr (r\<lparr>sr_took_ms := 5, sr_cached := True\<rparr>), c'', sample_engine\<lparr>ie_available := False\<rparr>)"
    by (rule h) (simp_all add: sample_hypotheses(5))
  with s r(2) show ?thesis by blast
qed

text \<open>
  After the cached results of a tenant were invalidated, the next search is answered by the engine, whatever had been
  cached under earlier generations.
\<close>

theorem invalidate_fresh:
  assumes "im_available c"
    "im_look now c (search_generation_key t) = None \<or> im_look now c (search_generation_key t) = Some (JsonText (JInt n))"
    "m = (if im_look now c (search_generation_key t) = None then 0 else n) + 1"
    "now \<le> t1" "t1 \<le> t2" "t1 \<le> now + 86400" "im_look t2 c (query_key hexdigest t m q) = None" "hex_text hexdigest"
  shows "fst (search_service_search inmemory_ops (inmemory_engine_ops so tk) C hexdigest st t1 t2 t3 took rnd t q
      (invalidate_tenant inmemory_ops now t c, e)) = fst (execute (inmemory_engine_ops so tk) t q e)"
  by (rule ss.invalidate_then_search [OF assms])

theorem invalidate_fresh_witness:
  "fst (search_service_search inmemory_ops (inmemory_engine_ops id 0) sample_codec sample_digest default_settings 2 3 4 5 0 ''acme''
      sample_query (invalidate_tenant inmemory_ops 1 ''acme'' new_inmemory_cache, sample_engine)) =
   fst (execute (inmemory_engine_ops id 0) ''acme'' sample_query sample_engine)"
  by (rule invalidate_fresh [where n = 0 and m = 1]) (simp_all add: sample_hypotheses)



subsection \<open>Properties of the document service\<close>

text \<open>
  A created document is at once readable by its own tenant, with the content, version 1 and the pending status it was
  stored with, and to every other tenant it does not exist.
\<close>

theorem read_after_write:
  assumes "db_inv (w_db w)"
    "ds_create inmemory_ops inmemory_publisher_ops t cr up uid evid occ ok tn p w = (Inr d, w')"
    "im_look t1 (w_cache w) (document_key tn (str_uuid uid)) = None"
    "im_look t1 (w_cache w') (document_key tn' (str_uuid uid)) = None" "t \<le> t1" "tn' \<noteq> tn"
  shows "fst (ds_get inmemory_ops C st t1 t2 tn uid w') = Inr (from_model (new_document cr up uid tn p)) \<and>
    fst (ds_get inmemory_ops C st t1 t2 tn' uid w') = Inl (AppErr (NotFoundError (Some ''Document not found.'')))"
proof
  have d: "d = new_document cr up uid tn p" using ds_create_db [OF assms(2)] by simp
  show "fst (ds_get inmemory_ops C st t1 t2 tn uid w') = Inr (from_model (new_document cr up uid tn p))"
    using dsv.create_get [OF assms(1,2) _ assms(5)] assms(3) d by simp
  obtain db1 where db1: "repo_create d (w_db w) = Inr db1" "w_db w' = db1"
    using assms(2) d by (auto simp: ds_create_def Let_def split: sum.splits if_splits)
  have "row_of (w_db w') uid = Some d" "db_up (w_db w')" "doc_tenant_id d = tn"
    using repo_create_row [OF db1(1), of uid] repo_create_up [OF db1(1)] db1(2) d by (simp_all add: new_document_def)
  then show "fst (ds_get inmemory_ops C st t1 t2 tn' uid w') = Inl (AppErr (NotFoundError (Some ''Document not found.'')))"
    using dsv.get_uncached [OF ds_create_inv [OF assms(1,2)], of t1 tn' uid C st t2] assms(4,6) by simp
qed

theorem read_after_write_witness:
  "\<exists>d w'. ds_create inmemory_ops inmemory_publisher_ops 1 sample_moment sample_moment 78 ''e'' ''now'' True ''acme'' sample_payload
      sample_doc_world = (Inr d, w') \<and>
     fst (ds_get inmemory_ops sample_codec default_settings 2 3 ''acme'' 78 w') =
       Inr (from_model (new_document sample_moment sample_moment 78 ''acme'' sample_payload)) \<and>
     fst (ds_get inmemory_ops sample_codec default_settings 2 3 ''globex'' 78 w') =
       Inl (AppErr (NotFoundError (Some ''Document not found.'')))"
proof -
  let ?d = "new_document sample_moment sample_moment 78 ''acme'' sample_payload"
  obtain w' where w': "ds_create inmemory_ops inmemory_publisher_ops 1 sample_moment sample_moment 78 ''e'' ''now'' True ''acme''
      sample_payload sample_doc_world = (Inr ?d, w')" "w_cache w' = invalidate_tenant inmemory_ops 1 ''acme'' new_inmemory_cache"
    by (simp add: ds_create_def sample_doc_world_def repo_create_def sample_doc_def new_document_def Let_def)
  have "im_look 2 (w_cache w') (document_key ''globex'' (str_uuid 78)) = None"
    using document_key_not_generation [of "''globex''" 78 "''acme''"] imc.cc_incr_frame [OF sample_hypotheses(3), of 1 2]
    by (simp add: w'(2) invalidate_tenant_def sample_hypotheses(5))
  with read_after_write [OF sample_hypotheses(4) w'(1), of 2 "''globex''" sample_codec default_settings 3] w'(1)
  show ?thesis by (simp add: sample_doc_world_def sample_hypotheses(5))
qed

text \<open>
  Once a delete has succeeded, the document does not exist for its tenant any more, even if it had been cached before.
\<close>

theorem deleted_not_found:
  assumes "db_inv (w_db w)" "ds_delete inmemory_ops inmemory_publisher_ops t now evid occ ok tn u w = (Inr (), w')"
    "im_available (w_cache w)" "t \<le> t1"
  shows "fst (ds_get inmemory_ops C st t1 t2 tn u w') = Inl (AppErr (NotFoundError (Some ''Document not found.'')))"
  by (rule dsv.delete_get [OF assms])

theorem deleted_not_found_witness:
  "\<exists>w'. ds_delete inmemory_ops inmemory_publisher_ops 1 sample_moment ''e'' ''now'' True ''acme'' 77 sample_doc_world = (Inr (), w') \<and>
     fst (ds_get inmemory_ops sample_codec default_settings 2 3 ''acme'' 77 w') =
       Inl (AppErr (NotFoundError (Some ''Document not found.'')))"
proof -
  obtain w' where w': "ds_delete inmemory_ops inmemory_publisher_ops 1 sample_moment ''e'' ''now'' True ''acme'' 77 sample_doc_world
      = (Inr (), w')"
    by (auto simp: ds_delete_def sample_doc_world_def repo_get_def sample_doc_def new_document_def repo_soft_delete_def Let_def)
  from deleted_not_found [OF sample_hypotheses(4) w'] w' show ?thesis
    by (simp add: sample_doc_world_def sample_hypotheses(3))
qed

text \<open>
  C25: A delete during a cache outage leaves the cached copy behind: as soon as the cache is reachable again the deleted document
  is served from it, until the entry expires.
\<close>

theorem stale_after_outage:
  assumes "im_look t1 (w_cache w) (document_key tn (str_uuid u)) = Some (JsonText (dump_doc C r))" "codec_ok C"
    "ds_delete inmemory_ops inmemory_publisher_ops t now evid occ ok tn u (w\<lparr>w_cache := (w_cache w)\<lparr>im_available := False\<rparr>\<rparr>)
       = (Inr (), w')" "db_inv (w_db w)"
  shows "(\<exists>d. row_of (w_db w') u = Some d \<and> doc_status d = DELETED) \<and>
    fst (ds_get inmemory_ops C st t1 t2 tn u (w'\<lparr>w_cache := (w_cache w')\<lparr>im_available := True\<rparr>\<rparr>)) = Inr r"
proof -
  let ?c = "(w_cache w)\<lparr>im_available := False\<rparr>" and ?k = "document_key tn (str_uuid u)"
  have down: "\<not> im_available ?c" by simp
  from ds_delete_cases [OF assms(3)] assms(4) obtain d
    where d: "\<forall>x. row_of (w_db w') x = (if x = u then Some (deleted_row now d) else row_of (w_db w) x)"
      "w_cache w' = invalidate_tenant inmemory_ops t tn (cc_delete inmemory_ops [?k] ?c)"
    by (metis (no_types, lifting) doc_world.select_convs(1,2)
        doc_world.simps(1,2,4,5) doc_world.surjective doc_world.update_convs(2))
  have c: "w_cache w' = ?c"
    by (simp add: d(2) imc.cc_delete_down [OF down] invalidate_tenant_def imc.cc_incr_down [OF down])
  have "fst (get_json inmemory_ops t1 ?k ((w_cache w')\<lparr>im_available := True\<rparr>)) = Some (dump_doc C r)"
    using assms(1,2) by (simp add: imc.get_json_value c im_look_def codec_ok_def)
  then obtain c1 where "get_json inmemory_ops t1 ?k ((w_cache w')\<lparr>im_available := True\<rparr>) = (Some (dump_doc C r), c1)"
    by (metis prod.collapse)
  then show ?thesis using d(1) assms(2) by (simp add: ds_get_def Let_def codec_ok_def deleted_row_def)
qed

theorem stale_after_outage_witness:
  "\<exists>w'. ds_delete inmemory_ops inmemory_publisher_ops 1 sample_moment ''e'' ''now'' True ''acme'' 77
      (sample_doc_world\<lparr>w_cache := (set_json inmemory_ops 0 (document_key ''acme'' (str_uuid 77))
         (dump_doc sample_codec (from_model sample_doc)) 300 new_inmemory_cache)\<lparr>im_available := False\<rparr>\<rparr>) = (Inr (), w') \<and>
     fst (ds_get inmemory_ops sample_codec default_settings 2 3 ''acme'' 77 (w'\<lparr>w_cache := (w_cache w')\<lparr>im_available := True\<rparr>\<rparr>)) =
       Inr (from_model sample_doc)"
proof -
  let ?c = "set_json inmemory_ops 0 (document_key ''acme'' (str_uuid 77)) (dump_doc sample_codec (from_model sample_doc)) 300 new_inmemory_cache"
  let ?w = "sample_doc_world\<lparr>w_cache := ?c\<rparr>"
  obtain w' where w': "ds_delete inmemory_ops inmemory_publisher_ops 1 sample_moment ''e'' ''now'' True ''acme'' 77
      (?w\<lparr>w_cache := (w_cache ?w)\<lparr>im_available := False\<rparr>\<rparr>) = (Inr (), w')"
    by (auto simp: ds_delete_def sample_doc_world_def repo_get_def sample_doc_def new_document_def repo_soft_delete_def Let_def)
  have "im_look 2 (w_cache ?w) (document_key ''acme'' (str_uuid 77)) = Some (JsonText (dump_doc sample_codec (from_model sample_doc)))"
    by (simp add: imc.set_json_look [OF sample_hypotheses(3)])
  from stale_after_outage [OF this sample_hypotheses(1) w', where st = default_settings and ?t2.0 = 3] w' sample_hypotheses(4)
  show ?thesis by simp
qed

end
