(* ===== verification/Requests.thy ===== *)
theory Requests
  imports System Services
begin

text \<open>
  What a single HTTP request is guaranteed, over any services: the page window of a search, requests that are turned
  away before they touch anything, and the headers the middleware adds.
\<close>

text \<open>A tenant, the readings of one request and the service as it starts, used to evaluate the requests.\<close>

definition sample_tenant :: tenant where
  "sample_tenant = \<lparr>tn_id = ''acme'', tn_name = ''Acme'', tn_api_key_hash = sample_digest ''key'', tn_status = ''active'',
     tn_rate_limit_per_minute = 600\<rparr>"

definition sample_readings :: readings where
  "sample_readings = \<lparr>rg_t1 = 1, rg_t2 = 1, rg_t3 = 1, rg_t4 = 1, rg_t5 = 1, rg_mono = 1, rg_created = sample_moment,
     rg_updated = sample_moment, rg_uuid = 78, rg_event_id = ''e'', rg_occurred = ''now'', rg_commit_ok = True, rg_took = 3,
     rg_random = 0, rg_request_id = ''0123456789abcdef0123'', rg_errors = []\<rparr>"

definition sample_app :: test_world where
  "sample_app = \<lparr>aw_db = \<lparr>db_documents = [], db_tenants = [sample_tenant], db_up = True\<rparr>,
     aw_cache = new_inmemory_cache, aw_pub = new_inmemory_publisher, aw_engine = new_inmemory_engine,
     aw_limiter = \<lparr>rl_burst_ratio = 1/4, rl_local = []\<rparr>, aw_script = ()\<rparr>"

definition sample_services :: "(inmemory_cache, inmemory_publisher, inmemory_engine, unit) services" where
  "sample_services = build_test_container default_settings sample_codec sample_digest (\<lambda>_. Inl ValueErr) id 0"

definition sample_params :: search_params where
  "sample_params = \<lparr>sp_q = Some ''plan'', sp_tenant = Some ''globex'', sp_page = 1000, sp_size = 50, sp_fuzzy = False,
     sp_highlight = True, sp_facets = False\<rparr>"

subsection \<open>Lemmas\<close>

lemma sample_tenant_found:
  "get_current_tenant sample_services 1 1 (Some ''key'') (aw_db sample_app) (aw_cache sample_app) =
   (Inr sample_tenant, set_json inmemory_ops 1 (tenant_key (sample_digest ''key'')) (tenant_json sample_tenant)
      (tenant_cache_ttl_seconds default_settings) new_inmemory_cache)"
  by (simp add: get_current_tenant_def sample_services_def build_test_container_def hash_api_key_def Let_def sample_app_def
      get_json_def inmemory_ops_def im_get_def new_inmemory_cache_def im_guard_def get_by_api_key_hash_def sample_tenant_def)

lemma sample_protect: "\<exists>d w1. protect sample_services sample_readings b (Some ''key'') sample_app = (Inr sample_tenant, d, w1)"
proof -
  have r: "rl_check None 1 (tn_id sample_tenant) b (tn_rate_limit_per_minute sample_tenant) (\<lparr>rl_burst_ratio = 1/4, rl_local = []\<rparr>, ()) =
      (Inr \<lparr>rd_allowed = True, rd_limit_per_minute = 600, rd_remaining = 149, rd_retry_after_seconds = Seconds 0, rd_degraded = True\<rparr>,
       \<lparr>rl_burst_ratio = 1/4, rl_local = [(rate_limit_key ''acme'' b, \<lparr>bk_tokens = 149, bk_ts = 1\<rparr>)]\<rparr>, ())"
    by (simp add: rl_check_def check_local_def capacity_of_def sample_tenant_def Let_def py_int_def)
  have "rg_t1 sample_readings = 1" "rg_t2 sample_readings = 1" "rg_mono sample_readings = 1" "sv_script sample_services = None"
    "aw_limiter sample_app = \<lparr>rl_burst_ratio = 1/4, rl_local = []\<rparr>" "aw_script sample_app = ()"
    by (simp_all add: sample_readings_def sample_services_def build_test_container_def sample_app_def)
  with r sample_tenant_found show ?thesis by (simp add: protect_def rate_limited_def)
qed

lemma sample_reach:
  "sys_reach default_settings sample_codec sample_digest (\<lambda>_. Inl ValueErr) id parse_uuid [sample_tenant] (1, sample_app)"
  using sys_reach.start [of default_settings sample_codec sample_digest "\<lambda>_. Inl ValueErr" id parse_uuid "[sample_tenant]" 1]
  by (simp add: sample_app_def default_settings_def)

lemma sample_post:
  "\<exists>rsp d w' a c. endpoint sample_services sample_readings parse_uuid (Some ''key'')
     (PostDocument [(''title'', JStr ''T''), (''content'', JStr ''c'')]) sample_app = (Inr rsp, d, w') \<and>
     rsp_payload rsp = Accepted a \<and> aw_engine w' = new_inmemory_engine \<and> mp_available (aw_pub w') \<and>
     aw_db w' = \<lparr>db_documents = [new_document sample_moment sample_moment 78 ''acme'' c], db_tenants = [sample_tenant], db_up = True\<rparr>"
proof -
  let ?b = "[(''title'', JStr ''T''), (''content'', JStr ''c'')]"
  obtain d w1 where p: "protect sample_services sample_readings ''write'' (Some ''key'') sample_app = (Inr sample_tenant, d, w1)"
    using sample_protect by blast
  then have w1: "aw_db w1 = aw_db sample_app" "aw_engine w1 = aw_engine sample_app" "aw_pub w1 = aw_pub sample_app"
    by (auto simp: protect_def rate_limited_def split: prod.splits sum.splits)
  obtain c where c: "validate_document_create ?b = Inr c"
    by (simp add: validate_document_create_def field_or_def text_within_def check_tags_def validate_tags_def py_strip_def
        py_isspace_def create_fields_def MAX_CONTENT_CHARS_def MAX_TAGS_def Let_def)
  let ?d = "new_document sample_moment sample_moment 78 ''acme'' c"
  have "\<exists>dw. ds_create (sv_cache sample_services) (sv_pub sample_services) 1 sample_moment sample_moment 78 ''e'' ''now'' True ''acme'' c
      (to_doc_world w1) = (Inr ?d, dw) \<and> mp_available (w_pub dw) \<and>
      w_db dw = \<lparr>db_documents = [?d], db_tenants = [sample_tenant], db_up = True\<rparr>"
    by (simp add: ds_create_def Let_def repo_create_def to_doc_world_def w1 sample_app_def ds_publish_snd sample_services_def
        container_simps mpub.publish_keeps_up new_inmemory_publisher_def)
  then obtain dw where dw: "ds_create (sv_cache sample_services) (sv_pub sample_services) 1 sample_moment sample_moment 78 ''e'' ''now'' True
      ''acme'' c (to_doc_world w1) = (Inr ?d, dw)" "mp_available (w_pub dw)"
    "w_db dw = \<lparr>db_documents = [?d], db_tenants = [sample_tenant], db_up = True\<rparr>" by blast
  let ?w' = "with_doc_world w1 dw"
  have "aw_engine ?w' = new_inmemory_engine" "mp_available (aw_pub ?w')" "aw_db ?w' = w_db dw"
    using dw(2) w1(2) by (simp_all add: sample_app_def with_doc_world_def)
  with dw p show ?thesis
    by (simp add: endpoint_def create_document_def c sample_readings_def sample_tenant_def) blast
qed

lemma sample_throttled:
  "\<exists>d w1. protect sample_services sample_readings ''search'' (Some ''key'')
     (sample_app\<lparr>aw_limiter := \<lparr>rl_burst_ratio = 2, rl_local = [(rate_limit_key ''acme'' ''search'', \<lparr>bk_tokens = 0, bk_ts = 1\<rparr>)]\<rparr>\<rparr>) =
     (Inl (AppErr (RateLimitedError (1 / 10) 600)), d, w1)"
proof -
  let ?rl = "\<lparr>rl_burst_ratio = 2, rl_local = [(rate_limit_key ''acme'' ''search'', \<lparr>bk_tokens = 0, bk_ts = 1\<rparr>)]\<rparr>"
  have r: "rl_check None 1 (tn_id sample_tenant) ''search'' (tn_rate_limit_per_minute sample_tenant) (?rl, ()) =
      (Inr \<lparr>rd_allowed = False, rd_limit_per_minute = 600, rd_remaining = 0, rd_retry_after_seconds = Seconds (1 / 10), rd_degraded = True\<rparr>,
       ?rl, ())"
    by (simp add: rl_check_def check_local_def capacity_of_def sample_tenant_def Let_def py_int_def)
  have "rg_t1 sample_readings = 1" "rg_t2 sample_readings = 1" "rg_mono sample_readings = 1" "sv_script sample_services = None"
    "aw_script sample_app = ()" "tn_rate_limit_per_minute sample_tenant = 600"
    by (simp_all add: sample_readings_def sample_services_def build_test_container_def sample_app_def sample_tenant_def)
  with r sample_tenant_found show ?thesis by (simp add: protect_def rate_limited_def throttled_def)
qed

lemma get_current_tenant_unknown:
  assumes "key = None \<or> key = Some [] \<or>
    (\<exists>k. key = Some k \<and> get_by_api_key_hash (hash_api_key (sv_hexdigest sv) k) db = Inr None \<and>
         fst (get_json (sv_cache sv) t1 (tenant_key (hash_api_key (sv_hexdigest sv) k)) c) = None)"
  shows "\<exists>m c1. get_current_tenant sv t1 t2 key db c = (Inl (AppErr (UnauthorizedError m)), c1)"
  using assms by (auto simp: get_current_tenant_def Let_def split: prod.splits)

lemma last_page_fits:
  fixes s W :: int
  assumes "1 \<le> s" "s \<le> W"
  shows "max 1 (W div s) * s \<le> W"
proof -
  have "W div s * s \<le> W" using div_mult_mod_eq [of W s] pos_mod_sign [of s W] assms(1) by linarith
  then show ?thesis using assms(2) by (simp add: max_def)
qed

lemma limit_headers_other: "k \<noteq> ''X-RateLimit-Limit'' \<Longrightarrow> k \<noteq> ''X-RateLimit-Remaining'' \<Longrightarrow> map_of (limit_headers d hs) k = map_of hs k"
  by (auto simp: limit_headers_def split: option.splits)

subsection \<open>Properties\<close>

text \<open>
  The page that a valid search request asks the engine for has at least one and at most the configured number of
  hits, a page number of at least 1, and ends within the result window of the cluster.
\<close>

theorem page_window:
  assumes "valid_params p" "search_query_of st p t = Inr q" "1 \<le> max_page_size st" "max_page_size st \<le> max_result_window st"
  shows "1 \<le> sq_size q \<and> sq_size q \<le> max_page_size st \<and> 1 \<le> sq_page q \<and> sq_page q \<le> sp_page p \<and>
    0 \<le> sq_offset q \<and> sq_offset q + sq_size q \<le> max_result_window st"
proof -
  define s where "s = min (sp_size p) (max_page_size st)"
  define m where "m = max 1 (max_result_window st div s)"
  have s: "1 \<le> s" "s \<le> max_page_size st" "1 \<le> sp_page p" using assms(1,3) by (auto simp: valid_params_def s_def)
  then have "s \<noteq> 0" by linarith
  then have q: "sq_size q = s" "sq_page q = min (sp_page p) m"
    using assms(2) by (auto simp: search_query_of_def Let_def s_def [symmetric] m_def)
  have m: "m * s \<le> max_result_window st" "1 \<le> m"
    using last_page_fits [OF s(1), of "max_result_window st"] s(2) assms(4) by (simp_all add: m_def)
  then have pg: "1 \<le> sq_page q" "sq_page q \<le> m" "sq_page q \<le> sp_page p" using q s by simp_all
  then have "sq_page q * s \<le> m * s" "0 \<le> (sq_page q - 1) * s"
    using s mult_right_mono [of "sq_page q" m s] by simp_all
  moreover have "sq_offset q = (sq_page q - 1) * s" "sq_offset q + s = sq_page q * s"
    using q by (simp_all add: sq_offset_def algebra_simps)
  ultimately show ?thesis using q(1) s pg m by linarith
qed

theorem page_window_witness:
  "\<exists>q. search_query_of default_settings sample_params ''acme'' = Inr q \<and> sq_offset q + sq_size q \<le> max_result_window default_settings"
proof -
  obtain q where q: "search_query_of default_settings sample_params ''acme'' = Inr q"
    by (simp add: search_query_of_def sample_params_def default_settings_def Let_def)
  have "valid_params sample_params" "1 \<le> max_page_size default_settings" "max_page_size default_settings \<le> max_result_window default_settings"
    by (simp_all add: valid_params_def sample_params_def default_settings_def)
  with page_window [OF _ q] q show ?thesis by blast
qed



text \<open>
  A search for a tenant other than the authenticated one is refused with 403 before the cache or the engine is asked: after
  authentication and rate limiting nothing changes.
\<close>

theorem foreign_tenant_refused:
  assumes "protect sv rg ''search'' key w = (Inr tenant, d, w1)" "valid_params p" "sp_tenant p = Some t" "t \<noteq> []" "t \<noteq> tn_id tenant"
  shows "rsp_status (fst (dispatch sv rg pp rid key (GetSearch p) w)) = 403 \<and> snd (dispatch sv rg pp rid key (GetSearch p) w) = w1"
  using assms
  by (simp add: dispatch_def endpoint_def search_documents_def enforce_tenant_scope_def Let_def inner_response_def
      error_response_def handle_app_error_def)

theorem foreign_tenant_refused_witness:
  "rsp_status (fst (dispatch sample_services sample_readings parse_uuid None (Some ''key'') (GetSearch sample_params) sample_app)) = 403"
proof -
  obtain d w1 where p: "protect sample_services sample_readings ''search'' (Some ''key'') sample_app = (Inr sample_tenant, d, w1)"
    using sample_protect by blast
  from foreign_tenant_refused [OF p, of sample_params "''globex''" parse_uuid None] show ?thesis
    by (simp add: valid_params_def sample_params_def sample_tenant_def)
qed

text \<open>
  A throttled request gets 429 with a \<open>Retry-After\<close> header that is longer than the computed wait, and no row, event or
  search document changes.
\<close>

theorem throttled_request:
  assumes "protect sv rg (bucket_name req) key w = (Inl (AppErr (RateLimitedError r l)), d, w1)"
  shows "snd (dispatch sv rg pp rid key req w) = w1 \<and> aw_db w1 = aw_db w \<and> aw_pub w1 = aw_pub w \<and> aw_engine w1 = aw_engine w \<and>
    rsp_status (fst (dispatch sv rg pp rid key req w)) = 429 \<and>
    map_of (rsp_headers (fst (dispatch sv rg pp rid key req w))) ''Retry-After'' = Some (str_int (retry_after_header r)) \<and>
    r < of_int (retry_after_header r)"
proof -
  have "aw_db w1 = aw_db w \<and> aw_pub w1 = aw_pub w \<and> aw_engine w1 = aw_engine w"
    using assms by (auto simp: protect_def rate_limited_def split: prod.splits sum.splits)
  moreover have "r < of_int (retry_after_header r)" by (auto simp: retry_after_header_def py_int_def max_def) linarith+
  ultimately show ?thesis
    using assms by (simp add: dispatch_def endpoint_def Let_def inner_response_def error_response_def handle_app_error_def
        limit_headers_other)
qed

theorem throttled_request_witness:
  "rsp_status (fst (dispatch sample_services sample_readings parse_uuid None (Some ''key'') (GetSearch sample_params)
     (sample_app\<lparr>aw_limiter := \<lparr>rl_burst_ratio = 2, rl_local = [(rate_limit_key ''acme'' ''search'', \<lparr>bk_tokens = 0, bk_ts = 1\<rparr>)]\<rparr>\<rparr>))) = 429"
proof -
  obtain d w1 where p: "protect sample_services sample_readings (bucket_name (GetSearch sample_params)) (Some ''key'')
     (sample_app\<lparr>aw_limiter := \<lparr>rl_burst_ratio = 2, rl_local = [(rate_limit_key ''acme'' ''search'', \<lparr>bk_tokens = 0, bk_ts = 1\<rparr>)]\<rparr>\<rparr>) =
     (Inl (AppErr (RateLimitedError (1 / 10) 600)), d, w1)" using sample_throttled by auto
  from throttled_request [OF p, of parse_uuid None] show ?thesis by simp
qed

text \<open>
  Every response that comes from a handler or a domain or validation error carries the correlation id of the request and,
  once the tenant is known, its limit and the remaining budget (never negative); the answer to an
  unexpected exception carries none of them.
\<close>

theorem response_headers:
  assumes "endpoint sv rg pp key req w = (r, d, w')"
  shows "map_of (rsp_headers (fst (dispatch sv rg pp (Some (c # cs)) key req w))) ''X-Request-ID'' =
      (if inner_response (c # cs) (rg_errors rg) r = None then None else Some (c # cs)) \<and>
    (\<forall>x. d = Some x \<and> rd_limit_per_minute x \<noteq> 0 \<longrightarrow>
      map_of (rsp_headers (fst (dispatch sv rg pp (Some (c # cs)) key req w))) ''X-RateLimit-Remaining'' =
        (if inner_response (c # cs) (rg_errors rg) r = None then None else Some (str_int (max 0 (rd_remaining x)))))"
  using assms
  by (cases "inner_response (c # cs) (rg_errors rg) r")
     (auto simp: dispatch_def Let_def error_response_def handle_unexpected_def limit_headers_def split: option.splits)

theorem response_headers_witness:
  "map_of (rsp_headers (fst (dispatch sample_services sample_readings parse_uuid (Some ''r1'') None (GetSearch sample_params) sample_app)))
     ''X-Request-ID'' = Some ''r1''"
proof -
  have "endpoint sample_services sample_readings parse_uuid None (GetSearch sample_params) sample_app =
      (Inl (AppErr (UnauthorizedError (Some ''Missing X-API-Key header.''))), None, sample_app)"
    by (simp add: endpoint_def protect_def get_current_tenant_def)
  from response_headers [OF this, of "CHR ''r''" "''1''"] show ?thesis by (simp add: inner_response_def)
qed

end
