(* ===== verification/Isolation.thy ===== *)
theory Isolation
  imports Requests
begin

text \<open>
  Separation of tenants as a property of single requests: \<open>same_view\<close> compares all that one tenant can observe of two
  states (its rows, its searchable documents, its cached entries, its rate-limit buckets, its pending
  events), and a request made with the key of one tenant keeps the view of every other tenant.
\<close>

definition tenant_keys :: "(string \<Rightarrow> string) \<Rightarrow> string \<Rightarrow> string set" where
  "tenant_keys hexdigest t =
     {search_generation_key t} \<union> range (\<lambda>u. document_key t (str_uuid u)) \<union> {query_key hexdigest t g q | g q. True}"

definition same_view :: "(string \<Rightarrow> string) \<Rightarrow> real \<Rightarrow> string \<Rightarrow> test_world \<Rightarrow> test_world \<Rightarrow> bool" where
  "same_view hexdigest T t w w' \<longleftrightarrow>
     (\<forall>u d. doc_tenant_id d = t \<longrightarrow> row_of (aw_db w') u = Some d \<longleftrightarrow> row_of (aw_db w) u = Some d) \<and>
     corpus_of t (aw_engine w') = corpus_of t (aw_engine w) \<and>
     (\<forall>now k. T \<le> now \<longrightarrow> k \<in> tenant_keys hexdigest t \<longrightarrow> im_look now (aw_cache w') k = im_look now (aw_cache w) k) \<and>
     (\<forall>b. CHR '':'' \<notin> set b \<longrightarrow>
        map_of (rl_local (aw_limiter w')) (rate_limit_key t b) = map_of (rl_local (aw_limiter w)) (rate_limit_key t b)) \<and>
     filter (\<lambda>e. ev_tenant_id e = t) (mp_events (aw_pub w')) = filter (\<lambda>e. ev_tenant_id e = t) (mp_events (aw_pub w))"

text \<open>From time \<open>T\<close> on, the two caches differ on keys of \<open>K\<close> only.\<close>

definition touches :: "string set \<Rightarrow> real \<Rightarrow> inmemory_cache \<Rightarrow> inmemory_cache \<Rightarrow> bool" where
  "touches K T c c' \<longleftrightarrow> (\<forall>now k. T \<le> now \<longrightarrow> k \<notin> K \<longrightarrow> im_look now c' k = im_look now c k)"

text \<open>The effect of a document operation of tenant \<open>tn\<close> as another tenant \<open>t\<close> could see it: nothing outside the keys of \<open>tn\<close>.\<close>

definition doc_frame ::
  "(string \<Rightarrow> string) \<Rightarrow> real \<Rightarrow> string \<Rightarrow> string \<Rightarrow> (inmemory_cache, inmemory_publisher) doc_world
   \<Rightarrow> (inmemory_cache, inmemory_publisher) doc_world \<Rightarrow> bool" where
  "doc_frame hexdigest T tn t w w' \<longleftrightarrow>
     touches (tenant_keys hexdigest tn) T (w_cache w) (w_cache w') \<and>
     (\<forall>u d. doc_tenant_id d = t \<longrightarrow> row_of (w_db w') u = Some d \<longleftrightarrow> row_of (w_db w) u = Some d) \<and>
     filter (\<lambda>e. ev_tenant_id e = t) (mp_events (w_pub w')) = filter (\<lambda>e. ev_tenant_id e = t) (mp_events (w_pub w))"

text \<open>A request whose key does not belong to tenant \<open>t\<close>: it fails to authenticate, or it authenticates as someone else.\<close>

definition foreign_request ::
  "settings \<Rightarrow> codec \<Rightarrow> (string \<Rightarrow> string) \<Rightarrow> (string \<Rightarrow> json result) \<Rightarrow> (string list \<Rightarrow> string list) \<Rightarrow> int \<Rightarrow> readings
   \<Rightarrow> string option \<Rightarrow> string \<Rightarrow> test_world \<Rightarrow> bool" where
  "foreign_request st C hexdigest loads set_order took rg key t w \<longleftrightarrow>
     (case fst (get_current_tenant (build_test_container st C hexdigest loads set_order took) (rg_t1 rg) (rg_t2 rg) key
             (aw_db w) (aw_cache w)) of
        Inl e \<Rightarrow> True | Inr tenant \<Rightarrow> tn_id tenant \<noteq> t)"

named_theorems touch_intros \<open>frame rules of the cache operations\<close>

subsection \<open>Cache frames\<close>

lemma touches_refl [touch_intros]: "touches K T c c"
  by (simp add: touches_def)

lemma touches_trans: "touches K T c c1 \<Longrightarrow> T \<le> T' \<Longrightarrow> touches K T' c1 c2 \<Longrightarrow> touches K T' c c2"
  unfolding touches_def by (metis order.trans)

lemma touches_weaken: "touches K T c c1 \<Longrightarrow> T \<le> T' \<Longrightarrow> K \<subseteq> K' \<Longrightarrow> touches K' T' c c1"
  unfolding touches_def by (meson order.trans subsetD)

lemma touches_get [touch_intros]: "k \<in> K \<Longrightarrow> now \<le> T \<Longrightarrow> touches K T c (snd (get_json inmemory_ops now k c))"
  unfolding touches_def
  using imc.get_json_look [of c now _ _ _ k] imc.get_json_down [of c now k] by (metis order.trans snd_conv)

lemma touches_set [touch_intros]: "k \<in> K \<Longrightarrow> touches K T c (set_json inmemory_ops now k v ttl c)"
  unfolding touches_def using imc.set_json_look [of c _ now k v ttl] imc.set_json_down [of c now k v ttl] by metis

lemma touches_delete [touch_intros]: "set ks \<subseteq> K \<Longrightarrow> touches K T c (cc_delete inmemory_ops ks c)"
  unfolding touches_def cc_delete_def
  using imc.del_look [of c _ ks] imc.down_del [of c ks] by (metis snd_conv subsetD)

lemma touches_incr [touch_intros]: "k \<in> K \<Longrightarrow> now \<le> T \<Longrightarrow> touches K T c (snd (cc_incr inmemory_ops now k c))"
  unfolding touches_def
  using imc.cc_incr_frame [of c now _ _ k] imc.cc_incr_down [of c now k] by (metis order.trans snd_conv)

lemma own_keys [simp]:
  "search_generation_key t \<in> tenant_keys hx t" "document_key t (str_uuid u) \<in> tenant_keys hx t"
  "query_key hx t g q \<in> tenant_keys hx t"
  by (auto simp: tenant_keys_def)

lemma foreign_keys:
  assumes "hex_text hx" "t \<noteq> t'" "k \<in> tenant_keys hx t'"
  shows "k \<notin> tenant_keys hx t \<union> range tenant_key"
proof -
  have q: "query_key hx t g q \<noteq> query_key hx t' g' q'" for g q g' q'
    using search_key_inject [OF assms(1)] assms(2) unfolding query_key_def by blast
  have d: "document_key t (str_uuid u) \<noteq> document_key t' (str_uuid u')" for u u'
    using document_key_inject assms(2) by blast
  from assms(3) consider "k = search_generation_key t'" | u where "k = document_key t' (str_uuid u)"
    | g q where "k = query_key hx t' g q" unfolding tenant_keys_def by blast
  then show ?thesis
  proof cases
    case 1
    then show ?thesis
      using assms(2) query_key_classes(2) [OF assms(1), symmetric] document_key_not_generation [symmetric]
      by (auto simp: tenant_keys_def search_generation_key_inject tenant_key_prefix(2) [symmetric])
  next
    case 2
    then show ?thesis
      using d [symmetric] query_key_classes(1) [OF assms(1), symmetric] document_key_not_generation
      by (auto simp: tenant_keys_def tenant_key_prefix(1) [symmetric])
  next
    case 3
    then show ?thesis
      using q [symmetric] query_key_classes [OF assms(1)] by (auto simp: tenant_keys_def)
  qed
qed

subsection \<open>Frames of the handlers\<close>

lemma search_touches:
  assumes "search_service_search inmemory_ops E C hx st t1 t2 t3 took rnd tn q (c, e) = (r, c', e')" "t1 \<le> t2" "t2 \<le> t3"
  shows "touches (tenant_keys hx tn) t3 c c'"
proof -
  obtain g c1 where g: "current_generation inmemory_ops t1 tn c = (g, c1)" by force
  then have "c1 = snd (get_json inmemory_ops t1 (search_generation_key tn) c)"
    by (auto simp: current_generation_def split: prod.splits option.splits)
  then have f1: "touches (tenant_keys hx tn) t1 c c1" by (simp add: touch_intros)
  let ?k = "query_key hx tn g q"
  obtain v c2 where v: "get_json inmemory_ops t2 ?k c1 = (v, c2)" by force
  then have "touches (tenant_keys hx tn) t2 c1 c2" using touches_get [of ?k _ t2 t2 c1] by simp
  then have f2: "touches (tenant_keys hx tn) t2 c c2" using touches_trans [OF f1 assms(2)] by blast
  have "c' = c2 \<or> (\<exists>x ttl. c' = set_json inmemory_ops t3 ?k x ttl c2)"
    using assms(1) g v
    by (auto simp: search_service_search_def single_flight_def Let_def split: option.splits prod.splits sum.splits)
  then have "touches (tenant_keys hx tn) t3 c2 c'" by (auto intro: touch_intros)
  then show ?thesis using touches_trans [OF f2 assms(3)] by blast
qed

lemma publish_foreign:
  "t \<noteq> tn \<Longrightarrow> filter (\<lambda>e. ev_tenant_id e = t) (mp_events (snd (publish inmemory_publisher_ops (event_of evid occ tn d ty) p))) =
     filter (\<lambda>e. ev_tenant_id e = t) (mp_events p)"
  by (simp add: mpub.publish_pending) (simp add: event_of_def)

lemma ds_get_frame:
  assumes "ds_get inmemory_ops C st t1 t2 tn u w = (r, w')" "t1 \<le> t2"
  shows "doc_frame hx t2 tn t w w'"
proof -
  let ?k = "document_key tn (str_uuid u)"
  obtain v c1 where v: "get_json inmemory_ops t1 ?k (w_cache w) = (v, c1)" by force
  then have f1: "touches (tenant_keys hx tn) t1 (w_cache w) c1"
    using touches_get [of ?k "tenant_keys hx tn" t1 t1 "w_cache w"] by simp
  have "w' = w\<lparr>w_cache := c1\<rparr> \<or> (\<exists>x ttl. w' = w\<lparr>w_cache := set_json inmemory_ops t2 ?k x ttl c1\<rparr>)"
    using assms(1) v by (auto simp: ds_get_def Let_def split: option.splits sum.splits)
  then show ?thesis
    using touches_trans [OF f1 assms(2)] by (auto simp: doc_frame_def touch_intros)
qed

lemma ds_create_frame:
  assumes "ds_create inmemory_ops inmemory_publisher_ops t1 cr up uid evid occ ok tn p w = (r, w')" "t \<noteq> tn"
  shows "doc_frame hx t1 tn t w w'"
proof -
  let ?d = "new_document cr up uid tn p"
  have "w' = w \<or> (repo_create ?d (w_db w) = Inr (w_db w') \<and>
      w_pub w' = snd (publish inmemory_publisher_ops (event_of evid occ tn ?d EVENT_INDEX) (w_pub w)) \<and>
      w_cache w' = snd (cc_incr inmemory_ops t1 (search_generation_key tn) (w_cache w)))"
    using assms(1) by (auto simp: ds_create_def Let_def invalidate_tenant_def ds_publish_snd split: sum.splits if_splits)
  moreover have "row_of db u = Some x \<longleftrightarrow> row_of (w_db w) u = Some x"
    if "repo_create ?d (w_db w) = Inr db" "doc_tenant_id x = t" for db u x
  proof -
    have "uid \<notin> doc_id ` set (db_documents (w_db w))"
      using that(1) by (auto simp: repo_create_def new_document_def split: if_splits)
    then have "row_of (w_db w) uid = None" using row_of_Some by (cases "row_of (w_db w) uid") force+
    then show ?thesis using repo_create_row [OF that(1), of u] that(2) assms(2) by (auto simp: new_document_def)
  qed
  ultimately show ?thesis using publish_foreign [OF assms(2)] by (auto simp: doc_frame_def touch_intros)
qed

lemma ds_delete_frame:
  assumes "ds_delete inmemory_ops inmemory_publisher_ops t1 now evid occ ok tn u w = (r, w')" "t \<noteq> tn" "db_inv (w_db w)"
  shows "doc_frame hx t1 tn t w w'"
proof (cases r)
  case (Inl e)
  then have "w' = w"
    using assms(1) by (auto simp: ds_delete_def Let_def split: sum.splits option.splits if_splits prod.splits)
  then show ?thesis by (simp add: doc_frame_def touch_intros)
next
  case (Inr x)
  let ?c = "cc_delete inmemory_ops [document_key tn (str_uuid u)] (w_cache w)"
  obtain d where d: "row_of (w_db w) u = Some d" "doc_tenant_id d = tn"
    "\<forall>x. row_of (w_db w') x = (if x = u then Some (deleted_row now d) else row_of (w_db w) x)"
    "w_cache w' = invalidate_tenant inmemory_ops t1 tn ?c"
    "w_pub w' = snd (publish inmemory_publisher_ops (event_of evid occ tn (deleted_row now d) EVENT_DELETE) (w_pub w))"
    using ds_delete_cases [of inmemory_ops inmemory_publisher_ops t1 now evid occ ok tn u w w'] assms(1,3) Inr by auto
  have "touches (tenant_keys hx tn) t1 (w_cache w) (w_cache w')"
    unfolding d(4) invalidate_tenant_def
    by (rule touches_trans [of _ t1 _ ?c]) (simp_all add: touch_intros)
  then show ?thesis using d assms(2) publish_foreign [OF assms(2)] by (auto simp: doc_frame_def deleted_row_def)
qed

subsection \<open>A whole request\<close>

lemma get_current_tenant_touches:
  assumes "get_current_tenant (build_test_container st C hx loads so took) t1 t2 key db c = (r, c')" "t1 \<le> t2"
  shows "touches (range tenant_key) t2 c c'"
proof (cases "key = None \<or> key = Some []")
  case True
  then have "c' = c" using assms(1) by (auto simp: get_current_tenant_def)
  then show ?thesis by (simp add: touch_intros)
next
  case False
  then obtain x where x: "key = Some x" "x \<noteq> []" by auto
  let ?k = "tenant_key (hash_api_key hx x)"
  obtain v c1 where v: "get_json inmemory_ops t1 ?k c = (v, c1)" by force
  then have g: "touches (range tenant_key) t1 c c1"
    using touches_get [of ?k "range tenant_key" t1 t1 c] by simp
  have "c' = c1 \<or> (\<exists>y ttl. c' = set_json inmemory_ops t2 ?k y ttl c1)"
    using assms(1) x v by (auto simp: get_current_tenant_def container_simps Let_def split: option.splits sum.splits)
  then have "touches (range tenant_key) t2 c1 c'" by (auto simp: touch_intros)
  then show ?thesis by (rule touches_trans [OF g assms(2)])
qed

lemma check_local_foreign:
  assumes "check_local now key cap rate rl = (r, rl1)" "k \<noteq> key"
  shows "map_of (rl_local rl1) k = map_of (rl_local rl) k"
  using assms by (auto simp: check_local_def Let_def split: if_splits)

lemma bucket_names: "CHR '':'' \<notin> set (bucket_name req)"
  by (cases req) auto

lemma protect_frame:
  assumes "protect (build_test_container st C hx loads so took) rg (bucket_name req) key w = (r, d, w1)"
    "rg_t1 rg \<le> rg_t2 rg"
  shows "aw_db w1 = aw_db w" "aw_engine w1 = aw_engine w" "aw_pub w1 = aw_pub w"
    "touches (range tenant_key) (rg_t2 rg) (aw_cache w) (aw_cache w1)"
    "foreign_request st C hx loads so took rg key t w \<Longrightarrow> CHR '':'' \<notin> set b \<Longrightarrow>
     map_of (rl_local (aw_limiter w1)) (rate_limit_key t b) = map_of (rl_local (aw_limiter w)) (rate_limit_key t b)"
proof -
  obtain a c1 where g: "get_current_tenant (build_test_container st C hx loads so took) (rg_t1 rg) (rg_t2 rg) key (aw_db w) (aw_cache w) = (a, c1)"
    by force
  note f = get_current_tenant_touches [OF g assms(2)]
  show "aw_db w1 = aw_db w" "aw_engine w1 = aw_engine w" "aw_pub w1 = aw_pub w"
    "touches (range tenant_key) (rg_t2 rg) (aw_cache w) (aw_cache w1)"
    using assms(1) g f by (auto simp: protect_def rate_limited_def split: sum.splits prod.splits)
  show "map_of (rl_local (aw_limiter w1)) (rate_limit_key t b) = map_of (rl_local (aw_limiter w)) (rate_limit_key t b)"
    if f: "foreign_request st C hx loads so took rg key t w" "CHR '':'' \<notin> set b"
  proof (cases a)
    case (Inr tn)
    then have "rate_limit_key t b \<noteq> rate_limit_key (tn_id tn) (bucket_name req)"
      using rate_limit_key_inject [OF _ f(2) bucket_names] f(1) g by (auto simp: foreign_request_def)
    then show ?thesis
      using assms(1) g Inr
      by (auto simp: protect_def rate_limited_def rl_check_def container_simps Let_def dest: check_local_foreign
          split: sum.splits prod.splits)
  qed (use assms(1) g in \<open>auto simp: protect_def\<close>)
qed

lemma protect_tenant:
  assumes "protect (build_test_container st C hx loads so took) rg b key w = (Inr tn, d, w1)"
    "foreign_request st C hx loads so took rg key t w"
  shows "t \<noteq> tn_id tn"
  using assms by (auto simp: protect_def foreign_request_def split: sum.splits prod.splits)

lemma handler_frame:
  assumes "handler (build_test_container st C hx loads so took) rg pp req tn w = (r, w')" "ordered_readings T rg"
    "db_inv (aw_db w)" "t \<noteq> tn_id tn"
  shows "doc_frame hx (rg_t5 rg) (tn_id tn) t (to_doc_world w) (to_doc_world w') \<and> aw_engine w' = aw_engine w \<and>
    aw_limiter w' = aw_limiter w"
proof -
  note o = assms(2) [unfolded ordered_readings_def]
  have later: "doc_frame hx (rg_t5 rg) (tn_id tn) t x y" if "doc_frame hx t' (tn_id tn) t x y" "t' \<le> rg_t5 rg" for t' x y
    using that touches_weaken [OF _ that(2) subset_refl] by (auto simp: doc_frame_def)
  have same: "doc_frame hx (rg_t5 rg) (tn_id tn) t x x" for x by (simp add: doc_frame_def touch_intros)
  have again: "to_doc_world (with_doc_world w x) = x" "aw_limiter (with_doc_world w x) = aw_limiter w" for x
    by (simp_all add: to_doc_world_def with_doc_world_def)
  show ?thesis
  proof (cases req)
    case (PostDocument body)
    with assms(1) show ?thesis
      using later [OF ds_create_frame [OF _ assms(4)]] o same
      by (auto simp: create_document_def container_simps again split: sum.splits prod.splits)
  next
    case (GetDocument i)
    with assms(1) show ?thesis
      using later [OF ds_get_frame] o same
      by (auto simp: get_document_def container_simps again split: sum.splits prod.splits option.splits)
  next
    case (DeleteDocument i)
    with assms(1) show ?thesis
      using later [OF ds_delete_frame [OF _ assms(4)]] o same assms(3)
      by (auto simp: delete_document_def container_simps again split: sum.splits prod.splits option.splits)
  next
    case (GetSearch p)
    have "doc_frame hx (rg_t5 rg) (tn_id tn) t (to_doc_world w) (to_doc_world (w\<lparr>aw_cache := c, aw_engine := e\<rparr>)) \<and> e = aw_engine w"
      if "search_service_search inmemory_ops (inmemory_engine_ops so took) C hx st (rg_t3 rg) (rg_t4 rg) (rg_t5 rg)
        (rg_took rg) (rg_random rg) (tn_id tn) q (aw_cache w, aw_engine w) = (x, c, e)" for q x c e
      using search_touches [OF that] search_engine_same [OF that] o by (simp add: doc_frame_def to_doc_world_def)
    with GetSearch assms(1) same show ?thesis
      by (auto simp: search_documents_def container_simps dest!: scope_tenant split: if_splits sum.splits prod.splits)
  qed
qed

lemma request_frame:
  assumes e: "endpoint (build_test_container st C hx loads so took) rg pp key req w = (r, d, w')"
    and f: "foreign_request st C hx loads so took rg key t w" and o: "ordered_readings T rg"
    and inv: "db_inv (aw_db w)" and hx: "hex_text hx"
  shows "same_view hx (rg_t5 rg) t w w'"
proof -
  obtain a d1 w1 where p: "protect (build_test_container st C hx loads so took) rg (bucket_name req) key w = (a, d1, w1)"
    by (metis prod_cases3)
  have t: "rg_t1 rg \<le> rg_t2 rg" "rg_t2 rg \<le> rg_t5 rg" using o by (simp_all add: ordered_readings_def)
  note pf = protect_frame [OF p t(1)]
  have auth: "im_look now (aw_cache w1) k = im_look now (aw_cache w) k" if "rg_t5 rg \<le> now" "k \<in> tenant_keys hx t" for now k
    using pf(4) that t(2) foreign_keys [OF hx, of "t @ ''x''" t k] unfolding touches_def by auto
  show ?thesis
  proof (cases a)
    case (Inl x)
    then have "w' = w1" using e p by (simp add: endpoint_def)
    then show ?thesis using pf(1-3) pf(5) [OF f] auth by (simp add: same_view_def)
  next
    case (Inr tn)
    then have h: "handler (build_test_container st C hx loads so took) rg pp req tn w1 = (r, w')"
      using e p by (auto simp: endpoint_def split: prod.splits)
    have ne: "t \<noteq> tn_id tn" using protect_tenant [OF _ f] p Inr by simp
    note hf = handler_frame [OF h o _ ne, unfolded pf(1), OF inv]
    have "im_look now (aw_cache w') k = im_look now (aw_cache w1) k" if "rg_t5 rg \<le> now" "k \<in> tenant_keys hx t" for now k
      using hf that foreign_keys [OF hx _ that(2), of "tn_id tn"] ne by (auto simp: doc_frame_def touches_def)
    then show ?thesis
      using hf auth pf(1-3) pf(5) [OF f] by (simp add: same_view_def doc_frame_def to_doc_world_def)
  qed
qed

end
