(* ===== verification/Indexing.thy ===== *)
theory Indexing
  imports Requests
begin

text \<open>
  The write path from end to end: publishing, indexing and searching composed.  \<open>row_matches\<close> is what a query asks of a row;
  the lemmas carry an up-to-date read model over to the answers of the search service, and a sweep over to the
  batch that repairs its documents.
\<close>

definition row_matches :: "string list \<Rightarrow> document \<Rightarrow> bool" where
  "row_matches ws d \<longleftrightarrow> (\<forall>w \<in> set ws. w \<in> set (tokenize (doc_title d)) \<union> set (tokenize (doc_content d)))"

text \<open>The documents a sweep at time \<open>now\<close> takes up.\<close>

definition swept :: "settings \<Rightarrow> datetime \<Rightarrow> database \<Rightarrow> document list" where
  "swept st now db =
     take (nat (reconcile_batch_size st)) (sort_key (\<lambda>d. instant (doc_updated_at d)) (stale_docs st now db))"

text \<open>A deleted row whose first version is still in the index.\<close>

definition sample_deleted_world :: "(unit, inmemory_engine) proc_world" where
  "sample_deleted_world =
     \<lparr>pw_db = \<lparr>db_documents = [deleted_row sample_time sample_row], db_tenants = [], db_up = True\<rparr>, pw_cache = (),
      pw_engine = \<lparr>ie_docs = [(str_uuid 77, \<lparr>sd_document_id = str_uuid 77, sd_tenant_id = ''acme'', sd_version = 1,
         sd_source = to_search_source sample_row\<rparr>)], ie_available = True\<rparr>\<rparr>"

subsection \<open>An up-to-date document is found, a deleted one is not\<close>

lemma up_to_date_found:
  assumes "engine_inv en" "up_to_date d en" "doc_status d \<noteq> DELETED"
    and s: "ie_search so took q en = (Inr r, en')" "\<not> sq_fuzzy q" "tokenize (sq_text q) \<noteq> []" "sq_page q = 1"
    and q: "sq_tenant_id q = doc_tenant_id d" "row_matches (tokenize (sq_text q)) d" "er_total r \<le> sq_size q"
  shows "str_uuid (doc_id d) \<in> eh_document_id ` set (er_hits r)"
proof -
  have o: "sq_offset q = 0" using s(4) by (simp add: sq_offset_def)
  obtain sd where sd: "map_of (ie_docs en) (str_uuid (doc_id d)) = Some sd" "sd_tenant_id sd = doc_tenant_id d"
    "same_content (sd_source sd) d"
    using assms(2,3) by (auto simp: up_to_date_def split: option.splits)
  have mem: "(str_uuid (doc_id d), sd) \<in> set (ie_docs en)" using map_of_SomeD [OF sd(1)] .
  then have id: "sd_document_id sd = str_uuid (doc_id d)" using assms(1) by (auto simp: engine_inv_def docs_ok_def)
  have "0 \<le> er_total r" using s by (auto simp: ie_search_def Let_def split: if_splits sum.splits)
  then have "0 \<le> sq_size q" using q(3) by linarith
  note all = exact_hits [OF assms(1) s(1-3) _ this]
  have "sd \<in> set (corpus_of (sq_tenant_id q) en)" using mem sd(2) q(1) by (force simp: corpus_of_def)
  moreover have "matches False (tokenize (sq_text q)) sd"
    using q(2) sd(3) by (auto simp: matches_def row_matches_def doc_words_def title_tokens_def content_tokens_def same_content_def)
  ultimately show ?thesis using all o q(3) id by (force simp: image_iff)
qed

lemma up_to_date_hidden:
  assumes "engine_inv en" "up_to_date d en" "doc_status d = DELETED" "e_search (inmemory_engine_ops so took) q en = (Inr r, en')"
  shows "str_uuid (doc_id d) \<notin> eh_document_id ` set (er_hits r)"
proof
  assume "str_uuid (doc_id d) \<in> eh_document_id ` set (er_hits r)"
  then have "str_uuid (doc_id d) \<in> ie_visible en (sq_tenant_id q)" using ims.search_scoped [OF assms(4)] by auto
  then obtain sd where "sd \<in> set (corpus_of (sq_tenant_id q) en)" "sd_document_id sd = str_uuid (doc_id d)"
    by (auto simp: ie_visible_def)
  then obtain k where "(k, sd) \<in> set (ie_docs en)" "k = str_uuid (doc_id d)"
    using corpus_of_tenant assms(1) by (fastforce simp: engine_inv_def docs_ok_def)
  then have "map_of (ie_docs en) (str_uuid (doc_id d)) \<noteq> None"
    using weak_map_of_SomeI by fastforce
  then show False using assms(2,3) by (auto simp: up_to_date_def split: option.splits)
qed

lemma execute_hits:
  assumes "execute (inmemory_engine_ops so took) t q en = (Inr resp, en')"
  obtains r where "e_search (inmemory_engine_ops so took) q en = (Inr r, en')" "sr_total resp = er_total r"
    "sh_id ` set (sr_hits resp) = eh_document_id ` set (er_hits r)"
  using assms by (auto simp: execute_def hit_of_def image_image split: prod.splits sum.splits if_splits)

subsection \<open>A sweep reaches the read model\<close>

lemma sweep_event:
  assumes "db_up db" "mp_available p" "sweep_once inmemory_publisher_ops st now evid occ db p = (n, p')" "d \<in> set (swept st now db)"
  obtains e where "e \<in> set (mp_events p')" "ev_document_id e = str_uuid (doc_id d)"
proof -
  have "map (\<lambda>e. (ev_document_id e, ev_tenant_id e, ev_version e, ev_type e)) (drop (length (mp_events p)) (mp_events p')) =
    map (\<lambda>d. (str_uuid (doc_id d), doc_tenant_id d, doc_version d, EVENT_INDEX)) (swept st now db)"
    using mpub.sweep_publishes [OF assms(1,2), of st now evid occ] assms(3) by (auto simp: swept_def)
  then have "(str_uuid (doc_id d), doc_tenant_id d, doc_version d, EVENT_INDEX) \<in>
      (\<lambda>e. (ev_document_id e, ev_tenant_id e, ev_version e, ev_type e)) ` set (drop (length (mp_events p)) (mp_events p'))"
    using assms(4) by (metis (no_types, lifting) image_eqI list.set_map)
  then show thesis using that by (auto dest: in_set_dropD)
qed

lemma sweep_repairs:
  assumes "coherent (aw_db w) (aw_engine w)" "db_inv (aw_db w)" "db_up (aw_db w)" "ie_available (aw_engine w)" "mp_available (aw_pub w)"
    "sweep_once inmemory_publisher_ops st now evid occ (aw_db w) (aw_pub w) = (n, p')" "d \<in> set (swept st now (aw_db w))"
    "process (Some inmemory_ops) (inmemory_engine_ops so took) so now t True (mp_events p')
       \<lparr>pw_db = aw_db w, pw_cache = aw_cache w, pw_engine = aw_engine w\<rparr> = (r, pw)"
  shows "is_ok r \<and> (\<exists>d'. row_of (pw_db pw) (doc_id d) = Some d' \<and> up_to_date d' (pw_engine pw) \<and>
    (doc_status d = PENDING \<longrightarrow> doc_status d' = INDEXED \<and> doc_indexed_at d' = Some now))"
proof -
  let ?w = "\<lparr>pw_db = aw_db w, pw_cache = aw_cache w, pw_engine = aw_engine w\<rparr>"
  have up: "ie_available (pw_engine ?w)" "db_up (pw_db ?w)" using assms(3,4) by simp_all
  obtain e where e: "e \<in> set (mp_events p')" "ev_document_id e = str_uuid (doc_id d)"
    using sweep_event [OF assms(3,5,6,7)] by blast
  have "d \<in> set (db_documents (aw_db w))" using assms(7) by (auto simp: swept_def stale_docs_def dest: in_set_takeD)
  then have row: "row_of (pw_db ?w) (doc_id d) = Some d" using assms(2) by (simp add: db_inv_def row_of_unique)
  obtain out where r: "r = Inr out" using process_total [OF up] assms(8) by (metis prod.inject)
  obtain d' where d': "row_of (pw_db pw) (doc_id d) = Some d'"
    using row process_effect(2) [OF assms(8)] by (auto simp: repo_mark_indexed_row)
  have "up_to_date d' (pw_engine pw)"
    using process_up_to_date [OF _ up(1) assms(8) [unfolded r] e d'] assms(1) by simp
  moreover have "doc_status d' = INDEXED \<and> doc_indexed_at d' = Some now" if "doc_status d = PENDING"
    using process_marks [OF assms(8) up e row that] d' by simp
  ultimately show ?thesis using r d' by simp
qed

subsection \<open>Samples\<close>

lemma sample_coherent: "coherent (pw_db sample_world) (pw_engine sample_world)"
  by (simp add: sample_world_def coherent_def engine_inv_def docs_ok_def new_inmemory_engine_def)

lemma sample_deleted_coherent: "coherent (pw_db sample_deleted_world) (pw_engine sample_deleted_world)"
proof -
  have "row_of (pw_db sample_deleted_world) 77 = Some (deleted_row sample_time sample_row)"
    by (simp add: sample_deleted_world_def row_of_def deleted_row_def sample_row_def new_document_def)
  then show ?thesis
    by (auto simp: coherent_def engine_inv_def docs_ok_def sample_deleted_world_def stored_ok_def deleted_row_def
        sample_row_def new_document_def intro!: exI [of _ 77])
qed

lemma sample_indexed:
  "\<exists>out w'. process None (inmemory_engine_ops id 0) id sample_time 0 True [sample_event] sample_world = (Inr out, w') \<and>
     row_of (pw_db w') 77 = Some (sample_row\<lparr>doc_status := INDEXED, doc_indexed_at := Some sample_time, doc_updated_at := sample_time\<rparr>) \<and>
     length (ie_docs (pw_engine w')) = 1 \<and> ie_available (pw_engine w')"
proof -
  let ?p = "process None (inmemory_engine_ops id 0) id sample_time 0 True [sample_event] sample_world"
  note ev = sample_event_def event_of_def sample_row_def new_document_def sample_world_def
  have "is_ok (fst ?p) \<and>
     row_of (pw_db (snd ?p)) 77 = Some (sample_row\<lparr>doc_status := INDEXED, doc_indexed_at := Some sample_time, doc_updated_at := sample_time\<rparr>) \<and>
     length (ie_docs (pw_engine (snd ?p))) = 1 \<and> ie_available (pw_engine (snd ?p))"
    by (simp add: process_def latest_events_def note_event_def malformed_ids_def parsed_ids_def List.map_filter_def
        repo_get_many_def rows_by_id_def found_rows_def bulk_one_def
        write_batch_def inmemory_engine_ops_def ie_bulk_def ie_guard_def op_for_def ev new_inmemory_engine_def
        repo_mark_indexed_def update_rows_def row_of_def Let_def)
  then show ?thesis by (cases ?p; cases "fst ?p") auto
qed

lemma sample_words:
  "tokenize ''Plan'' = [''plan'']" "row_matches (tokenize ''Plan'') (sample_row\<lparr>doc_status := st, doc_indexed_at := i, doc_updated_at := up\<rparr>)"
proof -
  show "tokenize ''Plan'' = [''plan'']" by code_simp
  then show "row_matches (tokenize ''Plan'') (sample_row\<lparr>doc_status := st, doc_indexed_at := i, doc_updated_at := up\<rparr>)"
    by (simp add: row_matches_def sample_row_def new_document_def)
qed

lemma few_results:
  assumes "engine_inv en" "execute (inmemory_engine_ops so took) t q en = (Inr resp, en')" "\<not> sq_fuzzy q" "tokenize (sq_text q) \<noteq> []"
    "sq_page q = 1" "0 \<le> sq_size q"
  shows "sr_total resp \<le> int (length (ie_docs en))"
proof -
  obtain r where r: "e_search (inmemory_engine_ops so took) q en = (Inr r, en')" "sr_total resp = er_total r"
    "sh_id ` set (sr_hits resp) = eh_document_id ` set (er_hits r)" using execute_hits [OF assms(2)] .
  then have s: "ie_search so took q en = (Inr r, en')" by (simp add: inmemory_engine_ops_def)
  have "length (filter P (corpus_of x en)) \<le> length (ie_docs en)" for P x
    unfolding corpus_of_def by (metis length_filter_le length_map order.trans)
  then show ?thesis using exact_hits [OF assms(1) s assms(3,4) _ assms(6)] assms(5) r(2) by (simp add: sq_offset_def)
qed

end
