(* ===== verification/Delivery.thy ===== *)
theory Delivery
  imports Isolation Indexing
begin

text \<open>
  The stages of a document on its way through the service, one lemma each: a post or a delete over HTTP (authentication and rate limiting
  included), what is pending afterwards, the batch of the worker, and the next search of the tenant.

  \<open>generation_is\<close> reads the counter under which the answers of a tenant are cached; \<open>events_known\<close> says that a pending event names a
  row of its tenant; \<open>work\<close> is a worker that takes what is pending and processes it in one batch.
\<close>

definition generation_is :: "real \<Rightarrow> string \<Rightarrow> int \<Rightarrow> inmemory_cache \<Rightarrow> bool" where
  "generation_is now t n c \<longleftrightarrow>
     im_look now c (search_generation_key t) = None \<and> n = 0 \<or>
     im_look now c (search_generation_key t) = Some (JsonText (JInt n))"

definition events_known :: "database \<Rightarrow> inmemory_publisher \<Rightarrow> bool" where
  "events_known db p \<longleftrightarrow>
     (\<forall>e \<in> set (mp_events p). \<exists>u d. row_of db u = Some d \<and> ev_document_id e = str_uuid u \<and> ev_tenant_id e = doc_tenant_id d)"

definition work :: "(string list \<Rightarrow> string list) \<Rightarrow> int \<Rightarrow> datetime \<Rightarrow> real \<Rightarrow> test_world \<Rightarrow> test_world" where
  "work set_order took now t w =
     (let drained = mp_drain (aw_pub w);
          pw = snd (process (Some inmemory_ops) (inmemory_engine_ops set_order took) set_order now t True (fst drained)
                 \<lparr>pw_db = aw_db w, pw_cache = aw_cache w, pw_engine = aw_engine w\<rparr>)
      in w\<lparr>aw_db := pw_db pw, aw_cache := pw_cache pw, aw_engine := pw_engine pw, aw_pub := snd drained\<rparr>)"

subsection \<open>The generation of a tenant\<close>

lemma generation_frame:
  assumes "touches K T c c1" "T \<le> now" "search_generation_key t \<notin> K"
  shows "generation_is now t n c1 = generation_is now t n c"
  using assms by (simp add: generation_is_def touches_def)

lemma not_tenant_key:
  "search_generation_key t \<notin> range tenant_key" "hex_text hx \<Longrightarrow> query_key hx t m q \<notin> range tenant_key"
  using tenant_key_prefix(2) query_key_classes(3) by (auto simp: image_iff) metis+

lemma invalidate_up: "im_available c \<Longrightarrow> im_available (invalidate_tenant inmemory_ops now t c)"
  using imc.cc_incr_up by (simp add: invalidate_tenant_def)

lemma generation_next:
  assumes "im_available c" "generation_is now t n c" "now \<le> T'" "T' \<le> now + 86400"
  shows "generation_is T' t (n + 1) (invalidate_tenant inmemory_ops now t c)"
proof -
  let ?g = "search_generation_key t"
  have "im_look now c ?g = None \<or> im_look now c ?g = Some (JsonText (JInt n))" "n + 1 = (if im_look now c ?g = None then 0 else n) + 1"
    using assms(2) by (auto simp: generation_is_def)
  from imc.incr_counts [OF assms(1) this] assms(3,4)
  have "im_look T' (snd (cincr inmemory_ops now ?g c)) ?g = Some (JsonText (JInt (n + 1)))" by blast
  then show ?thesis by (simp add: generation_is_def invalidate_tenant_def cc_incr_snd)
qed

lemma generation_now:
  assumes "cache_ok C hx db T c" "T \<le> now" "im_available c"
  shows "generation_is now t (fst (current_generation inmemory_ops now t c)) c"
proof -
  obtain n where "im_look now c (search_generation_key t) = None \<or> im_look now c (search_generation_key t) = Some (JsonText (JInt n))"
    using cache_ok_number [OF assms(1,2)] by blast
  then show ?thesis using ss.current_generation_look [OF assms(3), of now t] by (auto simp: generation_is_def)
qed

lemma fresh_search:
  assumes "im_available c" "t1 \<le> t2" "generation_is t1 t g c" "im_look t2 c (query_key hx t g q) = None" "hex_text hx"
  shows "fst (search_service_search inmemory_ops (inmemory_engine_ops so tk) C hx st t1 t2 t3 took rnd t q (c, e)) =
    fst (execute (inmemory_engine_ops so tk) t q e)"
proof -
  obtain g' c1 where g: "current_generation inmemory_ops t1 t c = (g', c1)" by force
  then have "g' = g" using ss.current_generation_look [OF assms(1), of t1 t] assms(3) by (auto simp: generation_is_def)
  with ss.miss_search [OF assms(1,2) g _ assms(5)] assms(4) show ?thesis by simp
qed

subsection \<open>Pending events name rows\<close>

lemma events_known_rows: "events_known db p \<Longrightarrow> rows_kept db db' \<Longrightarrow> events_known db' p"
  unfolding events_known_def rows_kept_def by (metis (no_types))

lemma events_known_publish:
  assumes "events_known db p" "row_of db (doc_id d) = Some d" "doc_tenant_id d = tn"
  shows "events_known db (snd (publish inmemory_publisher_ops (event_of evid occ tn d ty) p))"
  using assms by (force simp: events_known_def mpub.publish_pending event_of_def)

lemma ds_create_known:
  assumes "ds_create inmemory_ops inmemory_publisher_ops t cr up uid evid occ ok tn p w = (r, w')" "events_known (w_db w) (w_pub w)"
  shows "events_known (w_db w') (w_pub w')"
proof (cases r)
  case (Inl x)
  then have "w' = w" using assms(1) by (auto simp: ds_create_def Let_def split: sum.splits if_splits)
  then show ?thesis using assms(2) by simp
next
  case (Inr d)
  then have c: "repo_create d (w_db w) = Inr (w_db w')" "doc_tenant_id d = tn"
    "w_pub w' = snd (publish inmemory_publisher_ops (event_of evid occ tn d EVENT_INDEX) (w_pub w))"
    using assms(1) by (auto simp: ds_create_def Let_def ds_publish_snd new_document_def split: sum.splits if_splits)
  have "row_of (w_db w') (doc_id d) = Some d" using repo_create_row [OF c(1)] by simp
  then show ?thesis
    using events_known_publish [OF events_known_rows [OF assms(2) rows_kept_create [OF c(1)]] _ c(2)] c(3) by simp
qed

lemma ds_delete_known:
  assumes "ds_delete inmemory_ops inmemory_publisher_ops t now evid occ ok tn u w = (r, w')" "events_known (w_db w) (w_pub w)"
    "db_inv (w_db w)"
  shows "events_known (w_db w') (w_pub w')"
proof (cases r)
  case (Inl x)
  then have "w' = w"
    using assms(1) by (auto simp: ds_delete_def Let_def split: sum.splits option.splits if_splits prod.splits)
  then show ?thesis using assms(2) by simp
next
  case (Inr x)
  then obtain d where d: "row_of (w_db w) u = Some d" "doc_tenant_id d = tn"
    "\<forall>x. row_of (w_db w') x = (if x = u then Some (deleted_row now d) else row_of (w_db w) x)"
    "w_pub w' = snd (publish inmemory_publisher_ops (event_of evid occ tn (deleted_row now d) EVENT_DELETE) (w_pub w))"
    using ds_delete_cases [of inmemory_ops inmemory_publisher_ops t now evid occ ok tn u w w'] assms(1,3) by auto
  have "doc_id d = u" using row_of_Some [OF d(1)] by simp
  moreover have "events_known (w_db w') (w_pub w)"
    using assms(2) d(1-3) unfolding events_known_def deleted_row_def
    by (metis (no_types, lifting) document.select_convs(2) document.surjective document.update_convs option.inject)
  ultimately show ?thesis using events_known_publish [of "w_db w'" "w_pub w" "deleted_row now d"] d by (simp add: deleted_row_def)
qed

lemma ds_tenants:
  "ds_create B P t cr up uid evid occ ok tn p w = (r, w') \<Longrightarrow> db_tenants (w_db w') = db_tenants (w_db w)"
  "ds_get B C st t1 t2 tn u w = (r1, w') \<Longrightarrow> w_db w' = w_db w \<and> w_pub w' = w_pub w"
  "ds_delete B P t now evid occ ok tn u w = (r2, w') \<Longrightarrow> db_tenants (w_db w') = db_tenants (w_db w)"
  by (auto simp: ds_create_def ds_get_def ds_delete_def repo_create_def repo_soft_delete_def update_rows_def Let_def
      split: prod.splits option.splits sum.splits if_splits)

lemma endpoint_known:
  assumes "endpoint (build_test_container st C hx loads so took) rg pp key req w = (r, d, w')" "rg_t1 rg \<le> rg_t2 rg"
    "events_known (aw_db w) (aw_pub w)" "db_inv (aw_db w)"
  shows "events_known (aw_db w') (aw_pub w') \<and> db_tenants (aw_db w') = db_tenants (aw_db w)"
proof -
  obtain a d1 w1 where p: "protect (build_test_container st C hx loads so took) rg (bucket_name req) key w = (a, d1, w1)"
    by (metis prod_cases3)
  note pf = protect_frame(1-3) [OF p assms(2)]
  have dw: "aw_pub (with_doc_world x y) = w_pub y" for x :: test_world and y by (simp add: with_doc_world_def)
  show ?thesis
  proof (cases a)
    case (Inl x)
    then show ?thesis using assms(1,3) p pf by (simp add: endpoint_def)
  next
    case (Inr tn)
    then have h: "handler (build_test_container st C hx loads so took) rg pp req tn w1 = (r, w')"
      using assms(1) p by (auto simp: endpoint_def split: prod.splits)
    have known: "events_known (w_db (to_doc_world w1)) (w_pub (to_doc_world w1))" "db_inv (w_db (to_doc_world w1))"
      using assms(3,4) pf by simp_all
    let ?ok = "\<lambda>x. events_known (w_db x) (w_pub x) \<and> db_tenants (w_db x) = db_tenants (w_db (to_doc_world w1))"
    have created: "?ok x" if "ds_create inmemory_ops inmemory_publisher_ops t cr up uid evid occ ok tn p (to_doc_world w1) = (y, x)"
      for t cr up uid evid occ ok tn p y x using ds_create_known [OF that known(1)] ds_tenants(1) [OF that] by blast
    have deleted: "?ok x" if "ds_delete inmemory_ops inmemory_publisher_ops t now evid occ ok tn u (to_doc_world w1) = (y, x)"
      for t now evid occ ok tn u y x using ds_delete_known [OF that known] ds_tenants(3) [OF that] by blast
    show ?thesis
    proof (cases req)
      case (PostDocument body)
      then show ?thesis
        using h known(1) pf
        by (auto simp: create_document_def container_simps dw dest!: created split: sum.splits prod.splits)
    next
      case (GetDocument i)
      then show ?thesis
        using h known(1) pf
        by (auto simp: get_document_def container_simps dw dest!: ds_tenants(2) split: sum.splits prod.splits option.splits)
    next
      case (DeleteDocument i)
      then show ?thesis
        using h known(1) pf
        by (auto simp: delete_document_def container_simps dw dest!: deleted split: sum.splits prod.splits option.splits)
    next
      case (GetSearch q)
      then show ?thesis
        using h known(1) pf by (auto simp: search_documents_def container_simps Let_def split: if_splits sum.splits prod.splits)
    qed
  qed
qed

lemma republish_known:
  "\<forall>d \<in> set ds. row_of db (doc_id d) = Some d \<Longrightarrow> events_known db p \<Longrightarrow> events_known db (republish inmemory_publisher_ops evid occ i ds p)"
proof (induction ds arbitrary: i p)
  case (Cons d ds)
  let ?e = "event_of (evid i) (occ i) (doc_tenant_id d) d (if doc_status d = DELETED then EVENT_DELETE else EVENT_INDEX)"
  obtain x p1 where x: "publish inmemory_publisher_ops ?e p = (x, p1)" by force
  have "events_known db p1"
    using events_known_publish [OF Cons.prems(2), of d] Cons.prems(1) x by (metis list.set_intros(1) snd_conv)
  then show ?case using Cons x by (cases x) (simp_all add: Let_def)
qed simp

lemma sweep_known:
  assumes "sweep_once inmemory_publisher_ops st now evid occ db p = (n, p')" "events_known db p" "db_inv db"
  shows "events_known db p'"
proof (cases "db_up db")
  case True
  let ?ds = "take (nat (reconcile_batch_size st)) (sort_key (\<lambda>d. instant (doc_updated_at d)) (stale_docs st now db))"
  have "\<forall>d \<in> set ?ds. row_of db (doc_id d) = Some d"
    using assms(3) by (auto simp: stale_docs_def db_inv_def row_of_unique dest!: in_set_takeD)
  then show ?thesis using republish_known [OF _ assms(2)] assms(1) by (auto simp: sweep_once_def find_stale_docs [OF True])
next
  case False
  then show ?thesis using assms(1,2) by (auto simp: sweep_once_def repo_find_stale_def)
qed

lemma worker_known:
  assumes "process Bo (inmemory_engine_ops so took) so now t ok events \<lparr>pw_db = db, pw_cache = c, pw_engine = en\<rparr> = (r, pw)"
    "events_known db p"
  shows "events_known (pw_db pw) p" "rows_kept db (pw_db pw)"
proof -
  show "rows_kept db (pw_db pw)" using process_effect(2) [OF assms(1)] rows_kept_mark by auto
  then show "events_known (pw_db pw) p" by (rule events_known_rows [OF assms(2)])
qed

lemma reach_known:
  assumes "sys_reach st C hx loads so pp tenants s" "hex_text hx"
  shows "events_known (aw_db (snd s)) (aw_pub (snd s)) \<and> db_tenants (aw_db (snd s)) = tenants"
  using assms
proof (induction rule: sys_reach.induct)
  case (start T)
  then show ?case by (simp add: events_known_def new_inmemory_publisher_def)
next
  case (more s s')
  then have k: "events_known (aw_db (snd s)) (aw_pub (snd s))" "db_tenants (aw_db (snd s)) = tenants" by simp_all
  have inv: "db_inv (aw_db (snd s))" using sys_reach_inv [OF more(1,4)] by (simp add: sys_inv_def)
  show ?case using more(2)
  proof cases
    case (request T rg took key req w r d w')
    then show ?thesis
      using endpoint_known [OF request(4)] k inv by (simp add: ordered_readings_def)
  next
    case (worker T t took now ok events w r pw)
    then show ?thesis using worker_known [OF worker(4)] k by (simp add: rows_kept_def)
  next
    case (sweep now evid occ w n p T)
    then show ?thesis using sweep_known k inv by simp
  next
    case (drain T w)
    then show ?thesis using k by (simp add: mp_drain_def events_known_def)
  next
    case (outage T w a b c d)
    then show ?thesis using k by (simp add: events_known_def row_of_def)
  qed
qed

subsection \<open>The stages\<close>

lemma protect_up:
  assumes "protect (build_test_container st C hx loads so took) rg b key w = (r, d, w1)"
  shows "im_available (aw_cache w1) = im_available (aw_cache w)"
proof -
  have k: "im_available (snd (get_json inmemory_ops n k c)) = im_available c"
    "im_available (set_json inmemory_ops n k v ttl c) = im_available c" for n k v ttl c
    using imc.get_json_up imc.get_json_down imc.set_json_up imc.set_json_down by (cases "im_available c"; simp)+
  have "im_available c1 = im_available c"
    if "get_current_tenant (build_test_container st C hx loads so took) t1 t2 key db c = (x, c1)" for t1 t2 db c x c1
  proof (cases "key = None \<or> key = Some []")
    case False
    then obtain y where y: "key = Some y" "y \<noteq> []" by auto
    obtain v c2 where v: "get_json inmemory_ops t1 (tenant_key (hash_api_key hx y)) c = (v, c2)" by force
    then have "im_available c2 = im_available c" using k(1) [of t1 "tenant_key (hash_api_key hx y)" c] by simp
    then show ?thesis
      using that y v k(2) by (auto simp: get_current_tenant_def container_simps Let_def split: option.splits sum.splits)
  qed (use that in \<open>auto simp: get_current_tenant_def\<close>)
  then show ?thesis using assms by (fastforce simp: protect_def rate_limited_def split: sum.splits prod.splits)
qed

lemma create_effect:
  assumes "create_document (build_test_container st C hx loads so took) rg body tn w = (Inr rsp, w')" "rsp_payload rsp = Accepted a"
    "validate_document_create body = Inr dc"
  defines "doc \<equiv> new_document (rg_created rg) (rg_updated rg) (rg_uuid rg) (tn_id tn) dc"
  shows "da_id a = rg_uuid rg" "da_tenant_id a = tn_id tn" "repo_create doc (aw_db w) = Inr (aw_db w')"
    "aw_pub w' = snd (publish inmemory_publisher_ops (event_of (rg_event_id rg) (rg_occurred rg) (tn_id tn) doc EVENT_INDEX) (aw_pub w))"
    "aw_cache w' = invalidate_tenant inmemory_ops (rg_t3 rg) (tn_id tn) (aw_cache w)" "aw_engine w' = aw_engine w"
proof -
  obtain x e where x: "ds_create inmemory_ops inmemory_publisher_ops (rg_t3 rg) (rg_created rg) (rg_updated rg) (rg_uuid rg)
      (rg_event_id rg) (rg_occurred rg) (rg_commit_ok rg) (tn_id tn) dc (to_doc_world w) = (Inr x, e)"
    using assms(1,3) by (auto simp: create_document_def container_simps split: sum.splits prod.splits)
  then have e: "w' = with_doc_world w e" "da_id a = doc_id x" "da_tenant_id a = doc_tenant_id x"
    using assms(1-3) by (auto simp: create_document_def container_simps)
  have "x = doc" "repo_create doc (aw_db w) = Inr (w_db e)" "w_cache e = invalidate_tenant inmemory_ops (rg_t3 rg) (tn_id tn) (aw_cache w)"
    "w_pub e = snd (publish inmemory_publisher_ops (event_of (rg_event_id rg) (rg_occurred rg) (tn_id tn) doc EVENT_INDEX) (aw_pub w))"
    using x by (auto simp: ds_create_def Let_def ds_publish_snd doc_def split: sum.splits if_splits)
  with e show "da_id a = rg_uuid rg" "da_tenant_id a = tn_id tn" "repo_create doc (aw_db w) = Inr (aw_db w')"
    "aw_pub w' = snd (publish inmemory_publisher_ops (event_of (rg_event_id rg) (rg_occurred rg) (tn_id tn) doc EVENT_INDEX) (aw_pub w))"
    "aw_cache w' = invalidate_tenant inmemory_ops (rg_t3 rg) (tn_id tn) (aw_cache w)" "aw_engine w' = aw_engine w"
    by (simp_all add: doc_def new_document_def with_doc_world_def)
qed

text \<open>The invalidations after a batch: each affected tenant moves to its next generation.\<close>

lemma invalidations_frame:
  "touches (search_generation_key ` set ts) now c (fold (invalidate_tenant inmemory_ops now) ts c)"
proof (induction ts arbitrary: c)
  case (Cons x ts)
  have "touches (search_generation_key ` set (x # ts)) now c (invalidate_tenant inmemory_ops now x c)"
    unfolding invalidate_tenant_def by (rule touches_incr) simp_all
  from touches_trans [OF this order.refl touches_weaken [OF Cons.IH order.refl]] show ?case by auto
qed (simp add: touch_intros)

lemma invalidations_up: "im_available c \<Longrightarrow> im_available (fold (invalidate_tenant inmemory_ops now) ts c)"
  by (induction ts arbitrary: c) (simp_all add: invalidate_up)

lemma invalidations_next:
  assumes "im_available c" "generation_is now t n c" "now \<le> T'" "T' \<le> now + 86400" "distinct ts" "t \<in> set ts"
  shows "generation_is T' t (n + 1) (fold (invalidate_tenant inmemory_ops now) ts c)"
proof -
  obtain xs ys where ts: "ts = xs @ t # ys" using assms(6) by (metis split_list)
  then have other: "search_generation_key t \<notin> search_generation_key ` set xs" "search_generation_key t \<notin> search_generation_key ` set ys"
    using assms(5) by (auto simp: search_generation_key_inject)
  let ?f = "fold (invalidate_tenant inmemory_ops now)"
  have "generation_is now t n (?f xs c)" using generation_frame [OF invalidations_frame order.refl other(1)] assms(2) by simp
  from generation_next [OF invalidations_up [OF assms(1)] this assms(3,4)]
  show ?thesis using generation_frame [OF invalidations_frame assms(3) other(2)] by (simp add: ts)
qed

lemma invalidate_changed_fold:
  "invalidate_changed (Some inmemory_ops) so t latest out =
   fold (invalidate_tenant inmemory_ops t)
     (so (remdups (map ev_tenant_id (List.map_filter (map_of latest) (po_indexed out @ po_deleted out)))))"
proof -
  have eq: "invalidate_tenant inmemory_ops t = (\<lambda>x c. snd (cc_incr inmemory_ops t (search_generation_key x) c))"
    by (simp add: fun_eq_iff invalidate_tenant_def)
  show ?thesis unfolding eq by (rule ext) (simp add: invalidate_changed_def Let_def)
qed

lemma batch_tenant:
  assumes "process (Some inmemory_ops) (inmemory_engine_ops so took) so now t True events w = (r, w')"
    "ie_available (pw_engine w)" "db_up (pw_db w)" "\<And>xs. mset (so xs) = mset xs"
    "e \<in> set events" "ev_document_id e = str_uuid u" "row_of (pw_db w) u = Some d"
    "\<And>e. e \<in> set events \<Longrightarrow> ev_document_id e = str_uuid u \<Longrightarrow> ev_tenant_id e = doc_tenant_id d"
  obtains ts where "pw_cache w' = fold (invalidate_tenant inmemory_ops t) ts (pw_cache w)" "distinct ts" "doc_tenant_id d \<in> set ts"
  using assms(1)
proof (cases rule: process_cases)
  case (batch ds)
  let ?found = "found_rows ds (valid_ids events)"
  note f = found_rows_spec(3) [OF repo_get_many_filter [OF batch(2)] event_valid [OF assms(5,6)] assms(7)]
  obtain out where out: "r = Inr out" using process_total [OF assms(2,3)] assms(1) by (metis prod.inject)
  note o = write_batch_outcome [OF batch(3) [unfolded out] assms(2)]
  have in_out: "str_uuid u \<in> set (po_indexed out @ po_deleted out)" using f o(1,2) by force
  have "str_uuid u \<in> set (map fst (latest_events events))" using assms(5,6) latest_keys [of events] by force
  then obtain c where c: "map_of (latest_events events) (str_uuid u) = Some c"
    by (metis map_of_eq_None_iff not_None_eq set_map)
  then have "c \<in> set events \<and> ev_document_id c = str_uuid u" using latest_gen [of events "[]"] by (fastforce simp: latest_events_def)
  then have "ev_tenant_id c = doc_tenant_id d" using assms(8) by blast
  then have "doc_tenant_id d \<in> ev_tenant_id ` set (List.map_filter (map_of (latest_events events)) (po_indexed out @ po_deleted out))"
    using c in_out unfolding set_map_filter by force
  moreover define ts where "ts = so (remdups (map ev_tenant_id (List.map_filter (map_of (latest_events events)) (po_indexed out @ po_deleted out))))"
  moreover have ms: "mset ts = mset (remdups (map ev_tenant_id (List.map_filter (map_of (latest_events events)) (po_indexed out @ po_deleted out))))"
    by (simp add: ts_def assms(4))
  ultimately have "doc_tenant_id d \<in> set ts" by (metis set_mset_mset set_remdups set_map)
  moreover have "distinct ts" using mset_eq_imp_distinct_iff [OF ms] by simp
  moreover have "pw_cache w' = invalidate_changed (Some inmemory_ops) so t (latest_events events) out (pw_cache w)"
    using batch(3) f out
    by (auto simp: write_batch_def Let_def inmemory_engine_ops_def ie_bulk_def ie_guard_def assms(2) split: if_splits sum.splits)
  ultimately show thesis using that by (simp add: invalidate_changed_fold ts_def)
next
  case (no_rows x)
  then show thesis using assms(3) by (simp add: repo_get_many_def split: if_splits)
qed (use assms(5) in simp)

lemma work_effect:
  fixes now :: datetime and took :: int
  assumes inv: "sys_inv C hx T w" "events_known (aw_db w) (aw_pub w)" "hex_text hx" "T \<le> t"
    and up: "im_available (aw_cache w)" "ie_available (aw_engine w)" "db_up (aw_db w)" and so: "\<And>xs. mset (so xs) = mset xs"
    and e: "e \<in> set (mp_events (aw_pub w))" "ev_document_id e = str_uuid u" "row_of (aw_db w) u = Some d"
  defines "w' \<equiv> work so took now t w"
  shows "sys_inv C hx t w'" "im_available (aw_cache w')" "ie_available (aw_engine w')" "rows_kept (aw_db w) (aw_db w')"
    "\<exists>d'. row_of (aw_db w') u = Some d' \<and> up_to_date d' (aw_engine w') \<and> doc_tenant_id d' = doc_tenant_id d \<and>
       doc_title d' = doc_title d \<and> doc_content d' = doc_content d \<and> (doc_status d' = DELETED \<longleftrightarrow> doc_status d = DELETED)"
    "generation_is t (doc_tenant_id d) n (aw_cache w) \<Longrightarrow> t \<le> t' \<Longrightarrow> t' \<le> t + 86400 \<Longrightarrow>
       generation_is t' (doc_tenant_id d) (n + 1) (aw_cache w')"
    "t \<le> t' \<Longrightarrow> im_look t' (aw_cache w') (query_key hx s g q) = im_look t' (aw_cache w) (query_key hx s g q)"
proof -
  let ?w = "\<lparr>pw_db = aw_db w, pw_cache = aw_cache w, pw_engine = aw_engine w\<rparr>" and ?es = "mp_events (aw_pub w)"
  have av: "ie_available (pw_engine ?w)" "db_up (pw_db ?w)" "row_of (pw_db ?w) u = Some d" using up e by simp_all
  obtain out pw where p: "process (Some inmemory_ops) (inmemory_engine_ops so took) so now t True ?es ?w = (Inr out, pw)"
    using process_total [OF av(1,2)] by blast
  have w': "w' = w\<lparr>aw_db := pw_db pw, aw_cache := pw_cache pw, aw_engine := pw_engine pw, aw_pub := snd (mp_drain (aw_pub w))\<rparr>"
    by (simp add: w'_def work_def Let_def p mp_drain_def)
  show "sys_inv C hx t w'" using worker_inv [OF inv(1,4,3) p] by (simp add: w' sys_inv_def)
  have eff: "pw_db pw = aw_db w \<or> (\<exists>ids. repo_mark_indexed now ids (aw_db w) = Inr (pw_db pw))" using process_effect(2) [OF p] by simp
  then show "rows_kept (aw_db w) (aw_db w')" using rows_kept_mark by (auto simp: w')
  show "ie_available (aw_engine w')" using process_effect(1) [OF p] up(2) by (auto simp: w')
  have tenant: "ev_tenant_id x = doc_tenant_id d" if "x \<in> set ?es" "ev_document_id x = str_uuid u" for x
    using inv(2) that e(3) unfolding events_known_def by (metis option.inject str_uuid_inject)
  obtain ts where ts: "aw_cache w' = fold (invalidate_tenant inmemory_ops t) ts (aw_cache w)" "distinct ts" "doc_tenant_id d \<in> set ts"
    using batch_tenant [OF p av(1,2) so e(1,2) av(3) tenant] by (auto simp: w')
  show "im_available (aw_cache w')" using invalidations_up [OF up(1)] ts(1) by simp
  show "generation_is t' (doc_tenant_id d) (n + 1) (aw_cache w')"
    if "generation_is t (doc_tenant_id d) n (aw_cache w)" "t \<le> t'" "t' \<le> t + 86400"
    using invalidations_next [OF up(1) that ts(2,3)] ts(1) by simp
  show "im_look t' (aw_cache w') (query_key hx s g q) = im_look t' (aw_cache w) (query_key hx s g q)" if "t \<le> t'"
  proof -
    have "query_key hx s g q \<notin> search_generation_key ` set ts" using query_key_classes(2) [OF inv(3)] by auto
    then show ?thesis using invalidations_frame [of ts t "aw_cache w"] that by (simp add: touches_def ts(1))
  qed
  obtain d' where d': "row_of (pw_db pw) u = Some d'" "doc_tenant_id d' = doc_tenant_id d" "doc_title d' = doc_title d"
    "doc_content d' = doc_content d" "doc_status d' = DELETED \<longleftrightarrow> doc_status d = DELETED"
    using eff e(3) by (auto simp: repo_mark_indexed_row)
  have "coherent (pw_db ?w) (pw_engine ?w)" using inv(1) by (simp add: sys_inv_def)
  from process_up_to_date [OF this av(1) p e(1,2) d'(1)] d'
  show "\<exists>d'. row_of (aw_db w') u = Some d' \<and> up_to_date d' (aw_engine w') \<and> doc_tenant_id d' = doc_tenant_id d \<and>
       doc_title d' = doc_title d \<and> doc_content d' = doc_content d \<and> (doc_status d' = DELETED \<longleftrightarrow> doc_status d = DELETED)"
    by (auto simp: w')
qed

text \<open>Requests with one key come from one tenant.\<close>

lemma same_tenant:
  assumes "protect (build_test_container st C hx loads so took) rg b (Some key) w = (Inr tn, d, w1)"
    "protect (build_test_container st C hx loads so took) rg' b' (Some key) w' = (Inr tn', d', w1')"
    "sys_inv C hx T w" "ordered_readings T rg" "sys_inv C hx T' w'" "ordered_readings T' rg'" "hex_text hx"
    "db_tenants (aw_db w') = db_tenants (aw_db w)" "distinct (map tn_api_key_hash (db_tenants (aw_db w)))"
  shows "tn' = tn"
proof -
  have "tn \<in> set (db_tenants (aw_db w))" "tn_api_key_hash tn = hx key"
    using protect_sound(2) [OF assms(1) _ _ _ assms(7) refl] assms(3,4) by (auto simp: sys_inv_def ordered_readings_def)
  moreover have "tn' \<in> set (db_tenants (aw_db w))" "tn_api_key_hash tn' = hx key"
    using protect_sound(2) [OF assms(2) _ _ _ assms(7) refl] assms(5,6,8) by (auto simp: sys_inv_def ordered_readings_def)
  ultimately show ?thesis using assms(9) by (metis distinct_map inj_onD)
qed

text \<open>A search that no cached answer covers is answered by the engine as it is.\<close>

lemma search_effect_up:
  assumes "protect (build_test_container st C hx loads so took) rg ''search'' key w = (Inr tn, d, w1)" "valid_params p"
    "sp_tenant p = None" "search_query_of st p (tn_id tn) = Inr q" "ordered_readings T rg" "hex_text hx"
    "im_available (aw_cache w)" "ie_available (aw_engine w)" "generation_is (rg_t3 rg) (tn_id tn) g (aw_cache w)"
    "im_look (rg_t4 rg) (aw_cache w) (query_key hx (tn_id tn) g q) = None"
  obtains b w2 where "endpoint (build_test_container st C hx loads so took) rg pp key (GetSearch p) w =
      (Inr \<lparr>rsp_status = 200, rsp_headers = [], rsp_payload = SearchBody b\<rparr>, d, w2)"
    "execute (inmemory_engine_ops so took) (tn_id tn) q (aw_engine w) = (Inr b, aw_engine w)"
proof -
  have t: "rg_t1 rg \<le> rg_t2 rg" "rg_t2 rg \<le> rg_t3 rg" "rg_t3 rg \<le> rg_t4 rg" using assms(5) by (simp_all add: ordered_readings_def)
  have p: "protect (build_test_container st C hx loads so took) rg (bucket_name (GetSearch p)) key w = (Inr tn, d, w1)"
    using assms(1) by simp
  note pf = protect_frame [OF p t(1)]
  have gen: "generation_is (rg_t3 rg) (tn_id tn) g (aw_cache w1)"
    using generation_frame [OF pf(4) t(2) not_tenant_key(1)] assms(9) by simp
  have miss: "im_look (rg_t4 rg) (aw_cache w1) (query_key hx (tn_id tn) g q) = None"
    using pf(4) not_tenant_key(2) [OF assms(6)] t assms(10) by (simp add: touches_def)
  have up: "im_available (aw_cache w1)" using protect_up [OF p] assms(7) by simp
  obtain b where b: "execute (inmemory_engine_ops so took) (tn_id tn) q (aw_engine w) = (Inr b, aw_engine w)"
    using ss.execute_ok [OF assms(8), of so took "tn_id tn" q] by metis
  obtain x c e where x: "search_service_search inmemory_ops (inmemory_engine_ops so took) C hx st (rg_t3 rg) (rg_t4 rg) (rg_t5 rg)
      (rg_took rg) (rg_random rg) (tn_id tn) q (aw_cache w1, aw_engine w1) = (x, c, e)" by (metis prod_cases3)
  with fresh_search [OF up t(3) gen miss assms(6), of so took C st "rg_t5 rg" "rg_took rg" "rg_random rg" "aw_engine w1"] b pf(2)
  have "x = Inr b" by simp
  with x p assms(2-4) b show thesis
    by (intro that) (auto simp: endpoint_def search_documents_def container_simps enforce_tenant_scope_def)
qed

text \<open>From a pending event to the answer of the next search of its tenant.\<close>

lemma search_after_work:
  fixes now :: datetime and tk :: int
  assumes inv: "sys_inv C hx T w" "events_known (aw_db w) (aw_pub w)" "hex_text hx" "T \<le> t"
    and up: "im_available (aw_cache w)" "ie_available (aw_engine w)" "db_up (aw_db w)" and so: "\<And>xs. mset (so xs) = mset xs"
    and e: "e \<in> set (mp_events (aw_pub w))" "ev_document_id e = str_uuid u" "row_of (aw_db w) u = Some d"
    and g: "generation_is t (doc_tenant_id d) n (aw_cache w)" "ordered_readings t rg" "rg_t3 rg \<le> t + 86400"
      "im_look (rg_t4 rg) (aw_cache w) (query_key hx (doc_tenant_id d) (n + 1) q) = None"
    and s: "protect (build_test_container st C hx loads so took) rg ''search'' key (work so tk now t w) = (Inr tn, x, w1)"
      "tn_id tn = doc_tenant_id d" "valid_params p" "sp_tenant p = None" "search_query_of st p (tn_id tn) = Inr q"
  obtains b w2 r d' where "endpoint (build_test_container st C hx loads so took) rg pp key (GetSearch p) (work so tk now t w) =
      (Inr \<lparr>rsp_status = 200, rsp_headers = [], rsp_payload = SearchBody b\<rparr>, x, w2)"
    "e_search (inmemory_engine_ops so took) q (aw_engine (work so tk now t w)) = (Inr r, aw_engine (work so tk now t w))"
    "sr_total b = er_total r" "sr_size b = sq_size q" "sh_id ` set (sr_hits b) = eh_document_id ` set (er_hits r)"
    "engine_inv (aw_engine (work so tk now t w))" "up_to_date d' (aw_engine (work so tk now t w))" "doc_id d' = u"
    "doc_tenant_id d' = doc_tenant_id d" "doc_title d' = doc_title d" "doc_content d' = doc_content d"
    "doc_status d' = DELETED \<longleftrightarrow> doc_status d = DELETED"
proof -
  let ?w = "work so tk now t w"
  have t: "t \<le> rg_t3 rg" "t \<le> rg_t4 rg" using g(2) by (simp_all add: ordered_readings_def)
  note eff = work_effect [OF inv up so e, where now = now and took = tk]
  have gen: "generation_is (rg_t3 rg) (tn_id tn) (n + 1) (aw_cache ?w)" using eff(6) [OF g(1) t(1) g(3)] s(2) by simp
  have miss: "im_look (rg_t4 rg) (aw_cache ?w) (query_key hx (tn_id tn) (n + 1) q) = None" using eff(7) [OF t(2)] g(4) s(2) by simp
  obtain b w2 where b: "endpoint (build_test_container st C hx loads so took) rg pp key (GetSearch p) ?w =
      (Inr \<lparr>rsp_status = 200, rsp_headers = [], rsp_payload = SearchBody b\<rparr>, x, w2)"
    "execute (inmemory_engine_ops so took) (tn_id tn) q (aw_engine ?w) = (Inr b, aw_engine ?w)"
    using search_effect_up [OF s(1,3,4,5) g(2) inv(3) eff(2,3) gen miss] .
  obtain r where r: "e_search (inmemory_engine_ops so took) q (aw_engine ?w) = (Inr r, aw_engine ?w)" "sr_total b = er_total r"
    "sh_id ` set (sr_hits b) = eh_document_id ` set (er_hits r)" using execute_hits [OF b(2)] .
  have "sr_size b = sq_size q" using b(2) by (auto simp: execute_def split: prod.splits sum.splits if_splits)
  moreover obtain d' where d': "row_of (aw_db ?w) u = Some d'" "up_to_date d' (aw_engine ?w)" "doc_tenant_id d' = doc_tenant_id d"
      "doc_title d' = doc_title d" "doc_content d' = doc_content d" "doc_status d' = DELETED \<longleftrightarrow> doc_status d = DELETED"
    using eff(5) by blast
  moreover have "doc_id d' = u" using row_of_Some [OF d'(1)] by simp
  moreover have "engine_inv (aw_engine ?w)" using eff(1) by (simp add: sys_inv_def coherent_def)
  ultimately show thesis using b(1) r that by blast
qed

text \<open>What a write leaves behind: its tenant is at the next generation, and no cached answer has been added.\<close>

lemma write_generation:
  assumes "protect (build_test_container st C hx loads so took) rg (bucket_name req) key w = (r, x, wp)" "ordered_readings T rg"
    "sys_inv C hx T w" "hex_text hx" "im_available (aw_cache w)" "rg_t3 rg \<le> t" "t \<le> rg_t3 rg + 86400" "rg_t3 rg \<le> t'"
    "touches (range (document_key s \<circ> str_uuid)) (rg_t3 rg) (aw_cache wp) c" "im_available c"
  shows "generation_is t s (fst (current_generation inmemory_ops (rg_t3 rg) s (aw_cache w)) + 1)
      (invalidate_tenant inmemory_ops (rg_t3 rg) s c)"
    "im_look t' (invalidate_tenant inmemory_ops (rg_t3 rg) s c) (query_key hx s g q) = im_look t' (aw_cache w) (query_key hx s g q)"
proof -
  have o: "rg_t1 rg \<le> rg_t2 rg" "rg_t2 rg \<le> rg_t3 rg" "T \<le> rg_t3 rg" using assms(2) by (simp_all add: ordered_readings_def)
  note f = protect_frame(4) [OF assms(1) o(1)]
  have "generation_is (rg_t3 rg) s (fst (current_generation inmemory_ops (rg_t3 rg) s (aw_cache w))) (aw_cache w)"
    using generation_now [OF _ o(3) assms(5)] assms(3) by (auto simp: sys_inv_def)
  then have "generation_is (rg_t3 rg) s (fst (current_generation inmemory_ops (rg_t3 rg) s (aw_cache w))) c"
    using generation_frame [OF f o(2) not_tenant_key(1)] generation_frame [OF assms(9) order.refl] document_key_not_generation [symmetric]
    by (auto simp: image_iff)
  then show "generation_is t s (fst (current_generation inmemory_ops (rg_t3 rg) s (aw_cache w)) + 1)
      (invalidate_tenant inmemory_ops (rg_t3 rg) s c)" by (rule generation_next [OF assms(10) _ assms(6,7)])
  let ?k = "query_key hx s g q"
  have "touches {search_generation_key s} (rg_t3 rg) c (invalidate_tenant inmemory_ops (rg_t3 rg) s c)"
    unfolding invalidate_tenant_def by (rule touches_incr) simp_all
  then have "im_look t' (invalidate_tenant inmemory_ops (rg_t3 rg) s c) ?k = im_look t' c ?k"
    using assms(8) query_key_classes(2) [OF assms(4)] by (simp add: touches_def)
  also have "?k \<notin> range (document_key s \<circ> str_uuid)" using query_key_classes(1) [OF assms(4)] by auto
  then have "im_look t' c ?k = im_look t' (aw_cache wp) ?k" using assms(8,9) by (simp add: touches_def)
  also have "\<dots> = im_look t' (aw_cache w) ?k"
    using f not_tenant_key(2) [OF assms(4)] assms(8) o(2) by (simp add: touches_def)
  finally show "im_look t' (invalidate_tenant inmemory_ops (rg_t3 rg) s c) ?k = im_look t' (aw_cache w) ?k" .
qed

lemma delete_effect:
  assumes "delete_document (build_test_container st C hx loads so took) rg pp i tn w = (Inr rsp, w')" "pp i = Some u" "db_inv (aw_db w)"
  obtains d where "doc_tenant_id d = tn_id tn" "doc_id d = u"
    "row_of (aw_db w') u = Some (deleted_row (rg_updated rg) d)" "db_up (aw_db w')"
    "aw_pub w' = snd (publish inmemory_publisher_ops
       (event_of (rg_event_id rg) (rg_occurred rg) (tn_id tn) (deleted_row (rg_updated rg) d) EVENT_DELETE) (aw_pub w))"
    "aw_cache w' = invalidate_tenant inmemory_ops (rg_t3 rg) (tn_id tn)
       (cc_delete inmemory_ops [document_key (tn_id tn) (str_uuid u)] (aw_cache w))"
    "aw_engine w' = aw_engine w"
proof -
  obtain e where e: "ds_delete inmemory_ops inmemory_publisher_ops (rg_t3 rg) (rg_updated rg) (rg_event_id rg) (rg_occurred rg)
      (rg_commit_ok rg) (tn_id tn) u (to_doc_world w) = (Inr (), e)" "w' = with_doc_world w e"
    using assms(1,2) by (auto simp: delete_document_def container_simps split: sum.splits prod.splits)
  have "db_inv (w_db (to_doc_world w))" using assms(3) by simp
  from ds_delete_cases [OF e(1) this] obtain d where "row_of (aw_db w) u = Some d" "doc_tenant_id d = tn_id tn"
    "\<forall>x. row_of (w_db e) x = (if x = u then Some (deleted_row (rg_updated rg) d) else row_of (aw_db w) x)" "db_up (w_db e)"
    "w_cache e = invalidate_tenant inmemory_ops (rg_t3 rg) (tn_id tn) (cc_delete inmemory_ops [document_key (tn_id tn) (str_uuid u)] (aw_cache w))"
    "w_pub e = snd (publish inmemory_publisher_ops
       (event_of (rg_event_id rg) (rg_occurred rg) (tn_id tn) (deleted_row (rg_updated rg) d) EVENT_DELETE) (aw_pub w))"
    by (metis doc_world_simps(1-3))
  with e(2) show thesis by (intro that [of d]) (auto simp: with_doc_world_def dest: row_of_Some)
qed

lemma get_gone:
  assumes "protect (build_test_container st C hx loads so took) rg (bucket_name (GetDocument i)) key w = (Inr tn, d, wp)"
    "db_inv (aw_db w)" "ordered_readings T rg" "row_of (aw_db w) u = Some dd" "doc_status dd = DELETED" "pp i = Some u"
    "im_look (rg_t3 rg) (aw_cache w) (document_key (tn_id tn) (str_uuid u)) = None"
  shows "fst (endpoint (build_test_container st C hx loads so took) rg pp key (GetDocument i) w) \<noteq> Inr x"
proof -
  let ?k = "document_key (tn_id tn) (str_uuid u)"
  have t: "rg_t1 rg \<le> rg_t2 rg" "rg_t2 rg \<le> rg_t3 rg" using assms(3) by (simp_all add: ordered_readings_def)
  note pf = protect_frame [OF assms(1) t(1)]
  have "?k \<notin> range tenant_key" using tenant_key_prefix(1) by (auto simp: image_iff) metis
  then have "im_look (rg_t3 rg) (aw_cache wp) ?k = None" using pf(4) t(2) assms(7) by (simp add: touches_def)
  then have "\<not> is_ok (fst (ds_get inmemory_ops C st (rg_t3 rg) (rg_t4 rg) (tn_id tn) u (to_doc_world wp)))"
    using dsv.get_uncached [of "to_doc_world wp" "rg_t3 rg" "tn_id tn" u C st "rg_t4 rg"] assms(2,4,5) pf(1) by simp
  then show ?thesis
    using assms(1,6) by (auto simp: endpoint_def get_document_def container_simps split: prod.splits sum.splits)
qed

text \<open>The first search of a tenant after one of its writes was processed.\<close>

lemma search_after_write:
  fixes now :: datetime and tk :: int
  assumes before: "sys_inv C hx T w" "db_tenants (aw_db w) = tenants" "distinct (map tn_api_key_hash tenants)" "im_available (aw_cache w)"
    and env: "hex_text hx" "\<And>xs. mset (so xs) = mset xs"
    and a: "protect (build_test_container st C hx loads so took) rg (bucket_name req) (Some key) w = (Inr tn0, y, wp)"
    and inv: "sys_inv C hx (rg_t5 rg) w1" "events_known (aw_db w1) (aw_pub w1)" "db_tenants (aw_db w1) = tenants"
    and up: "im_available (aw_cache w1)" "ie_available (aw_engine w1)" "db_up (aw_db w1)"
    and e: "e \<in> set (mp_events (aw_pub w1))" "ev_document_id e = str_uuid u" "row_of (aw_db w1) u = Some d" "doc_tenant_id d = tn_id tn0"
    and c: "aw_cache w1 = invalidate_tenant inmemory_ops (rg_t3 rg) (tn_id tn0) c" "im_available c"
      "touches (range (document_key (tn_id tn0) \<circ> str_uuid)) (rg_t3 rg) (aw_cache wp) c"
    and time: "ordered_readings T rg" "rg_t5 rg \<le> t" "t \<le> rg_t3 rg + 86400" "ordered_readings t rg'" "rg_t3 rg' \<le> t + 86400"
    and search: "protect (build_test_container st C hx loads so took) rg' ''search'' (Some key) (work so tk now t w1) = (Inr tn, x, w2)"
      "valid_params p" "sp_tenant p = None" "search_query_of st p (tn_id tn) = Inr q"
    and uncached: "im_look (rg_t4 rg') (aw_cache w) (query_key hx (tn_id tn)
      (fst (current_generation inmemory_ops (rg_t3 rg) (tn_id tn) (aw_cache w)) + 2) q) = None"
  obtains b w3 r d' where "endpoint (build_test_container st C hx loads so took) rg' pp (Some key) (GetSearch p) (work so tk now t w1) =
      (Inr \<lparr>rsp_status = 200, rsp_headers = [], rsp_payload = SearchBody b\<rparr>, x, w3)"
    "e_search (inmemory_engine_ops so took) q (aw_engine (work so tk now t w1)) = (Inr r, aw_engine (work so tk now t w1))"
    "sr_total b = er_total r" "sr_size b = sq_size q" "sh_id ` set (sr_hits b) = eh_document_id ` set (er_hits r)"
    "engine_inv (aw_engine (work so tk now t w1))" "up_to_date d' (aw_engine (work so tk now t w1))" "doc_id d' = u"
    "doc_tenant_id d' = doc_tenant_id d" "doc_title d' = doc_title d" "doc_content d' = doc_content d"
    "doc_status d' = DELETED \<longleftrightarrow> doc_status d = DELETED" "tn_id tn = doc_tenant_id d"
proof -
  note work = work_effect [OF inv(1,2) env(1) time(2) up env(2) e(1-3), where now = now and took = tk]
  have tn: "tn = tn0"
    using same_tenant [OF a search(1) before(1) time(1) work(1) time(4) env(1)] before(2,3) inv(3) work(4) by (simp add: rows_kept_def)
  have o: "rg_t3 rg \<le> t" "rg_t3 rg \<le> rg_t4 rg'" using time(1,2,4) by (auto simp: ordered_readings_def)
  note g = write_generation [OF a time(1) before(1) env(1) before(4) o(1) time(3) o(2) c(3,2), folded c(1)]
  have gen: "generation_is t (doc_tenant_id d) (fst (current_generation inmemory_ops (rg_t3 rg) (tn_id tn) (aw_cache w)) + 1) (aw_cache w1)"
    using g(1) tn e(4) by simp
  have miss: "im_look (rg_t4 rg') (aw_cache w1) (query_key hx (doc_tenant_id d)
      (fst (current_generation inmemory_ops (rg_t3 rg) (tn_id tn) (aw_cache w)) + 1 + 1) q) = None"
    using uncached tn e(4) by (simp add: g(2) add.assoc)
  have id: "tn_id tn = doc_tenant_id d" using tn e(4) by simp
  show thesis
    by (rule search_after_work [OF inv(1,2) env(1) time(2) up env(2) e(1-3) gen time(4,5) miss search(1) id search(2-4), of pp])
       (rule that, assumption+, rule id)
qed

text \<open>The state after an accepted post.\<close>

lemma posted_state:
  assumes reach: "sys_reach st C hx loads so pp tenants (T, w)" and hex: "hex_text hx" and o: "ordered_readings T rg"
    and up: "im_available (aw_cache w)" "ie_available (aw_engine w)" "mp_available (aw_pub w)"
    and post: "endpoint (build_test_container st C hx loads so took) rg pp (Some key) (PostDocument body) w = (Inr rsp, d, w1)"
      "rsp_payload rsp = Accepted a" "validate_document_create body = Inr dc"
  obtains tn wp e dd where
    "protect (build_test_container st C hx loads so took) rg (bucket_name (PostDocument body)) (Some key) w = (Inr tn, d, wp)"
    "sys_inv C hx (rg_t5 rg) w1" "events_known (aw_db w1) (aw_pub w1)" "db_tenants (aw_db w1) = tenants"
    "im_available (aw_cache w1)" "ie_available (aw_engine w1)" "db_up (aw_db w1)"
    "e \<in> set (mp_events (aw_pub w1))" "ev_document_id e = str_uuid (da_id a)" "row_of (aw_db w1) (da_id a) = Some dd"
    "doc_tenant_id dd = tn_id tn" "doc_title dd = dc_title dc" "doc_content dd = dc_content dc" "doc_status dd \<noteq> DELETED"
    "im_available (aw_cache wp)" "aw_cache w1 = invalidate_tenant inmemory_ops (rg_t3 rg) (tn_id tn) (aw_cache wp)"
proof -
  have inv: "sys_inv C hx T w" using sys_reach_inv [OF reach hex] by simp
  have known: "events_known (aw_db w) (aw_pub w)" "db_tenants (aw_db w) = tenants" using reach_known [OF reach hex] by simp_all
  obtain tn wp where pr: "protect (build_test_container st C hx loads so took) rg (bucket_name (PostDocument body)) (Some key) w = (Inr tn, d, wp)"
    and h: "create_document (build_test_container st C hx loads so took) rg body tn wp = (Inr rsp, w1)"
    using post(1) by (auto simp: endpoint_def split: prod.splits sum.splits)
  have o1: "rg_t1 rg \<le> rg_t2 rg" using o by (simp add: ordered_readings_def)
  let ?doc = "new_document (rg_created rg) (rg_updated rg) (rg_uuid rg) (tn_id tn) dc"
  let ?e = "event_of (rg_event_id rg) (rg_occurred rg) (tn_id tn) ?doc EVENT_INDEX"
  note c = create_effect [OF h post(2,3), unfolded protect_frame(1-3) [OF pr o1]]
  have wp: "im_available (aw_cache wp)" using protect_up [OF pr] up(1) by simp
  have "im_available (aw_cache w1)" "ie_available (aw_engine w1)" "db_up (aw_db w1)"
    using c(5,6) invalidate_up [OF wp] up(2) repo_create_up [OF c(3)] by simp_all
  moreover have "?e \<in> set (mp_events (aw_pub w1))" "ev_document_id ?e = str_uuid (da_id a)" "row_of (aw_db w1) (da_id a) = Some ?doc"
    using c(1,4) up(3) repo_create_row [OF c(3), of "rg_uuid rg"] by (simp_all add: mpub.publish_pending event_of_def new_document_def)
  moreover have "events_known (aw_db w1) (aw_pub w1)" "db_tenants (aw_db w1) = tenants"
    using endpoint_known [OF post(1) o1 known(1)] inv known(2) by (simp_all add: sys_inv_def)
  moreover have "doc_tenant_id ?doc = tn_id tn" "doc_title ?doc = dc_title dc" "doc_content ?doc = dc_content dc" "doc_status ?doc \<noteq> DELETED"
    by (simp_all add: new_document_def)
  ultimately show thesis using that [OF pr endpoint_inv [OF post(1) inv o hex]] c(5) wp by blast
qed

text \<open>The state after an accepted delete.\<close>

lemma deleted_state:
  assumes reach: "sys_reach st C hx loads so pp tenants (T, w)" and hex: "hex_text hx" and o: "ordered_readings T rg"
    and up: "im_available (aw_cache w)" "ie_available (aw_engine w)" "mp_available (aw_pub w)"
    and delete: "endpoint (build_test_container st C hx loads so took) rg pp (Some key) (DeleteDocument i) w = (Inr rsp, d, w1)" "pp i = Some u"
  obtains tn wp e dd where
    "protect (build_test_container st C hx loads so took) rg (bucket_name (DeleteDocument i)) (Some key) w = (Inr tn, d, wp)"
    "sys_inv C hx (rg_t5 rg) w1" "events_known (aw_db w1) (aw_pub w1)" "db_tenants (aw_db w1) = tenants"
    "im_available (aw_cache w1)" "ie_available (aw_engine w1)" "db_up (aw_db w1)"
    "e \<in> set (mp_events (aw_pub w1))" "ev_document_id e = str_uuid u" "row_of (aw_db w1) u = Some dd"
    "doc_tenant_id dd = tn_id tn" "doc_status dd = DELETED" "im_available (aw_cache wp)"
    "aw_cache w1 = invalidate_tenant inmemory_ops (rg_t3 rg) (tn_id tn)
       (cc_delete inmemory_ops [document_key (tn_id tn) (str_uuid u)] (aw_cache wp))"
proof -
  have inv: "sys_inv C hx T w" using sys_reach_inv [OF reach hex] by simp
  then have dbi: "db_inv (aw_db w)" by (simp add: sys_inv_def)
  have known: "events_known (aw_db w) (aw_pub w)" "db_tenants (aw_db w) = tenants" using reach_known [OF reach hex] by simp_all
  obtain tn wp where pr: "protect (build_test_container st C hx loads so took) rg (bucket_name (DeleteDocument i)) (Some key) w = (Inr tn, d, wp)"
    and h: "delete_document (build_test_container st C hx loads so took) rg pp i tn wp = (Inr rsp, w1)"
    using delete(1) by (auto simp: endpoint_def split: prod.splits sum.splits)
  have o1: "rg_t1 rg \<le> rg_t2 rg" using o by (simp add: ordered_readings_def)
  note pf = protect_frame(1-3) [OF pr o1]
  obtain dd where c: "doc_tenant_id dd = tn_id tn" "doc_id dd = u" "row_of (aw_db w1) u = Some (deleted_row (rg_updated rg) dd)" "db_up (aw_db w1)"
    "aw_pub w1 = snd (publish inmemory_publisher_ops
       (event_of (rg_event_id rg) (rg_occurred rg) (tn_id tn) (deleted_row (rg_updated rg) dd) EVENT_DELETE) (aw_pub w))"
    "aw_cache w1 = invalidate_tenant inmemory_ops (rg_t3 rg) (tn_id tn)
       (cc_delete inmemory_ops [document_key (tn_id tn) (str_uuid u)] (aw_cache wp))" "aw_engine w1 = aw_engine w"
    using delete_effect [OF h delete(2)] dbi unfolding pf by metis
  let ?e = "event_of (rg_event_id rg) (rg_occurred rg) (tn_id tn) (deleted_row (rg_updated rg) dd) EVENT_DELETE"
  have wp: "im_available (aw_cache wp)" using protect_up [OF pr] up(1) by simp
  have "?e \<in> set (mp_events (aw_pub w1))" "ev_document_id ?e = str_uuid u"
    using c(2,5) up(3) by (simp_all add: mpub.publish_pending event_of_def deleted_row_def)
  moreover have "im_available (aw_cache w1)" using c(6) invalidate_up [OF imc.cc_delete_up [OF wp]] by simp
  moreover have "ie_available (aw_engine w1)" using c(7) up(2) by simp
  moreover have "events_known (aw_db w1) (aw_pub w1)" "db_tenants (aw_db w1) = tenants"
    using endpoint_known [OF delete(1) o1 known(1) dbi] known(2) by simp_all
  ultimately show thesis
    using that [OF pr endpoint_inv [OF delete(1) inv o hex]] c(1,3,4,6) wp by (simp add: deleted_row_def)
qed

end
