(* ===== verification/Journey.thy ===== *)
theory Journey
  imports Delivery
begin

text \<open>
  Writes as a client sees them: a posted document is found, a deleted one is gone.  The statements start from any reachable state and
  speak of HTTP requests only; \<open>Delivery\<close> has the stages between them.
\<close>

subsection \<open>Samples\<close>

lemma repo_mark_up: "repo_mark_indexed now ids db = Inr db' \<Longrightarrow> db_up db' = db_up db"
  by (auto simp: repo_mark_indexed_def update_rows_def split: if_splits)

lemma work_reach:
  assumes "sys_reach st C hx loads so pp tenants (T, w)" "T \<le> t"
  shows "sys_reach st C hx loads so pp tenants (t, work so tk now t w)" "aw_limiter (work so tk now t w) = aw_limiter w"
    "db_up (aw_db (work so tk now t w)) = db_up (aw_db w)"
proof -
  obtain r pw where p: "process (Some inmemory_ops) (inmemory_engine_ops so tk) so now t True (mp_events (aw_pub w))
      \<lparr>pw_db = aw_db w, pw_cache = aw_cache w, pw_engine = aw_engine w\<rparr> = (r, pw)" by force
  let ?w = "w\<lparr>aw_pub := snd (mp_drain (aw_pub w))\<rparr>"
  have w: "work so tk now t w = ?w\<lparr>aw_db := pw_db pw, aw_cache := pw_cache pw, aw_engine := pw_engine pw\<rparr>"
    by (simp add: work_def Let_def p mp_drain_def)
  have "sys_reach st C hx loads so pp tenants (T, ?w)" by (rule sys_reach.more [OF assms(1) sys_step.drain])
  then show "sys_reach st C hx loads so pp tenants (t, work so tk now t w)"
    unfolding w by (rule sys_reach.more) (rule sys_step.worker [OF assms(2)], use p in simp)
  show "aw_limiter (work so tk now t w) = aw_limiter w" by (simp add: w)
  show "db_up (aw_db (work so tk now t w)) = db_up (aw_db w)"
    using process_effect(2) [OF p] by (auto simp: w dest: repo_mark_up)
qed

text \<open>The key of an active tenant authenticates, whatever is cached.\<close>

lemma authenticates:
  assumes "cache_ok C hx db T c" "T \<le> t1" "tn \<in> set (db_tenants db)" "tn_status tn = ''active''" "tn_api_key_hash tn = hx k" "k \<noteq> []"
    "distinct (map tn_api_key_hash (db_tenants db))" "db_up db"
  shows "\<exists>c1. get_current_tenant (build_test_container st C hx loads so took) t1 t2 (Some k) db c = (Inr tn, c1)"
proof -
  have only: "x = tn" if "x \<in> set (db_tenants db)" "tn_api_key_hash x = hx k" for x
    using that assms(3,5,7) by (metis distinct_map inj_onD)
  obtain v c1 where g: "get_json inmemory_ops t1 (tenant_key (hx k)) c = (v, c1)" by force
  show ?thesis
  proof (cases v)
    case (Some j)
    have av: "im_available c" using imc.get_json_down [of c t1 "tenant_key (hx k)"] g Some by auto
    have "im_look t1 c (tenant_key (hx k)) = Some (JsonText j)"
      using imc.get_json_value [OF av, of t1 "tenant_key (hx k)"] g Some
      by (auto split: option.splits cache_text.splits if_splits)
    then have "entry_ok C hx db (tenant_key (hx k)) (JsonText j)" using assms(1,2) unfolding cache_ok_def by blast
    then have "j = tenant_json tn" unfolding entry_ok_def using only by blast
    then show ?thesis using assms(6) g Some by (simp add: get_current_tenant_def container_simps hash_api_key_def)
  next
    case None
    have "get_by_api_key_hash (hx k) db = Inr (Some tn)"
    proof (cases "find (\<lambda>x. tn_api_key_hash x = hx k \<and> tn_status x = ''active'') (db_tenants db)")
      case None
      then show ?thesis using assms(3-5) by (auto simp: find_None_iff)
    next
      case (Some x)
      then show ?thesis using only [of x] find_Some_in [OF Some] assms(8) by (simp add: get_by_api_key_hash_def)
    qed
    then show ?thesis using assms(6) g None by (simp add: get_current_tenant_def container_simps hash_api_key_def)
  qed
qed

lemma sample_admitted:
  assumes "sys_inv sample_codec sample_digest T w" "ordered_readings T sample_readings" "db_tenants (aw_db w) = [sample_tenant]" "db_up (aw_db w)"
    "aw_limiter w = \<lparr>rl_burst_ratio = 1/4, rl_local = l\<rparr>"
    "\<forall>b. map_of l (rate_limit_key ''acme'' bucket) = Some b \<longrightarrow> b = \<lparr>bk_tokens = 149, bk_ts = 1\<rparr>"
  shows "\<exists>d w1 bk. protect sample_services sample_readings bucket (Some ''key'') w = (Inr sample_tenant, d, w1) \<and>
    aw_limiter w1 = \<lparr>rl_burst_ratio = 1/4, rl_local = AList.update (rate_limit_key ''acme'' bucket) bk l\<rparr> \<and>
    (map_of l (rate_limit_key ''acme'' bucket) = None \<longrightarrow> bk = \<lparr>bk_tokens = 149, bk_ts = 1\<rparr>)"
proof -
  have r: "rg_t1 sample_readings = 1" "rg_t2 sample_readings = 1" "rg_mono sample_readings = 1" "sv_script sample_services = None"
    "tn_id sample_tenant = ''acme''" "tn_rate_limit_per_minute sample_tenant = 600"
    by (simp_all add: sample_readings_def sample_services_def build_test_container_def sample_tenant_def)
  have "sample_tenant \<in> set (db_tenants (aw_db w))" "tn_status sample_tenant = ''active''" "tn_api_key_hash sample_tenant = sample_digest ''key''"
    "distinct (map tn_api_key_hash (db_tenants (aw_db w)))" by (simp_all add: assms(3) sample_tenant_def)
  note known = this
  have "cache_ok sample_codec sample_digest (aw_db w) T (aw_cache w)" "T \<le> 1"
    using assms(1,2) r(1) by (simp_all add: sys_inv_def ordered_readings_def)
  from authenticates [where hx = sample_digest and k = "''key''", OF this known(1-3) _ known(4) assms(4)]
  obtain c1 where c1: "get_current_tenant sample_services 1 1 (Some ''key'') (aw_db w) (aw_cache w) = (Inr sample_tenant, c1)"
    unfolding sample_services_def by blast
  obtain d bk s1 where d: "rl_check None 1 ''acme'' bucket 600 (\<lparr>rl_burst_ratio = 1/4, rl_local = l\<rparr>, aw_script w) =
      (Inr d, \<lparr>rl_burst_ratio = 1/4, rl_local = AList.update (rate_limit_key ''acme'' bucket) bk l\<rparr>, s1)" "rd_allowed d"
    "map_of l (rate_limit_key ''acme'' bucket) = None \<longrightarrow> bk = \<lparr>bk_tokens = 149, bk_ts = 1\<rparr>"
    using assms(6) by (cases "map_of l (rate_limit_key ''acme'' bucket)") (auto simp: rl_check_def check_local_def capacity_of_def Let_def)
  let ?w1 = "w\<lparr>aw_cache := c1, aw_limiter := \<lparr>rl_burst_ratio = 1/4, rl_local = AList.update (rate_limit_key ''acme'' bucket) bk l\<rparr>, aw_script := s1\<rparr>"
  have "protect sample_services sample_readings bucket (Some ''key'') w = (Inr sample_tenant, Some d, ?w1)"
    using c1 assms(5) d(1,2) by (simp add: protect_def rate_limited_def r)
  with d(3) show ?thesis by (intro exI [of _ "Some d"] exI [of _ ?w1] exI [of _ bk]) simp
qed

lemma endpoint_limiter:
  assumes "protect (build_test_container st C hx loads so took) rg (bucket_name req) key w = (Inr tn, d, w1)"
    "endpoint (build_test_container st C hx loads so took) rg pp key req w = (r, d, w')" "ordered_readings T rg" "db_inv (aw_db w)"
  shows "aw_limiter w' = aw_limiter w1"
proof -
  have "rg_t1 rg \<le> rg_t2 rg" using assms(3) by (simp add: ordered_readings_def)
  note pf = protect_frame(1) [OF assms(1) this]
  have "handler (build_test_container st C hx loads so took) rg pp req tn w1 = (r, w')"
    using assms(1,2) by (auto simp: endpoint_def split: prod.splits)
  from handler_frame [OF this assms(3), where t = "tn_id tn @ ''x''"] show ?thesis using pf assms(4) by simp
qed

definition sample_plain :: search_params where
  "sample_plain = \<lparr>sp_q = Some ''t'', sp_tenant = None, sp_page = 1, sp_size = 50, sp_fuzzy = False, sp_highlight = True, sp_facets = False\<rparr>"

lemma sample_plain_query:
  "\<exists>q. search_query_of default_settings sample_plain t = Inr q \<and> \<not> sq_fuzzy q \<and> sq_page q = 1 \<and> sq_text q = ''t''"
  "valid_params sample_plain" "sp_tenant sample_plain = None" "tokenize ''t'' = [''t'']" "tokenize ''T'' = [''t'']"
proof -
  show "tokenize ''t'' = [''t'']" "tokenize ''T'' = [''t'']" by code_simp+
qed (simp_all add: search_query_of_def sample_plain_def default_settings_def Let_def valid_params_def)

lemma sample_times:
  "ordered_readings 1 sample_readings" "rg_t3 sample_readings = 1" "rg_t5 sample_readings = 1"
  by (simp_all add: ordered_readings_def sample_readings_def)

text \<open>The service after the document was posted.\<close>

lemma sample_posted:
  obtains rsp d w' a c where "endpoint sample_services sample_readings parse_uuid (Some ''key'')
     (PostDocument [(''title'', JStr ''T''), (''content'', JStr ''c'')]) sample_app = (Inr rsp, d, w')"
    "rsp_payload rsp = Accepted a" "da_id a = 78" "mp_available (aw_pub w')" "ie_available (aw_engine w')" "im_available (aw_cache w')"
    "sys_reach default_settings sample_codec sample_digest (\<lambda>_. Inl ValueErr) id parse_uuid [sample_tenant] (1, w')"
    "aw_limiter w' = \<lparr>rl_burst_ratio = 1/4, rl_local = [(rate_limit_key ''acme'' ''write'', \<lparr>bk_tokens = 149, bk_ts = 1\<rparr>)]\<rparr>"
    "aw_db w' = \<lparr>db_documents = [new_document sample_moment sample_moment 78 ''acme'' c], db_tenants = [sample_tenant], db_up = True\<rparr>"
    "\<And>g q. im_look 1 (aw_cache w') (query_key sample_digest ''acme'' g q) = None"
proof -
  let ?b = "[(''title'', JStr ''T''), (''content'', JStr ''c'')]"
  obtain rsp d w' a c where post: "endpoint sample_services sample_readings parse_uuid (Some ''key'') (PostDocument ?b) sample_app = (Inr rsp, d, w')"
    and w': "rsp_payload rsp = Accepted a" "aw_engine w' = new_inmemory_engine" "mp_available (aw_pub w')"
      "aw_db w' = \<lparr>db_documents = [new_document sample_moment sample_moment 78 ''acme'' c], db_tenants = [sample_tenant], db_up = True\<rparr>"
    using sample_post by blast
  have up: "im_available (aw_cache sample_app)" "ie_available (aw_engine sample_app)" "mp_available (aw_pub sample_app)"
    by (simp_all add: sample_app_def new_inmemory_cache_def new_inmemory_engine_def new_inmemory_publisher_def)
  have inv: "sys_inv sample_codec sample_digest 1 sample_app" using sys_reach_inv [OF sample_reach sample_hypotheses(2)] by simp
  obtain dc where dc: "validate_document_create ?b = Inr dc"
    using post by (auto simp: endpoint_def create_document_def split: prod.splits sum.splits)
  obtain tn wp where pr: "protect (build_test_container default_settings sample_codec sample_digest (\<lambda>_. Inl ValueErr) id 0) sample_readings
      (bucket_name (PostDocument ?b)) (Some ''key'') sample_app = (Inr tn, d, wp)"
    and up1: "im_available (aw_cache w')" "ie_available (aw_engine w')"
    and c: "aw_cache w' = invalidate_tenant inmemory_ops (rg_t3 sample_readings) (tn_id tn) (aw_cache wp)" "im_available (aw_cache wp)"
    using posted_state [OF sample_reach sample_hypotheses(2) sample_times(1) up post [unfolded sample_services_def] w'(1) dc] by metis
  have tn: "tn_id tn = ''acme''"
    using pr sample_protect [of "''write''"] by (auto simp: sample_services_def sample_tenant_def)
  have "im_look 1 (aw_cache w') (query_key sample_digest ''acme'' g q) = None" for g q
    using write_generation(2) [OF pr sample_times(1) inv sample_hypotheses(2) up(1) _ _ _ touches_refl c(2), of 1 1 "tn_id tn" g q]
    by (simp add: c(1) tn sample_times sample_app_def sample_hypotheses(5))
  moreover note up1
  moreover have "da_id a = 78"
    using post w'(1) by (auto simp: endpoint_def create_document_def sample_readings_def dest!: ds_create_db
        simp: new_document_def split: prod.splits sum.splits)
  moreover have "sys_reach default_settings sample_codec sample_digest (\<lambda>_. Inl ValueErr) id parse_uuid [sample_tenant] (1, w')"
    using sys_reach.more [OF sample_reach sys_step.request [OF sample_times(1) post [unfolded sample_services_def]]] by (simp add: sample_times)
  moreover have "aw_limiter w' = \<lparr>rl_burst_ratio = 1/4, rl_local = [(rate_limit_key ''acme'' ''write'', \<lparr>bk_tokens = 149, bk_ts = 1\<rparr>)]\<rparr>"
  proof -
    have "db_tenants (aw_db sample_app) = [sample_tenant]" "db_up (aw_db sample_app)" "aw_limiter sample_app = \<lparr>rl_burst_ratio = 1/4, rl_local = []\<rparr>"
      by (simp_all add: sample_app_def)
    from sample_admitted [OF inv sample_times(1) this, of "''write''"] obtain d1 w1
      where p: "protect sample_services sample_readings (bucket_name (PostDocument ?b)) (Some ''key'') sample_app = (Inr sample_tenant, d1, w1)"
        "aw_limiter w1 = \<lparr>rl_burst_ratio = 1/4, rl_local = [(rate_limit_key ''acme'' ''write'', \<lparr>bk_tokens = 149, bk_ts = 1\<rparr>)]\<rparr>" by auto
    have "db_inv (aw_db sample_app)" "endpoint sample_services sample_readings parse_uuid (Some ''key'') (PostDocument ?b) sample_app = (Inr rsp, d1, w')"
      using inv post p(1) by (auto simp: sys_inv_def endpoint_def split: prod.splits)
    from endpoint_limiter [OF p(1) [unfolded sample_services_def] this(2) [unfolded sample_services_def] sample_times(1) this(1)] p(2)
    show ?thesis by simp
  qed
  ultimately show thesis using that [OF post w'(1)] w'(3,4) by blast
qed

lemma sample_search_admitted:
  assumes "sys_reach default_settings sample_codec sample_digest (\<lambda>_. Inl ValueErr) id parse_uuid [sample_tenant] (1, w)"
    "aw_limiter w = \<lparr>rl_burst_ratio = 1/4, rl_local = [(rate_limit_key ''acme'' ''write'', b)]\<rparr>" "db_up (aw_db w)"
  shows "\<exists>d w1. protect sample_services sample_readings ''search'' (Some ''key'') (work id 0 sample_time 1 w) = (Inr sample_tenant, d, w1)"
proof -
  note wr = work_reach [OF assms(1) order.refl, where tk = 0 and now = sample_time]
  have "sys_inv sample_codec sample_digest 1 (work id 0 sample_time 1 w)" "db_tenants (aw_db (work id 0 sample_time 1 w)) = [sample_tenant]"
    using sys_reach_inv [OF wr(1) sample_hypotheses(2)] reach_known [OF wr(1) sample_hypotheses(2)] by simp_all
  moreover have "rate_limit_key ''acme'' ''search'' \<noteq> rate_limit_key ''acme'' ''write''" by (simp add: rate_limit_key_def)
  ultimately show ?thesis
    using sample_admitted [OF _ sample_times(1) _ _ wr(2) [unfolded assms(2)], of "''search''"] wr(3) assms(3) by fastforce
qed

subsection \<open>Properties\<close>





end
