(* ===== verification/Container.thy ===== *)
theory Container
  imports Api
begin

text \<open>
  \<open>container.py\<close> and \<open>db/database.py\<close>: bootstrap and shutdown.  Seeding runs in one session: every pair is looked
  up, added or updated, and flushed before the next lookup, where a duplicate key hash violates the unique
  column; nothing is stored unless the final \<open>COMMIT\<close> succeeds.  \<open>py_title\<close> is \<open>str.title\<close> on the characters of
  the model (the three lower-case letters whose capitals lie outside the range are left as they are).
\<close>

definition cased_char :: "char \<Rightarrow> bool" where
  "cased_char c =
     (let n = of_char c :: nat
      in (65 \<le> n \<and> n \<le> 90) \<or> (97 \<le> n \<and> n \<le> 122) \<or> n = 170 \<or> n = 181 \<or> n = 186 \<or>
         (192 \<le> n \<and> n \<noteq> 215 \<and> n \<noteq> 247))"

definition upper_char :: "char \<Rightarrow> char" where
  "upper_char c =
     (let n = of_char c :: nat
      in if (97 \<le> n \<and> n \<le> 122) \<or> (224 \<le> n \<and> n \<le> 254 \<and> n \<noteq> 247) then char_of (n - 32) else c)"

fun title_from :: "bool \<Rightarrow> string \<Rightarrow> string" where
  "title_from prev [] = []"
| "title_from prev (c # cs) = (if prev then lower_char c else upper_char c) # title_from (cased_char c) cs"

definition py_title :: "string \<Rightarrow> string" where
  "py_title s = title_from False s"

definition rekey :: "string \<Rightarrow> string \<Rightarrow> tenant list \<Rightarrow> tenant list" where
  "rekey i h ts = map (\<lambda>t. if tn_id t = i then t\<lparr>tn_api_key_hash := h\<rparr> else t) ts"

definition seed_one :: "(string \<Rightarrow> string) \<Rightarrow> settings \<Rightarrow> string \<times> string \<Rightarrow> tenant list \<Rightarrow> tenant list" where
  "seed_one hexdigest st pair tenants =
     (case pair of (tenant_id, api_key) \<Rightarrow>
        (let key_hash = hash_api_key hexdigest api_key
         in case find (\<lambda>t. tn_id t = tenant_id) tenants of
              None \<Rightarrow>
                tenants @ [\<lparr>tn_id = tenant_id, tn_name = py_title tenant_id, tn_api_key_hash = key_hash,
                            tn_status = ''active'', tn_rate_limit_per_minute = default_rate_limit_per_minute st\<rparr>]
            | Some existing \<Rightarrow>
                if tn_api_key_hash existing \<noteq> key_hash
                then rekey tenant_id key_hash tenants
                else tenants))"

fun seed_loop :: "(string \<Rightarrow> string) \<Rightarrow> settings \<Rightarrow> (string \<times> string) list \<Rightarrow> tenant list \<Rightarrow> tenant list result" where
  "seed_loop hexdigest st [] tenants = Inr tenants"
| "seed_loop hexdigest st (pair # pairs) tenants =
     (let tenants1 = seed_one hexdigest st pair tenants
      in if distinct (map tn_api_key_hash tenants1) then seed_loop hexdigest st pairs tenants1 else Inl DatabaseErr)"

definition seed_tenants ::
  "(string \<Rightarrow> string) \<Rightarrow> settings \<Rightarrow> bool \<Rightarrow> database \<Rightarrow> unit result \<times> database" where
  "seed_tenants hexdigest st commit_ok db =
     (if \<not> db_up db then (Inl DatabaseErr, db)
      else
        (case seed_loop hexdigest st (seeded_tenants st) (db_tenants db) of
           Inl e \<Rightarrow> (Inl e, db)
         | Inr tenants \<Rightarrow> if commit_ok then (Inr (), db\<lparr>db_tenants := tenants\<rparr>) else (Inl DatabaseErr, db)))"

definition create_schema :: "database \<Rightarrow> unit result" where
  "create_schema db = (if \<not> db_up db then Inl DatabaseErr else Inr ())"

text \<open>\<open>connect\<close> is the optional method of the publisher; an exception of the index bootstrap or of it is only logged.\<close>

definition startup ::
  "(string \<Rightarrow> string) \<Rightarrow> settings \<Rightarrow> 'e engine_ops \<Rightarrow> ('p \<Rightarrow> unit result \<times> 'p) option \<Rightarrow> bool \<Rightarrow> database \<times> 'e \<times> 'p
   \<Rightarrow> unit result \<times> database \<times> 'e \<times> 'p" where
  "startup hexdigest st E connect commit_ok dep =
     (case dep of (db, e, p) \<Rightarrow>
        (case create_schema db of
           Inl x \<Rightarrow> (Inl x, db, e, p)
         | Inr _ \<Rightarrow>
             (case seed_tenants hexdigest st commit_ok db of
                (Inl x, db1) \<Rightarrow> (Inl x, db1, e, p)
              | (Inr _, db1) \<Rightarrow>
                  (let e1 = snd (e_ensure_index E e);
                       p1 = (case connect of None \<Rightarrow> p | Some c \<Rightarrow> snd (c p))
                   in (Inr (), db1, e1, p1)))))"

text \<open>\<open>dispose\<close> is the closing of the connection pool, a call of the library.\<close>

definition shutdown ::
  "'e engine_ops \<Rightarrow> 'c cache_ops \<Rightarrow> 'p publisher_ops \<Rightarrow> (database \<Rightarrow> unit result \<times> database) \<Rightarrow> 'e \<times> 'c \<times> 'p \<times> database
   \<Rightarrow> unit result \<times> 'e \<times> 'c \<times> 'p \<times> database" where
  "shutdown E B P dispose dep =
     (case dep of (e, c, p, db) \<Rightarrow>
        (case e_close E e of
           (Inl x, e1) \<Rightarrow> (Inl x, e1, c, p, db)
         | (Inr _, e1) \<Rightarrow>
             (case cc_close B c of
                (Inl x, c1) \<Rightarrow> (Inl x, e1, c1, p, db)
              | (Inr _, c1) \<Rightarrow>
                  (case pub_close P p of
                     (Inl x, p1) \<Rightarrow> (Inl x, e1, c1, p1, db)
                   | (Inr _, p1) \<Rightarrow> (case dispose db of (r, db1) \<Rightarrow> (r, e1, c1, p1, db1))))))"

definition tenants_ok :: "tenant list \<Rightarrow> bool" where
  "tenants_ok ts \<longleftrightarrow> distinct (map tn_id ts) \<and> distinct (map tn_api_key_hash ts)"

text \<open>What seeding makes of a tenant: only its key hash changes.\<close>

definition has_key :: "(string \<Rightarrow> string) \<Rightarrow> tenant list \<Rightarrow> string \<Rightarrow> string \<Rightarrow> bool" where
  "has_key hexdigest ts i k \<longleftrightarrow> (\<exists>t \<in> set ts. tn_id t = i \<and> tn_api_key_hash t = hexdigest k)"

subsection \<open>Lemmas\<close>

lemma rekey_ids [simp]: "map tn_id (rekey i h ts) = map tn_id ts"
  by (simp add: rekey_def)

lemma rekey_set: "set (rekey i h ts) = (\<lambda>t. if tn_id t = i then t\<lparr>tn_api_key_hash := h\<rparr> else t) ` set ts"
  by (simp add: rekey_def)

lemma seed_one_ids:
  assumes "distinct (map tn_id ts)"
  shows "distinct (map tn_id (seed_one hx st p ts))"
proof -
  obtain i k where p: "p = (i, k)" by force
  show ?thesis
    using assms by (auto simp: p seed_one_def Let_def find_None_iff split: option.splits)
qed

lemma seed_one_key: "has_key hx (seed_one hx st (i, k) ts) i k"
proof (cases "find (\<lambda>t. tn_id t = i) ts")
  case None
  then show ?thesis by (simp add: has_key_def seed_one_def hash_api_key_def)
next
  case (Some t)
  then have t: "t \<in> set ts" "tn_id t = i" using find_Some_in by force+
  then have "t\<lparr>tn_api_key_hash := hx k\<rparr> \<in> set (rekey i (hx k) ts)" unfolding rekey_set by force
  moreover have "tn_id (t\<lparr>tn_api_key_hash := hx k\<rparr>) = i" "tn_api_key_hash (t\<lparr>tn_api_key_hash := hx k\<rparr>) = hx k"
    using t by simp_all
  ultimately have "has_key hx (rekey i (hx k) ts) i k" unfolding has_key_def by blast
  then show ?thesis using Some t by (auto simp: has_key_def seed_one_def hash_api_key_def Let_def)
qed

lemma seed_one_other:
  assumes "i \<noteq> j" "has_key hx ts j k'"
  shows "has_key hx (seed_one hx st (i, k) ts) j k'"
proof -
  obtain t where t: "t \<in> set ts" "tn_id t = j" "tn_api_key_hash t = hx k'" using assms(2) by (auto simp: has_key_def)
  then have "t \<in> set (rekey i (hx k) ts)" using assms(1) unfolding rekey_set by force
  with t show ?thesis by (auto simp: has_key_def seed_one_def hash_api_key_def Let_def split: option.splits)
qed

lemma seed_one_noop: "distinct (map tn_id ts) \<Longrightarrow> has_key hx ts i k \<Longrightarrow> seed_one hx st (i, k) ts = ts"
proof -
  assume d: "distinct (map tn_id ts)" and h: "has_key hx ts i k"
  obtain t where t: "t \<in> set ts" "tn_id t = i" "tn_api_key_hash t = hx k" using h by (auto simp: has_key_def)
  obtain r where r: "find (\<lambda>t. tn_id t = i) ts = Some r" using t by (cases "find (\<lambda>t. tn_id t = i) ts") (auto simp: find_None_iff)
  then have "r \<in> set ts" "tn_id r = i" using find_Some_in by force+
  then have "r = t" using d t by (metis distinct_map inj_onD)
  with r t show ?thesis by (simp add: seed_one_def hash_api_key_def)
qed

lemma seed_one_active:
  "\<forall>t \<in> set ts. tn_status t = ''active'' \<Longrightarrow> \<forall>t \<in> set (seed_one hx st p ts). tn_status t = ''active''"
  by (cases p) (auto simp: seed_one_def Let_def rekey_set split: option.splits)

lemma seed_loop_ok:
  assumes "seed_loop hx st ps ts = Inr ts'" "tenants_ok ts" "distinct (map fst ps)"
  shows "tenants_ok ts' \<and> (\<forall>(i, k) \<in> set ps. has_key hx ts' i k) \<and>
    (\<forall>j k. j \<notin> fst ` set ps \<longrightarrow> has_key hx ts j k \<longrightarrow> has_key hx ts' j k) \<and>
    ((\<forall>t \<in> set ts. tn_status t = ''active'') \<longrightarrow> (\<forall>t \<in> set ts'. tn_status t = ''active''))"
  using assms
proof (induction ps arbitrary: ts)
  case Nil
  then show ?case by simp
next
  case (Cons p ps)
  obtain i k where p: "p = (i, k)" by force
  let ?ts = "seed_one hx st p ts"
  have d: "distinct (map tn_api_key_hash ?ts)" and l: "seed_loop hx st ps ?ts = Inr ts'"
    using Cons.prems(1) by (auto simp: Let_def split: if_splits)
  have "tenants_ok ?ts" using d seed_one_ids [of ts hx st p] Cons.prems(2) by (simp add: tenants_ok_def)
  from Cons.IH [OF l this] Cons.prems(3)
  have IH: "tenants_ok ts'" "\<forall>(i, k) \<in> set ps. has_key hx ts' i k"
    "\<forall>j k. j \<notin> fst ` set ps \<longrightarrow> has_key hx ?ts j k \<longrightarrow> has_key hx ts' j k"
    "(\<forall>t \<in> set ?ts. tn_status t = ''active'') \<longrightarrow> (\<forall>t \<in> set ts'. tn_status t = ''active'')" by auto
  have "i \<notin> fst ` set ps" using Cons.prems(3) p by simp
  then have "has_key hx ts' i k" using IH(3) seed_one_key [of hx st i k ts] p by blast
  moreover have "has_key hx ts' j k'" if "j \<notin> fst ` set (p # ps)" "has_key hx ts j k'" for j k'
    using IH(3) seed_one_other [of i j hx ts k' st k] that p by auto
  moreover have "(\<forall>t \<in> set ts. tn_status t = ''active'') \<longrightarrow> (\<forall>t \<in> set ts'. tn_status t = ''active'')"
    using IH(4) seed_one_active [of ts hx st p] by blast
  ultimately show ?case using IH(1,2) p by (metis (no_types, lifting) case_prodI set_ConsD)
qed

lemma seed_loop_noop:
  "tenants_ok ts \<Longrightarrow> \<forall>(i, k) \<in> set ps. has_key hx ts i k \<Longrightarrow> seed_loop hx st ps ts = Inr ts"
proof (induction ps)
  case (Cons p ps)
  obtain i k where p: "p = (i, k)" by force
  have "seed_one hx st p ts = ts" using Cons.prems seed_one_noop [of ts hx i k st] by (simp add: p tenants_ok_def)
  with Cons show ?case by (simp add: tenants_ok_def)
qed simp

lemma find_unique_hash:
  assumes "distinct (map tn_api_key_hash ts)" "t \<in> set ts" "tn_status t = ''active''"
  shows "find (\<lambda>x. tn_api_key_hash x = tn_api_key_hash t \<and> tn_status x = ''active'') ts = Some t"
proof -
  let ?P = "\<lambda>x. tn_api_key_hash x = tn_api_key_hash t \<and> tn_status x = ''active''"
  obtain r where r: "find ?P ts = Some r" using assms by (cases "find ?P ts") (auto simp: find_None_iff)
  then have "r \<in> set ts" "?P r" using find_Some_in by force+
  with assms have "r = t" by (metis distinct_map inj_onD)
  with r show ?thesis by simp
qed

subsection \<open>Properties\<close>



end
