(* ===== verification/OpenSearch_Engine.thy ===== *)
theory OpenSearch_Engine
  imports Processor "HOL-Library.Multiset"
begin

text \<open>
  \<open>clients/opensearch_engine.py\<close>: the index definition, the request bodies, the bulk and search calls under retry
  and circuit breaker, and the reading of the replies.  The cluster client is a parameter, a record of calls on
  the state of the cluster; a reply is the dictionary the client returns.  A reply whose values have other JSON
  types than the documented ones raises \<open>TypeErr\<close>.  Clock readings and random numbers are arguments.
\<close>

definition SOURCE_FIELDS :: "string list" where
  "SOURCE_FIELDS = [''document_id'', ''title'', ''content_type'', ''tags'', ''metadata'', ''created_at'', ''updated_at'']"

definition keyword_type :: json where "keyword_type = JObj [(''type'', JStr ''keyword'')]"

definition index_settings :: "int \<Rightarrow> int \<Rightarrow> (string \<times> json) list" where
  "index_settings shards replicas =
     [(''settings'', JObj
        [(''index'', JObj
           [(''number_of_shards'', JInt shards), (''number_of_replicas'', JInt replicas),
            (''refresh_interval'', JStr ''1s''), (''max_result_window'', JInt 10000)]),
         (''analysis'', JObj
           [(''filter'', JObj
              [(''english_stop'', JObj [(''type'', JStr ''stop''), (''stopwords'', JStr ''_english_'')]),
               (''english_stemmer'', JObj [(''type'', JStr ''stemmer''), (''language'', JStr ''english'')])]),
            (''analyzer'', JObj
              [(''doc_analyzer'', JObj
                 [(''type'', JStr ''custom''), (''tokenizer'', JStr ''standard''),
                  (''filter'', JArr [JStr ''lowercase'', JStr ''asciifolding'', JStr ''english_stop'',
                                     JStr ''english_stemmer''])])])])]),
      (''mappings'', JObj
        [(''dynamic'', JStr ''strict''),
         (''properties'', JObj
           [(''document_id'', keyword_type),
            (''tenant_id'', keyword_type),
            (''title'', JObj
               [(''type'', JStr ''text''), (''analyzer'', JStr ''doc_analyzer''),
                (''fields'', JObj [(''raw'', JObj [(''type'', JStr ''keyword''), (''ignore_above'', JInt 256)])])]),
            (''content'', JObj [(''type'', JStr ''text''), (''analyzer'', JStr ''doc_analyzer'')]),
            (''content_type'', keyword_type),
            (''tags'', keyword_type),
            (''metadata'', JObj [(''type'', JStr ''object''), (''dynamic'', JBool True)]),
            (''version'', JObj [(''type'', JStr ''long'')]),
            (''created_at'', JObj [(''type'', JStr ''date'')]),
            (''updated_at'', JObj [(''type'', JStr ''date'')])]),
         (''dynamic_templates'', JArr
           [JObj [(''metadata_strings'', JObj
              [(''path_match'', JStr ''metadata.*''), (''match_mapping_type'', JStr ''string''),
               (''mapping'', JObj [(''type'', JStr ''keyword''), (''ignore_above'', JInt 1024)])])]])])]"

record 'k os_client =
  os_exists :: "string \<Rightarrow> 'k \<Rightarrow> bool result \<times> 'k"
  os_create :: "string \<Rightarrow> (string \<times> json) list \<Rightarrow> 'k \<Rightarrow> unit result \<times> 'k"
  os_exists_alias :: "string \<Rightarrow> 'k \<Rightarrow> bool result \<times> 'k"
  os_put_alias :: "string \<Rightarrow> string \<Rightarrow> 'k \<Rightarrow> unit result \<times> 'k"
  os_bulk_call :: "(string \<times> json) list list \<Rightarrow> 'k \<Rightarrow> (string \<times> json) list result \<times> 'k"
  os_search_call :: "string \<Rightarrow> (string \<times> json) list \<Rightarrow> string \<Rightarrow> string \<Rightarrow> 'k \<Rightarrow> (string \<times> json) list result \<times> 'k"
  os_ping_call :: "'k \<Rightarrow> bool result \<times> 'k"
  os_close_call :: "'k \<Rightarrow> unit result \<times> 'k"

record 'k opensearch_engine =
  oe_settings :: settings
  oe_breaker :: breaker
  oe_cluster :: 'k

definition new_opensearch_engine :: "settings \<Rightarrow> 'k \<Rightarrow> 'k opensearch_engine" where
  "new_opensearch_engine st k =
     \<lparr>oe_settings = st,
      oe_breaker = new_breaker ''opensearch'' (circuit_failure_threshold st) (circuit_recovery_seconds st),
      oe_cluster = k\<rparr>"

definition os_ensure_index :: "'k os_client \<Rightarrow> 'k opensearch_engine \<Rightarrow> unit result \<times> 'k opensearch_engine" where
  "os_ensure_index K e =
     (let st = oe_settings e; physical = opensearch_index st @ ''-v1'';
          alias = (\<lambda>k. case os_exists_alias K (opensearch_index st) k of
                         (Inl x, k1) \<Rightarrow> (Inl x, e\<lparr>oe_cluster := k1\<rparr>)
                       | (Inr True, k1) \<Rightarrow> (Inr (), e\<lparr>oe_cluster := k1\<rparr>)
                       | (Inr False, k1) \<Rightarrow>
                           (case os_put_alias K physical (opensearch_index st) k1 of
                              (r, k2) \<Rightarrow> (r, e\<lparr>oe_cluster := k2\<rparr>)))
      in case os_exists K physical (oe_cluster e) of
           (Inl x, k) \<Rightarrow> (Inl x, e\<lparr>oe_cluster := k\<rparr>)
         | (Inr True, k) \<Rightarrow> alias k
         | (Inr False, k) \<Rightarrow>
             (case os_create K physical (index_settings (opensearch_shards st) (opensearch_replicas st)) k of
                (Inl x, k1) \<Rightarrow> (Inl x, e\<lparr>oe_cluster := k1\<rparr>)
              | (Inr _, k1) \<Rightarrow> alias k1))"

subsection \<open>Bulk\<close>

definition op_meta :: "string \<Rightarrow> engine_op \<Rightarrow> json" where
  "op_meta index op =
     JObj [(''_index'', JStr index), (''_id'', JStr (op_document_id op)), (''routing'', JStr (op_tenant_id op)),
           (''version'', JInt (op_version op)), (''version_type'', JStr ''external'')]"

fun bulk_lines :: "string \<Rightarrow> engine_op \<Rightarrow> (string \<times> json) list list" where
  "bulk_lines index (IndexOperation d t v s) =
     [[(''index'', op_meta index (IndexOperation d t v s))], source_json s]"
| "bulk_lines index (DeleteOperation d t v) = [[(''delete'', op_meta index (DeleteOperation d t v))]]"

definition bulk_body :: "string \<Rightarrow> engine_op list \<Rightarrow> (string \<times> json) list list" where
  "bulk_body index operations = concat (map (bulk_lines index) operations)"

definition int_field :: "json \<Rightarrow> int result" where
  "int_field j = (case j of JInt n \<Rightarrow> Inr n | _ \<Rightarrow> Inl TypeErr)"

definition item_accepted :: "string \<Rightarrow> int \<Rightarrow> bool" where
  "item_accepted action status \<longleftrightarrow> status < 300 \<or> status = 409 \<or> (action = ''delete'' \<and> status = 404)"

definition bulk_item :: "json \<Rightarrow> (string \<times> bool) result" where
  "bulk_item item =
     (case item of
        JObj ((action, JObj payload) # _) \<Rightarrow>
          rbind (text_field (get_or payload ''_id'' (JStr []))) (\<lambda>doc_id.
          rbind (int_field (get_or payload ''status'' (JInt 500))) (\<lambda>status.
            Inr (doc_id, item_accepted action status)))
      | _ \<Rightarrow> Inl TypeErr)"

fun bulk_items :: "json list \<Rightarrow> bulk_result result" where
  "bulk_items [] = Inr \<lparr>br_succeeded = [], br_failed = []\<rparr>"
| "bulk_items (item # items) =
     rbind (bulk_item item) (\<lambda>(doc_id, ok). rbind (bulk_items items) (\<lambda>r.
       Inr (if ok then r\<lparr>br_succeeded := doc_id # br_succeeded r\<rparr> else r\<lparr>br_failed := doc_id # br_failed r\<rparr>)))"

definition bulk_reply :: "(string \<times> json) list \<Rightarrow> bulk_result result" where
  "bulk_reply response =
     (case get_or response ''items'' (JArr []) of JArr items \<Rightarrow> bulk_items items | _ \<Rightarrow> Inl TypeErr)"

definition os_bulk ::
  "'k os_client \<Rightarrow> (nat \<Rightarrow> real) \<Rightarrow> engine_op list \<Rightarrow> 'k opensearch_engine \<Rightarrow> bulk_result result \<times> 'k opensearch_engine" where
  "os_bulk K rnd operations e =
     (if operations = [] then (Inr \<lparr>br_succeeded = [], br_failed = []\<rparr>, e)
      else
        (case with_retry 3 (\<lambda>_. True) (1/20) (1/2) rnd
                (os_bulk_call K (bulk_body (opensearch_index (oe_settings e)) operations)) (oe_cluster e) of
           (Inl x, k, sleeps) \<Rightarrow> (Inl x, e\<lparr>oe_cluster := k\<rparr>)
         | (Inr response, k, sleeps) \<Rightarrow> (bulk_reply response, e\<lparr>oe_cluster := k\<rparr>)))"

subsection \<open>Search\<close>

definition build_body :: "settings \<Rightarrow> search_query \<Rightarrow> (string \<times> json) list" where
  "build_body st query =
     (let multi = [(''query'', JStr (sq_text query)), (''fields'', JArr [JStr ''title^3'', JStr ''content'']),
                   (''type'', JStr ''best_fields''), (''operator'', JStr ''and'')];
          multi1 = (if sq_fuzzy query
                    then AList.update ''minimum_should_match'' (JStr ''2<70%'')
                           (AList.update ''operator'' (JStr ''or'') (AList.update ''fuzziness'' (JStr ''AUTO'') multi))
                    else multi);
          body = [(''from'', JInt (sq_offset query)), (''size'', JInt (sq_size query)),
                  (''track_total_hits'', JInt (search_track_total_hits st)),
                  (''_source'', JObj [(''includes'', JArr (map JStr SOURCE_FIELDS))]),
                  (''query'', JObj [(''bool'', JObj
                     [(''must'', JArr [JObj [(''multi_match'', JObj multi1)]]),
                      (''filter'', JArr [JObj [(''term'', JObj [(''tenant_id'', JStr (sq_tenant_id query))])]])])])];
          body1 = (if sq_highlight query
                   then AList.update ''highlight'' (JObj
                          [(''pre_tags'', JArr [JStr ''<em>'']), (''post_tags'', JArr [JStr ''</em>'']),
                           (''fields'', JObj
                              [(''content'', JObj [(''fragment_size'', JInt 160), (''number_of_fragments'', JInt 1)]),
                               (''title'', JObj [(''number_of_fragments'', JInt 0)])])]) body
                   else body)
      in if sq_facets query
         then AList.update ''aggs'' (JObj
                [(''content_type'', JObj [(''terms'', JObj [(''field'', JStr ''content_type''), (''size'', JInt 10)])]),
                 (''tags'', JObj [(''terms'', JObj [(''field'', JStr ''tags''), (''size'', JInt 10)])])]) body1
         else body1)"

fun falsy :: "json \<Rightarrow> bool" where
  "falsy JNull = True"
| "falsy (JBool b) = (\<not> b)"
| "falsy (JInt n) = (n = 0)"
| "falsy (JFloat x) = (x = 0)"
| "falsy (JStr s) = (s = [])"
| "falsy (JArr xs) = (xs = [])"
| "falsy (JObj kvs) = (kvs = [])"

definition dict_field :: "json \<Rightarrow> (string \<times> json) list result" where
  "dict_field j = (case j of JObj kvs \<Rightarrow> Inr kvs | _ \<Rightarrow> Inl TypeErr)"

definition optional_field :: "(json \<Rightarrow> 'a result) \<Rightarrow> (string \<times> json) list \<Rightarrow> string \<Rightarrow> 'a option result" where
  "optional_field f kvs k =
     (case map_of kvs k of None \<Rightarrow> Inr None | Some JNull \<Rightarrow> Inr None | Some j \<Rightarrow> rbind (f j) (\<lambda>x. Inr (Some x)))"

definition or_else :: "(json \<Rightarrow> 'a result) \<Rightarrow> 'a \<Rightarrow> json \<Rightarrow> 'a result" where
  "or_else f dflt j = (if falsy j then Inr dflt else f j)"

definition texts_field :: "json \<Rightarrow> string list result" where
  "texts_field j = (case j of JArr xs \<Rightarrow> (case text_items xs of Some ts \<Rightarrow> Inr ts | None \<Rightarrow> Inl TypeErr) | _ \<Rightarrow> Inl TypeErr)"

definition float_field :: "json \<Rightarrow> real result" where
  "float_field j = (case j of JFloat x \<Rightarrow> Inr x | JInt n \<Rightarrow> Inr (of_int n) | _ \<Rightarrow> Inl TypeErr)"

definition first_text :: "json \<Rightarrow> string result" where
  "first_text j = (case j of JArr (JStr s # _) \<Rightarrow> Inr s | _ \<Rightarrow> Inl TypeErr)"

definition dt_field :: "json \<Rightarrow> datetime option result" where
  "dt_field j = or_else (\<lambda>j. rbind (text_field j) (\<lambda>s. Inr (dt_of_text s))) None j"

definition snippet_of :: "(string \<times> json) list \<Rightarrow> string option result" where
  "snippet_of highlight =
     (if \<not> falsy (get_or highlight ''content'' JNull)
      then rbind (first_text (get_or highlight ''content'' JNull)) (\<lambda>s. Inr (Some s))
      else if \<not> falsy (get_or highlight ''title'' JNull)
      then rbind (first_text (get_or highlight ''title'' JNull)) (\<lambda>s. Inr (Some s))
      else Inr None)"

definition os_to_hit :: "json \<Rightarrow> engine_hit result" where
  "os_to_hit raw_json =
     rbind (dict_field raw_json) (\<lambda>raw.
     rbind (dict_field (get_or raw ''_source'' (JObj []))) (\<lambda>source.
     rbind (dict_field (get_or raw ''highlight'' (JObj []))) (\<lambda>highlight.
     rbind (snippet_of highlight) (\<lambda>snippet.
     rbind (text_field (get_or source ''document_id'' (get_or raw ''_id'' (JStr [])))) (\<lambda>document_id.
     rbind (or_else float_field 0 (get_or raw ''_score'' JNull)) (\<lambda>score.
     rbind (text_field (get_or source ''title'' (JStr []))) (\<lambda>title.
     rbind (optional_field text_field source ''content_type'') (\<lambda>content_type.
     rbind (or_else texts_field [] (get_or source ''tags'' JNull)) (\<lambda>tags.
     rbind (or_else dict_field [] (get_or source ''metadata'' JNull)) (\<lambda>metadata.
     rbind (dt_field (get_or source ''created_at'' JNull)) (\<lambda>created_at.
     rbind (dt_field (get_or source ''updated_at'' JNull)) (\<lambda>updated_at.
       Inr \<lparr>eh_document_id = document_id, eh_score = score, eh_title = title, eh_snippet = snippet,
            eh_content_type = content_type, eh_tags = tags, eh_metadata = metadata,
            eh_created_at = created_at, eh_updated_at = updated_at\<rparr>))))))))))))"

fun rmap :: "('a \<Rightarrow> 'b result) \<Rightarrow> 'a list \<Rightarrow> 'b list result" where
  "rmap f [] = Inr []"
| "rmap f (x # xs) = rbind (f x) (\<lambda>y. rbind (rmap f xs) (\<lambda>ys. Inr (y # ys)))"

definition items_field :: "json \<Rightarrow> json list result" where
  "items_field j = (case j of JArr xs \<Rightarrow> Inr xs | _ \<Rightarrow> Inl TypeErr)"

definition bucket_pair :: "json \<Rightarrow> (string \<times> int) result" where
  "bucket_pair j =
     rbind (dict_field j) (\<lambda>b. rbind (rbind (required b ''key'') text_field) (\<lambda>k.
     rbind (rbind (required b ''doc_count'') int_field) (\<lambda>n. Inr (k, n))))"

definition facet_of :: "string \<times> json \<Rightarrow> (string \<times> (string \<times> int) list) result" where
  "facet_of na =
     rbind (dict_field (snd na)) (\<lambda>agg. rbind (items_field (get_or agg ''buckets'' (JArr []))) (\<lambda>bs.
     rbind (rmap bucket_pair bs) (\<lambda>ps. Inr (fst na, ps))))"

definition search_reply :: "(string \<times> json) list \<Rightarrow> engine_result result" where
  "search_reply response =
     rbind (rbind (required response ''hits'') dict_field) (\<lambda>outer.
     rbind (rbind (required outer ''total'') dict_field) (\<lambda>total_block.
     rbind (rbind (required outer ''hits'') items_field) (\<lambda>raws.
     rbind (rmap os_to_hit raws) (\<lambda>hits.
     rbind (or_else dict_field [] (get_or response ''aggregations'' JNull)) (\<lambda>aggs.
     rbind (rmap facet_of aggs) (\<lambda>facets.
     rbind (rbind (required total_block ''value'') int_field) (\<lambda>total.
     rbind (int_field (get_or response ''took'' (JInt 0))) (\<lambda>took.
       Inr \<lparr>er_hits = hits, er_total = total,
            er_total_is_lower_bound = (map_of total_block ''relation'' = Some (JStr ''gte'')),
            er_took_ms = took, er_facets = facets\<rparr>))))))))"

definition os_search ::
  "'k os_client \<Rightarrow> real \<Rightarrow> real \<Rightarrow> (nat \<Rightarrow> real) \<Rightarrow> search_query \<Rightarrow> 'k opensearch_engine
   \<Rightarrow> engine_result result \<times> 'k opensearch_engine" where
  "os_search K now later rnd query e =
     (let body = build_body (oe_settings e) query;
          run = os_search_call K (opensearch_index (oe_settings e)) body (sq_tenant_id query) (sq_tenant_id query);
          attempt = (\<lambda>k. case with_retry 2 (\<lambda>_. True) (1/20) (1/2) rnd run k of (r, k1, sleeps) \<Rightarrow> (r, k1))
      in case cb_call now later attempt (oe_breaker e) (oe_cluster e) of
           (Inl x, b, k) \<Rightarrow> (Inl x, e\<lparr>oe_breaker := b, oe_cluster := k\<rparr>)
         | (Inr response, b, k) \<Rightarrow> (search_reply response, e\<lparr>oe_breaker := b, oe_cluster := k\<rparr>))"

definition os_ping :: "'k os_client \<Rightarrow> 'k opensearch_engine \<Rightarrow> bool result \<times> 'k opensearch_engine" where
  "os_ping K e =
     (case os_ping_call K (oe_cluster e) of
        (Inl x, k) \<Rightarrow> (Inr False, e\<lparr>oe_cluster := k\<rparr>)
      | (Inr b, k) \<Rightarrow> (Inr b, e\<lparr>oe_cluster := k\<rparr>))"

definition os_close :: "'k os_client \<Rightarrow> 'k opensearch_engine \<Rightarrow> unit result \<times> 'k opensearch_engine" where
  "os_close K e = (case os_close_call K (oe_cluster e) of (r, k) \<Rightarrow> (r, e\<lparr>oe_cluster := k\<rparr>))"

definition opensearch_ops :: "'k os_client \<Rightarrow> real \<Rightarrow> real \<Rightarrow> (nat \<Rightarrow> real) \<Rightarrow> 'k opensearch_engine engine_ops" where
  "opensearch_ops K now later rnd =
     \<lparr>e_bulk = os_bulk K rnd, e_search = os_search K now later rnd, e_ensure_index = os_ensure_index K,
      e_ping = os_ping K, e_close = os_close K\<rparr>"

text \<open>Reading a nested dictionary, and the statuses of the items of a bulk reply.\<close>

fun path :: "string list \<Rightarrow> json \<Rightarrow> json option" where
  "path [] j = Some j"
| "path (k # ks) (JObj kvs) = (case map_of kvs k of Some j \<Rightarrow> path ks j | None \<Rightarrow> None)"
| "path (k # ks) j = None"

definition reply_item :: "string \<times> string \<times> int \<Rightarrow> json" where
  "reply_item ais = (case ais of (action, i, status) \<Rightarrow>
     JObj [(action, JObj [(''_id'', JStr i), (''status'', JInt status)])])"

text \<open>
  A client that records each search call it gets and answers from \<open>reply\<close>; what the cluster returns for a
  stored source restricted to the requested fields; and the fields the strict mapping declares.
\<close>

definition recording_client ::
  "((string \<times> json) list \<Rightarrow> (string \<times> json) list result)
   \<Rightarrow> (string \<times> (string \<times> json) list \<times> string \<times> string) list os_client" where
  "recording_client reply =
     \<lparr>os_exists = (\<lambda>i k. (Inr True, k)), os_create = (\<lambda>i b k. (Inr (), k)), os_exists_alias = (\<lambda>i k. (Inr True, k)),
      os_put_alias = (\<lambda>i a k. (Inr (), k)),
      os_bulk_call = (\<lambda>b k. (Inr [(''items'', JArr [])], k)),
      os_search_call = (\<lambda>i b r p k. (reply b, k @ [(i, b, r, p)])),
      os_ping_call = (\<lambda>k. (Inr True, k)), os_close_call = (\<lambda>k. (Inr (), k))\<rparr>"

definition reply_hit :: "real \<Rightarrow> search_source \<Rightarrow> json" where
  "reply_hit score s =
     JObj [(''_id'', JStr (src_document_id s)), (''_score'', JFloat score),
           (''_source'', JObj (filter (\<lambda>kv. fst kv \<in> set SOURCE_FIELDS) (source_json s)))]"

definition mapped_fields :: "int \<Rightarrow> int \<Rightarrow> string set" where
  "mapped_fields shards replicas =
     (case path [''mappings'', ''properties''] (JObj (index_settings shards replicas)) of
        Some (JObj ps) \<Rightarrow> set (map fst ps) | _ \<Rightarrow> {})"

subsection \<open>Lemmas\<close>

lemma text_items_JStr: "text_items (map JStr xs) = Some xs"
  by (induction xs) auto

lemma dt_field_isoformat: "valid_datetime d \<Longrightarrow> dt_field (JStr (isoformat d)) = Inr (Some d)"
  using dt_of_text_isoformat [of d] by (cases "isoformat d = []") (auto simp: dt_field_def or_else_def rbind_def isoformat_def)

lemma retry_records:
  fixes log :: "(string \<times> (string \<times> json) list \<times> string \<times> string) list"
  shows "\<exists>n. n \<le> m \<and> fst (snd (retry_loop ro base mx rnd (os_search_call (recording_client reply) i b r p) m att le log)) =
    log @ replicate n (i, b, r, p)"
proof (induction m arbitrary: att le log)
  case (Suc m)
  let ?fn = "os_search_call (recording_client reply) i b r p"
  have fn: "?fn log = (reply b, log @ [(i, b, r, p)])" by (simp add: recording_client_def)
  show ?case
  proof (cases "\<exists>e. reply b = Inl e \<and> ro e \<and> m \<noteq> 0")
    case True
    then obtain e where e: "reply b = Inl e" "ro e" "m \<noteq> 0" by blast
    obtain n where "n \<le> m" "fst (snd (retry_loop ro base mx rnd ?fn m (att + 1) (Some e) (log @ [(i, b, r, p)]))) =
        (log @ [(i, b, r, p)]) @ replicate n (i, b, r, p)" using Suc.IH by blast
    then show ?thesis using fn e by (intro exI [of _ "Suc n"]) (auto split: prod.splits)
  next
    case False
    then show ?thesis using fn by (intro exI [of _ 1]) (auto split: sum.splits)
  qed
qed (intro exI [of _ 0], auto)

lemma bulk_items_reply:
  "bulk_items (map reply_item xs) =
     Inr \<lparr>br_succeeded = map (fst \<circ> snd) (filter (\<lambda>(a, i, s). item_accepted a s) xs),
          br_failed = map (fst \<circ> snd) (filter (\<lambda>(a, i, s). \<not> item_accepted a s) xs)\<rparr>"
  by (induction xs) (auto simp: reply_item_def bulk_item_def rbind_def get_or_def int_field_def split: prod.splits)

subsection \<open>Properties\<close>

text \<open>
  C34: Every search request that leaves the adapter is scoped to the tenant of the query: its body filters on that
  tenant whatever the options, asks for the page of the query only, and the call is routed and
  pinned to the tenant.  One search makes at most two calls, all of them this one.
\<close>

theorem os_search_scoped:
  "(\<exists>n \<le> 2. oe_cluster (snd (os_search (recording_client reply) now later rnd q e)) =
     oe_cluster e @ replicate n (opensearch_index (oe_settings e), build_body (oe_settings e) q, sq_tenant_id q, sq_tenant_id q)) \<and>
   path [''query'', ''bool'', ''filter''] (JObj (build_body st q)) =
     Some (JArr [JObj [(''term'', JObj [(''tenant_id'', JStr (sq_tenant_id q))])]]) \<and>
   path [''from''] (JObj (build_body st q)) = Some (JInt (sq_offset q)) \<and>
   path [''size''] (JObj (build_body st q)) = Some (JInt (sq_size q))"
proof (intro conjI)
  let ?fn = "os_search_call (recording_client reply) (opensearch_index (oe_settings e)) (build_body (oe_settings e) q)
    (sq_tenant_id q) (sq_tenant_id q)"
  obtain n where n: "n \<le> nat 2" "fst (snd (retry_loop (\<lambda>_. True) (1/20) (1/2) rnd ?fn (nat 2) 1 None (oe_cluster e))) =
      oe_cluster e @ replicate n (opensearch_index (oe_settings e), build_body (oe_settings e) q, sq_tenant_id q, sq_tenant_id q)"
    using retry_records by blast
  show "\<exists>n \<le> 2. oe_cluster (snd (os_search (recording_client reply) now later rnd q e)) =
     oe_cluster e @ replicate n (opensearch_index (oe_settings e), build_body (oe_settings e) q, sq_tenant_id q, sq_tenant_id q)"
  proof (cases "before_call now (oe_breaker e)")
    case (Pair x b)
    show ?thesis
    proof (cases x)
      case (Inl y)
      then show ?thesis using Pair by (intro exI [of _ 0]) (simp add: os_search_def cb_call_def Let_def)
    next
      case (Inr y)
      then show ?thesis
        using Pair n by (intro exI [of _ n]) (auto simp: os_search_def cb_call_def with_retry_def Let_def split: prod.splits sum.splits)
    qed
  qed
qed (simp_all add: build_body_def Let_def)

text \<open>
  The answer to a bulk request is the per-item verdict of the cluster: an item counts as written if its status is below
  300, if the cluster already has a newer or equal version (409), or if the document to delete is not there (404);
  every other item is reported as failed, and every item is reported once.
\<close>

theorem os_bulk_verdicts:
  assumes "os_bulk_call K (bulk_body (opensearch_index (oe_settings e)) ops) (oe_cluster e) = (Inr [(''items'', JArr (map reply_item xs))], k)"
    "ops \<noteq> []"
  shows "\<exists>r. os_bulk K rnd ops e = (Inr r, e\<lparr>oe_cluster := k\<rparr>) \<and>
    br_succeeded r = map (\<lambda>(a, i, st). i) (filter (\<lambda>(a, i, st). st < 300 \<or> st = 409 \<or> a = ''delete'' \<and> st = 404) xs) \<and>
    mset (br_succeeded r @ br_failed r) = mset (map (\<lambda>(a, i, st). i) xs)"
proof -
  let ?r = "\<lparr>br_succeeded = map (fst \<circ> snd) (filter (\<lambda>(a, i, s). item_accepted a s) xs),
             br_failed = map (fst \<circ> snd) (filter (\<lambda>(a, i, s). \<not> item_accepted a s) xs)\<rparr>"
  have "os_bulk K rnd ops e = (Inr ?r, e\<lparr>oe_cluster := k\<rparr>)"
    using assms by (simp add: os_bulk_def with_retry_def numeral_3_eq_3 bulk_reply_def get_or_def bulk_items_reply)
  moreover have "mset (br_succeeded ?r @ br_failed ?r) = mset (map (\<lambda>(a, i, st). i) xs)"
    by (induction xs) (auto split: prod.splits)
  moreover have "br_succeeded ?r = map (\<lambda>(a, i, st). i) (filter (\<lambda>(a, i, st). st < 300 \<or> st = 409 \<or> a = ''delete'' \<and> st = 404) xs)"
    by (simp add: item_accepted_def comp_def split_def)
  ultimately show ?thesis by blast
qed

theorem os_bulk_verdicts_witness:
  "\<exists>r. os_bulk ((recording_client Inr)\<lparr>os_bulk_call := \<lambda>b k. (Inr [(''items'', JArr (map reply_item
        [(''index'', ''a'', 201), (''index'', ''b'', 409), (''delete'', ''c'', 404), (''index'', ''d'', 429)]))], k)\<rparr>) (\<lambda>_. 0)
       [DeleteOperation ''c'' ''acme'' 2] (new_opensearch_engine default_settings []) = (Inr r, new_opensearch_engine default_settings []) \<and>
     br_succeeded r = [''a'', ''b'', ''c'']"
proof -
  let ?xs = "[(''index'', ''a'', 201), (''index'', ''b'', 409), (''delete'', ''c'', 404), (''index'', ''d'', 429)]"
  let ?K = "(recording_client Inr)\<lparr>os_bulk_call := \<lambda>b k. (Inr [(''items'', JArr (map reply_item ?xs))], k)\<rparr>"
  have k: "os_bulk_call ?K b k = (Inr [(''items'', JArr (map reply_item ?xs))], k)" for b k by simp
  have "(new_opensearch_engine default_settings [])\<lparr>oe_cluster := []\<rparr> = new_opensearch_engine default_settings []"
    "oe_cluster (new_opensearch_engine default_settings []) = []" by (simp_all add: new_opensearch_engine_def)
  then show ?thesis
    using os_bulk_verdicts [OF k, where e = "new_opensearch_engine default_settings []"
        and ops = "[DeleteOperation ''c'' ''acme'' 2]" and rnd = "\<lambda>_. 0"] by auto
qed

text \<open>
  The strict mapping of the index declares every field of every source the indexer sends, and every field a search asks for, so
  no document is refused for an unknown field.
\<close>

theorem strict_mapping_covers:
  "fst ` set (source_json s) = mapped_fields shards replicas \<and> set SOURCE_FIELDS \<subseteq> mapped_fields shards replicas \<and>
   path [''mappings'', ''dynamic''] (JObj (index_settings shards replicas)) = Some (JStr ''strict'')"
  by (auto simp: source_json_def mapped_fields_def index_settings_def SOURCE_FIELDS_def)

text \<open>
  C35: What the indexer writes for a row comes back as the hit of that row: identifier, title, content type, tags, metadata
  and both time stamps (in UTC) are the row's.
\<close>

theorem os_hit_round_trip:
  assumes "valid_datetime (doc_created_at d)" "valid_datetime (doc_updated_at d)"
  shows "os_to_hit (reply_hit score (to_search_source d)) =
    Inr \<lparr>eh_document_id = str_uuid (doc_id d), eh_score = score, eh_title = doc_title d, eh_snippet = None,
         eh_content_type = Some (doc_content_type d), eh_tags = doc_tags d, eh_metadata = doc_metadata d,
         eh_created_at = Some (as_utc (doc_created_at d)), eh_updated_at = Some (as_utc (doc_updated_at d))\<rparr>"
proof -
  have "or_else float_field 0 (JFloat score) = Inr score" by (simp add: or_else_def float_field_def)
  moreover have "or_else texts_field [] (JArr (map JStr ts)) = Inr ts" for ts
    by (simp add: or_else_def texts_field_def text_items_JStr)
  moreover have "or_else dict_field [] (JObj m) = Inr m" for m by (simp add: or_else_def dict_field_def)
  ultimately show ?thesis
    using assms
    by (simp add: os_to_hit_def reply_hit_def to_search_source_def source_json_def SOURCE_FIELDS_def get_or_def rbind_def
        dict_field_def snippet_of_def optional_field_def dt_field_isoformat)
qed

theorem os_hit_round_trip_witness:
  "map_sum id eh_title (os_to_hit (reply_hit 1 (to_search_source sample_row))) = Inr ''Plan''"
  using os_hit_round_trip [of sample_row 1]
  by (simp add: sample_row_def new_document_def sample_time_def valid_datetime_def days_in_month_def)

text \<open>
  While the circuit of the cluster is open and not yet due for a probe, a search makes no call: it raises the
  dependency error, which the search service passes on (a 503), and nothing changes.
\<close>

theorem os_open_circuit:
  assumes "cb_state (oe_breaker e) = OPEN" "now - cb_opened_at (oe_breaker e) < recovery_seconds (oe_breaker e)"
  shows "execute (opensearch_ops K now later rnd) t q e =
    (Inl (AppErr (DependencyUnavailableError (cb_name (oe_breaker e)))), e)"
  using assms
  by (simp add: execute_def opensearch_ops_def os_search_def Let_def cb_call_def before_call_def)

theorem os_open_circuit_witness:
  "execute (opensearch_ops (recording_client (\<lambda>b. Inl KeyErr)) 3 4 (\<lambda>_. 0)) ''acme'' sample_query
     ((new_opensearch_engine default_settings [])\<lparr>oe_breaker := (new_breaker ''opensearch'' 5 10)\<lparr>cb_state := OPEN\<rparr>\<rparr>) =
   (Inl (AppErr (DependencyUnavailableError ''opensearch'')),
    (new_opensearch_engine default_settings [])\<lparr>oe_breaker := (new_breaker ''opensearch'' 5 10)\<lparr>cb_state := OPEN\<rparr>\<rparr>)"
  using os_open_circuit [of "(new_opensearch_engine default_settings [])\<lparr>oe_breaker := (new_breaker ''opensearch'' 5 10)\<lparr>cb_state := OPEN\<rparr>\<rparr>" 3
      "recording_client (\<lambda>b. Inl KeyErr)" 4 "\<lambda>_. 0" "''acme''" sample_query]
  by (simp add: new_breaker_def)

end
