(* ===== verification/Single_Flight.thy ===== *)
theory Single_Flight
  imports Search_Service
begin

text \<open>
  \<open>SearchService._single_flight\<close> under concurrency.  The event loop switches between requests at each
  \<open>await\<close>; the shared state is the table \<open>_inflight\<close> and the futures in it.  A request that misses the cache either
  becomes the leader of its key (it creates the future and awaits the engine) or awaits the future of the
  current leader.  A leader ends by resolving its future with what \<open>_execute\<close> gave (a
  response or an exception) and leaving the table; a task may also be cancelled while it waits.  Cancellation raises
  \<open>CancelledError\<close>, which is not an \<open>Exception\<close>: the \<open>finally\<close> clause runs and the future stays
  unresolved.  The flag of the step relation says whether leaders may be cancelled.
\<close>

datatype 'r task = Idle | Leading string nat | Waiting string nat | Finished 'r | Cancelled

record 'r flights =
  sf_inflight :: "string \<rightharpoonup> nat"
  sf_future :: "nat \<Rightarrow> 'r option"
  sf_next :: nat
  sf_tasks :: "nat \<Rightarrow> 'r task"

definition no_flights :: "'r flights" where
  "no_flights = \<lparr>sf_inflight = Map.empty, sf_future = (\<lambda>_. None), sf_next = 0, sf_tasks = (\<lambda>_. Idle)\<rparr>"

inductive sf_step :: "bool \<Rightarrow> 'r flights \<Rightarrow> 'r flights \<Rightarrow> bool" for cancel where
  lead: "sf_tasks s i = Idle \<Longrightarrow> sf_inflight s k = None \<Longrightarrow>
     sf_step cancel s (s\<lparr>sf_inflight := (sf_inflight s)(k \<mapsto> sf_next s), sf_next := Suc (sf_next s),
                         sf_tasks := (sf_tasks s)(i := Leading k (sf_next s))\<rparr>)"
| join: "sf_tasks s i = Idle \<Longrightarrow> sf_inflight s k = Some f \<Longrightarrow>
     sf_step cancel s (s\<lparr>sf_tasks := (sf_tasks s)(i := Waiting k f)\<rparr>)"
| finish: "sf_tasks s i = Leading k f \<Longrightarrow>
     sf_step cancel s (s\<lparr>sf_inflight := (sf_inflight s)(k := None), sf_future := (sf_future s)(f \<mapsto> r),
                         sf_tasks := (sf_tasks s)(i := Finished r)\<rparr>)"
| wake: "sf_tasks s i = Waiting k f \<Longrightarrow> sf_future s f = Some r \<Longrightarrow>
     sf_step cancel s (s\<lparr>sf_tasks := (sf_tasks s)(i := Finished r)\<rparr>)"
| cancel_waiter: "sf_tasks s i = Waiting k f \<Longrightarrow>
     sf_step cancel s (s\<lparr>sf_tasks := (sf_tasks s)(i := Cancelled)\<rparr>)"
| cancel_leader: "cancel \<Longrightarrow> sf_tasks s i = Leading k f \<Longrightarrow>
     sf_step cancel s (s\<lparr>sf_inflight := (sf_inflight s)(k := None), sf_tasks := (sf_tasks s)(i := Cancelled)\<rparr>)"

inductive sf_reach :: "bool \<Rightarrow> 'r flights \<Rightarrow> 'r flights \<Rightarrow> bool" for cancel s0 where
  here: "sf_reach cancel s0 s0"
| step: "sf_reach cancel s0 s \<Longrightarrow> sf_step cancel s t \<Longrightarrow> sf_reach cancel s0 t"

inductive_cases sf_stepE: "sf_step cancel s t"

definition leaders_listed :: "'r flights \<Rightarrow> bool" where
  "leaders_listed s \<longleftrightarrow> (\<forall>i k f. sf_tasks s i = Leading k f \<longrightarrow> sf_inflight s k = Some f)"

definition one_leader :: "'r flights \<Rightarrow> bool" where
  "one_leader s \<longleftrightarrow> (\<forall>i j k f g. sf_tasks s i = Leading k f \<longrightarrow> sf_tasks s j = Leading k g \<longrightarrow> i = j)"

definition listed_leading :: "'r flights \<Rightarrow> bool" where
  "listed_leading s \<longleftrightarrow> (\<forall>k f. sf_inflight s k = Some f \<longrightarrow> (\<exists>i. sf_tasks s i = Leading k f))"

definition futures_fresh :: "'r flights \<Rightarrow> bool" where
  "futures_fresh s \<longleftrightarrow>
     (\<forall>k f. sf_inflight s k = Some f \<longrightarrow> f < sf_next s \<and> sf_future s f = None) \<and>
     (\<forall>k l f. sf_inflight s k = Some f \<longrightarrow> sf_inflight s l = Some f \<longrightarrow> k = l) \<and>
     (\<forall>i k f. sf_tasks s i = Waiting k f \<longrightarrow> f < sf_next s) \<and>
     (\<forall>f. sf_next s \<le> f \<longrightarrow> sf_future s f = None)"

definition sf_inv :: "'r flights \<Rightarrow> bool" where
  "sf_inv s \<longleftrightarrow> leaders_listed s \<and> one_leader s \<and> listed_leading s \<and> futures_fresh s"

definition nobody_stranded :: "'r flights \<Rightarrow> bool" where
  "nobody_stranded s \<longleftrightarrow>
     (\<forall>i k f. sf_tasks s i = Waiting k f \<longrightarrow> sf_future s f \<noteq> None \<or> sf_inflight s k = Some f)"

text \<open>A waiter whose future nobody will resolve.\<close>

definition stuck_on :: "'r flights \<Rightarrow> nat \<Rightarrow> string \<Rightarrow> nat \<Rightarrow> bool" where
  "stuck_on s i k f \<longleftrightarrow>
     sf_tasks s i = Waiting k f \<and> sf_future s f = None \<and> f < sf_next s \<and> (\<forall>l. sf_inflight s l \<noteq> Some f)"

subsection \<open>Lemmas\<close>

lemma step_leaders_listed: "sf_step cancel s t \<Longrightarrow> leaders_listed s \<Longrightarrow> one_leader s \<Longrightarrow> leaders_listed t"
  by (elim sf_stepE) (auto simp: leaders_listed_def one_leader_def)

lemma step_one_leader: "sf_step cancel s t \<Longrightarrow> leaders_listed s \<Longrightarrow> one_leader s \<Longrightarrow> one_leader t"
  by (elim sf_stepE) (auto simp: leaders_listed_def one_leader_def)

lemma listed_leading_upd:
  assumes "listed_leading s" "sf_tasks t = (sf_tasks s)(i := x)"
    "\<And>l f. sf_inflight t l = Some f \<Longrightarrow> x = Leading l f \<or> sf_inflight s l = Some f \<and> sf_tasks s i \<noteq> Leading l f"
  shows "listed_leading t"
  unfolding listed_leading_def
proof (intro allI impI)
  fix l f assume "sf_inflight t l = Some f"
  from assms(3) [OF this] show "\<exists>j. sf_tasks t j = Leading l f"
  proof
    assume "x = Leading l f"
    then show ?thesis using assms(2) by auto
  next
    assume h: "sf_inflight s l = Some f \<and> sf_tasks s i \<noteq> Leading l f"
    then obtain j where "sf_tasks s j = Leading l f" using assms(1) unfolding listed_leading_def by blast
    moreover have "j \<noteq> i" using h calculation by auto
    ultimately show ?thesis using assms(2) by auto
  qed
qed

lemma step_listed_leading:
  "sf_step cancel s t \<Longrightarrow> listed_leading s \<Longrightarrow> listed_leading t"
  by (elim sf_stepE) (auto elim!: listed_leading_upd split: if_splits)

lemma step_futures_fresh:
  "sf_step cancel s t \<Longrightarrow> leaders_listed s \<Longrightarrow> futures_fresh s \<Longrightarrow> futures_fresh t"
proof (induction rule: sf_step.induct)
  case (lead s i k)
  have "f \<noteq> sf_next s" if "sf_inflight s l = Some f" for l f
    using lead(4) that unfolding futures_fresh_def by blast
  with lead(4) show ?case unfolding futures_fresh_def by (auto simp: less_Suc_eq)
next
  case (finish s i k f r)
  have "sf_inflight s k = Some f" using finish(1,2) unfolding leaders_listed_def by blast
  with finish(3) have "f < sf_next s" "\<And>l. sf_inflight s l = Some f \<Longrightarrow> l = k" unfolding futures_fresh_def by blast+
  with finish(3) show ?case unfolding futures_fresh_def by auto
next
  case (join s i k f)
  then show ?case unfolding futures_fresh_def by auto
qed (auto simp: futures_fresh_def)

lemma sf_step_inv: "sf_step cancel s t \<Longrightarrow> sf_inv s \<Longrightarrow> sf_inv t"
  using step_leaders_listed step_one_leader step_listed_leading step_futures_fresh unfolding sf_inv_def by blast

lemma no_flights_inv: "sf_inv no_flights" "nobody_stranded no_flights"
  by (simp_all add: sf_inv_def leaders_listed_def one_leader_def listed_leading_def futures_fresh_def no_flights_def
      nobody_stranded_def)

lemma sf_reach_inv: "sf_reach cancel s0 s \<Longrightarrow> sf_inv s0 \<Longrightarrow> sf_inv s"
  by (induction rule: sf_reach.induct) (auto dest: sf_step_inv)

lemma step_nobody_stranded: "sf_step False s t \<Longrightarrow> sf_inv s \<Longrightarrow> nobody_stranded s \<Longrightarrow> nobody_stranded t"
proof (induction rule: sf_step.induct)
  case (finish s i k f r)
  then have "sf_inflight s k = Some f" unfolding sf_inv_def leaders_listed_def by blast
  with finish(3) show ?case unfolding nobody_stranded_def by (auto split: if_splits) (metis option.inject option.exhaust)+
next
  case (lead s i k)
  then show ?case unfolding nobody_stranded_def
    by (auto split: if_splits) (metis option.distinct(1) not_None_eq)+
qed (auto simp: nobody_stranded_def)

lemma reach_nobody_stranded:
  "sf_reach False s0 s \<Longrightarrow> sf_inv s0 \<Longrightarrow> nobody_stranded s0 \<Longrightarrow> nobody_stranded s"
  by (induction rule: sf_reach.induct) (auto dest: step_nobody_stranded sf_reach_inv)

lemma step_stuck:
  "sf_step cancel s t \<Longrightarrow> sf_inv s \<Longrightarrow> stuck_on s i k f \<Longrightarrow> stuck_on t i k f \<or> sf_tasks t i = Cancelled"
proof (induction rule: sf_step.induct)
  case (finish s j l g r)
  then have "sf_inflight s l = Some g" unfolding sf_inv_def leaders_listed_def by blast
  with finish(1,3) show ?case by (auto simp: stuck_on_def)
qed (auto simp: stuck_on_def)

lemma reach_stuck:
  "sf_reach cancel s t \<Longrightarrow> sf_inv s \<Longrightarrow> stuck_on s i k f \<Longrightarrow> stuck_on t i k f \<or> sf_tasks t i = Cancelled"
proof (induction rule: sf_reach.induct)
  case (step u t)
  from step.IH step.prems consider "stuck_on u i k f" | "sf_tasks u i = Cancelled" by blast
  then show ?case
  proof cases
    case 1
    then show ?thesis using step_stuck [OF step.hyps(2)] sf_reach_inv [OF step.hyps(1)] step.prems by blast
  next
    case 2
    with step.hyps(2) show ?thesis by (elim sf_stepE) auto
  qed
qed simp

subsection \<open>Properties\<close>

text \<open>
  C20: At any moment at most one request per cache key is running an engine query, however many requests for
  that key have missed the cache, even if tasks are cancelled.
\<close>

theorem single_flight_one_query:
  assumes "sf_reach cancel no_flights s"
  shows "\<forall>i j k f g. sf_tasks s i = Leading k f \<longrightarrow> sf_tasks s j = Leading k g \<longrightarrow> i = j \<and> f = g"
  using sf_reach_inv [OF assms no_flights_inv(1)] unfolding sf_inv_def one_leader_def by (metis task.inject(1))

theorem single_flight_one_query_witness:
  "\<exists>s :: nat flights. sf_reach True no_flights s \<and> {i. \<exists>f. sf_tasks s i = Leading ''k'' f} = {0}"
proof -
  let ?a = "no_flights\<lparr>sf_inflight := [''k'' \<mapsto> 0], sf_next := 1, sf_tasks := (\<lambda>_. Idle :: nat task)(0 := Leading ''k'' 0)\<rparr>"
  have "sf_step True (no_flights :: nat flights) ?a"
    using sf_step.lead [of no_flights 0 "''k''" True] by (simp add: no_flights_def)
  then have r: "sf_reach True no_flights ?a" by (rule sf_reach.step [OF sf_reach.here])
  have z: "sf_tasks ?a 0 = Leading ''k'' 0" by simp
  have "{i. \<exists>f. sf_tasks ?a i = Leading ''k'' f} = {0}"
  proof (intro equalityI subsetI)
    fix i assume "i \<in> {i. \<exists>f. sf_tasks ?a i = Leading ''k'' f}"
    then obtain f where "sf_tasks ?a i = Leading ''k'' f" by blast
    with single_flight_one_query [OF r] z show "i \<in> {0}" by blast
  qed (use z in blast)
  with r show ?thesis by blast
qed

text \<open>
  C21: Unless a leader is cancelled nobody waits in vain: the future a waiting request awaits is resolved, or its
  leader is still running and will resolve it with its own outcome.
\<close>

theorem single_flight_no_strand:
  assumes "sf_reach False no_flights s" "sf_tasks s i = Waiting k f"
  shows "(\<exists>r. sf_future s f = Some r) \<or> (\<exists>j. sf_tasks s j = Leading k f)"
proof -
  have "sf_inv s" "nobody_stranded s"
    using sf_reach_inv [OF assms(1) no_flights_inv(1)] reach_nobody_stranded [OF assms(1) no_flights_inv] by simp_all
  then show ?thesis using assms(2) unfolding sf_inv_def listed_leading_def nobody_stranded_def by (metis not_None_eq)
qed

theorem single_flight_no_strand_witness:
  "\<exists>s :: nat flights. sf_reach False no_flights s \<and> sf_tasks s 1 = Waiting ''k'' 0 \<and>
     ((\<exists>r. sf_future s 0 = Some r) \<or> (\<exists>j. sf_tasks s j = Leading ''k'' 0))"
proof -
  let ?a = "no_flights\<lparr>sf_inflight := [''k'' \<mapsto> 0], sf_next := 1, sf_tasks := (\<lambda>_. Idle :: nat task)(0 := Leading ''k'' 0)\<rparr>"
  let ?b = "?a\<lparr>sf_tasks := (sf_tasks ?a)(1 := Waiting ''k'' 0)\<rparr>"
  have "sf_step False (no_flights :: nat flights) ?a"
    using sf_step.lead [of no_flights 0 "''k''" False] by (simp add: no_flights_def)
  moreover have "sf_step False ?a ?b" by (rule sf_step.join) (simp_all add: no_flights_def)
  ultimately have r: "sf_reach False no_flights ?b" by (meson sf_reach.intros)
  have w: "sf_tasks ?b 1 = Waiting ''k'' 0" by simp
  from single_flight_no_strand [OF r w] r w show ?thesis by blast
qed

text \<open>
  C22: A cancelled leader strands its followers: from no flights one reaches a state in which a request waits on a
  future that will never be resolved; in every later state it still waits or has itself been cancelled.
\<close>

theorem single_flight_stranded:
  "\<exists>s :: 'r flights. sf_reach True no_flights s \<and> sf_tasks s 1 = Waiting ''k'' 0 \<and>
     (\<forall>t. sf_reach True s t \<longrightarrow> sf_tasks t 1 = Waiting ''k'' 0 \<and> sf_future t 0 = None \<or> sf_tasks t 1 = Cancelled)"
proof -
  let ?a = "no_flights\<lparr>sf_inflight := [''k'' \<mapsto> 0], sf_next := 1, sf_tasks := (\<lambda>_. Idle :: 'r task)(0 := Leading ''k'' 0)\<rparr>"
  let ?b = "?a\<lparr>sf_tasks := (sf_tasks ?a)(1 := Waiting ''k'' 0)\<rparr>"
  let ?c = "?b\<lparr>sf_inflight := (sf_inflight ?b)(''k'' := None), sf_tasks := (sf_tasks ?b)(0 := Cancelled)\<rparr>"
  have "sf_step True (no_flights :: 'r flights) ?a"
    using sf_step.lead [of no_flights 0 "''k''" True] by (simp add: no_flights_def)
  moreover have "sf_step True ?a ?b" by (rule sf_step.join) (simp_all add: no_flights_def)
  moreover have "sf_step True ?b ?c" by (rule sf_step.cancel_leader) simp_all
  ultimately have r: "sf_reach True no_flights ?c" by (meson sf_reach.intros)
  have stuck: "stuck_on ?c 1 ''k'' 0" by (simp add: stuck_on_def no_flights_def)
  have "sf_tasks t 1 = Waiting ''k'' 0 \<and> sf_future t 0 = None \<or> sf_tasks t 1 = Cancelled" if "sf_reach True ?c t" for t
    using reach_stuck [OF that sf_reach_inv [OF r no_flights_inv(1)] stuck] by (auto simp: stuck_on_def)
  with r show ?thesis by (intro exI [of _ ?c]) simp
qed

theorem single_flight_stranded_witness:
  "\<exists>s :: string flights. sf_reach True no_flights s \<and> sf_tasks s 1 = Waiting ''k'' 0"
  using single_flight_stranded by blast

end
