(* ===== verification/Interleaving.thy ===== *)
theory Interleaving
  imports Services
begin

text \<open>
  \<open>services/document_service.py\<close> under concurrency: the event loop, and other replicas, switch between requests
  at every \<open>await\<close>.  \<open>get_resume\<close> and \<open>delete_resume\<close> run a request from the point where it waits to its next
  \<open>await\<close>; the step relation interleaves any number of reads and deletes with creations, the worker's marking of
  indexed rows and outages.  A lookup, a fill and an invalidation are one cache call each; the transaction of a delete
  takes effect at its \<open>COMMIT\<close>, where the \<open>UPDATE\<close> has written the four columns the object changed.
  Run without interruption the points of a request are the operation of \<open>Document_Service\<close>.
\<close>

datatype get_point = GetLookup | GetFetch | GetFill document_response | GetDone "document_response result"

datatype delete_point =
    DelFetch
  | DelCommit document
  | DelDrop document
  | DelInvalidate document
  | DelPublish document
  | DelDone "unit result"

datatype job = Getting string uuid get_point | Deleting string uuid delete_point

fun get_resume ::
  "'c cache_ops \<Rightarrow> codec \<Rightarrow> settings \<Rightarrow> real \<Rightarrow> string \<Rightarrow> uuid \<Rightarrow> get_point \<Rightarrow> ('c, 'p) doc_world
   \<Rightarrow> get_point \<times> ('c, 'p) doc_world" where
  "get_resume B C st t tenant_id document_id GetLookup w =
     (case get_json B t (document_key tenant_id (str_uuid document_id)) (w_cache w) of
        (Some cached, c1) \<Rightarrow> (GetDone (validate_doc C cached), w\<lparr>w_cache := c1\<rparr>)
      | (None, c1) \<Rightarrow> (GetFetch, w\<lparr>w_cache := c1\<rparr>))"
| "get_resume B C st t tenant_id document_id GetFetch w =
     (case repo_get tenant_id document_id False (w_db w) of
        Inl e \<Rightarrow> (GetDone (Inl e), w)
      | Inr None \<Rightarrow> (GetDone (Inl (AppErr (NotFoundError (Some ''Document not found.'')))), w)
      | Inr (Some d) \<Rightarrow> (GetFill (from_model d), w))"
| "get_resume B C st t tenant_id document_id (GetFill r) w =
     (GetDone (Inr r),
      w\<lparr>w_cache := set_json B t (document_key tenant_id (str_uuid document_id)) (dump_doc C r)
                     (document_cache_ttl_seconds st) (w_cache w)\<rparr>)"
| "get_resume B C st t tenant_id document_id (GetDone r) w = (GetDone r, w)"

definition commit_delete :: "datetime \<Rightarrow> document \<Rightarrow> database \<Rightarrow> database" where
  "commit_delete now d db =
     update_rows (\<lambda>r. doc_id r = doc_id d)
       (\<lambda>r. r\<lparr>doc_status := DELETED, doc_deleted_at := Some now, doc_updated_at := now,
              doc_version := doc_version d + 1\<rparr>) db"

fun delete_resume ::
  "'c cache_ops \<Rightarrow> 'p publisher_ops \<Rightarrow> real \<Rightarrow> datetime \<Rightarrow> string \<Rightarrow> string \<Rightarrow> bool \<Rightarrow> string \<Rightarrow> uuid
   \<Rightarrow> delete_point \<Rightarrow> ('c, 'p) doc_world \<Rightarrow> delete_point \<times> ('c, 'p) doc_world" where
  "delete_resume B P t now evid occ commit_ok tenant_id document_id DelFetch w =
     (case repo_get tenant_id document_id False (w_db w) of
        Inl e \<Rightarrow> (DelDone (Inl e), w)
      | Inr None \<Rightarrow> (DelDone (Inl (AppErr (NotFoundError (Some ''Document not found.'')))), w)
      | Inr (Some d) \<Rightarrow> (DelCommit d, w))"
| "delete_resume B P t now evid occ commit_ok tenant_id document_id (DelCommit d) w =
     (if db_up (w_db w) \<and> commit_ok
      then (DelDrop (deleted_row now d), w\<lparr>w_db := commit_delete now d (w_db w)\<rparr>)
      else (DelDone (Inl DatabaseErr), w))"
| "delete_resume B P t now evid occ commit_ok tenant_id document_id (DelDrop d) w =
     (DelInvalidate d, w\<lparr>w_cache := cc_delete B [document_key tenant_id (str_uuid document_id)] (w_cache w)\<rparr>)"
| "delete_resume B P t now evid occ commit_ok tenant_id document_id (DelInvalidate d) w =
     (DelPublish d, w\<lparr>w_cache := invalidate_tenant B t tenant_id (w_cache w)\<rparr>)"
| "delete_resume B P t now evid occ commit_ok tenant_id document_id (DelPublish d) w =
     (DelDone (Inr ()), w\<lparr>w_pub := ds_publish P (event_of evid occ tenant_id d EVENT_DELETE) (w_pub w)\<rparr>)"
| "delete_resume B P t now evid occ commit_ok tenant_id document_id (DelDone r) w = (DelDone r, w)"

record running =
  rn_clock :: real
  rn_world :: "(inmemory_cache, inmemory_publisher) doc_world"
  rn_jobs :: "nat \<Rightarrow> job option"

definition outage :: "bool \<Rightarrow> bool \<Rightarrow> bool \<Rightarrow> (inmemory_cache, inmemory_publisher) doc_world
    \<Rightarrow> (inmemory_cache, inmemory_publisher) doc_world" where
  "outage cache_up db_up' queue_up w =
     w\<lparr>w_cache := (w_cache w)\<lparr>im_available := cache_up\<rparr>, w_db := (w_db w)\<lparr>db_up := db_up'\<rparr>,
       w_pub := (w_pub w)\<lparr>mp_available := queue_up\<rparr>\<rparr>"

inductive await_step :: "codec \<Rightarrow> settings \<Rightarrow> running \<Rightarrow> running \<Rightarrow> bool" for C st where
  elapse: "rn_clock s \<le> T \<Longrightarrow> await_step C st s (s\<lparr>rn_clock := T\<rparr>)"
| begin_get: "rn_jobs s i = None \<Longrightarrow>
     await_step C st s (s\<lparr>rn_jobs := (rn_jobs s)(i \<mapsto> Getting tn u GetLookup)\<rparr>)"
| begin_delete: "rn_jobs s i = None \<Longrightarrow>
     await_step C st s (s\<lparr>rn_jobs := (rn_jobs s)(i \<mapsto> Deleting tn u DelFetch)\<rparr>)"
| resume_get: "rn_jobs s i = Some (Getting tn u pt) \<Longrightarrow>
     get_resume inmemory_ops C st (rn_clock s) tn u pt (rn_world s) = (pt', w) \<Longrightarrow>
     await_step C st s (s\<lparr>rn_world := w, rn_jobs := (rn_jobs s)(i \<mapsto> Getting tn u pt')\<rparr>)"
| resume_delete: "rn_jobs s i = Some (Deleting tn u pt) \<Longrightarrow>
     delete_resume inmemory_ops inmemory_publisher_ops (rn_clock s) now evid occ ok tn u pt (rn_world s) = (pt', w) \<Longrightarrow>
     await_step C st s (s\<lparr>rn_world := w, rn_jobs := (rn_jobs s)(i \<mapsto> Deleting tn u pt')\<rparr>)"
| create: "ds_create inmemory_ops inmemory_publisher_ops (rn_clock s) created updated uid evid occ ok tn p (rn_world s) = (r, w) \<Longrightarrow>
     await_step C st s (s\<lparr>rn_world := w\<rparr>)"
| mark_indexed: "repo_mark_indexed now ids (w_db (rn_world s)) = Inr db \<Longrightarrow>
     await_step C st s (s\<lparr>rn_world := (rn_world s)\<lparr>w_db := db\<rparr>\<rparr>)"
| fail_over: "await_step C st s (s\<lparr>rn_world := outage cache_up db_up' queue_up (rn_world s)\<rparr>)"

inductive_cases await_stepE: "await_step C st s t"

text \<open>An answer a read may give: the row of that identifier and tenant, whose content never changes.\<close>

definition answers :: "database \<Rightarrow> string \<Rightarrow> uuid \<Rightarrow> document_response \<Rightarrow> bool" where
  "answers db tn u r \<longleftrightarrow>
     (\<exists>d. row_of db u = Some d \<and> doc_tenant_id d = tn \<and> rs_id r = u \<and> rs_tenant_id r = tn \<and>
          rs_title r = doc_title d \<and> rs_content r = doc_content d \<and> rs_content_type r = doc_content_type d \<and>
          rs_tags r = doc_tags d \<and> rs_metadata r = doc_metadata d \<and> rs_created_at r = doc_created_at d)"

definition entries_ok :: "codec \<Rightarrow> database \<Rightarrow> real \<Rightarrow> inmemory_cache \<Rightarrow> bool" where
  "entries_ok C db T c \<longleftrightarrow>
     (\<forall>n tn u v. T \<le> n \<longrightarrow> im_look n c (document_key tn (str_uuid u)) = Some v \<longrightarrow>
        (\<exists>r. v = JsonText (dump_doc C r) \<and> answers db tn u r))"

fun job_ok :: "database \<Rightarrow> job \<Rightarrow> bool" where
  "job_ok db (Getting tn u (GetFill r)) \<longleftrightarrow> answers db tn u r"
| "job_ok db (Getting tn u (GetDone (Inr r))) \<longleftrightarrow> answers db tn u r"
| "job_ok db (Deleting tn u (DelCommit d)) \<longleftrightarrow> doc_id d = u \<and> doc_version d = 1 \<and> row_of db u \<noteq> None"
| "job_ok db (Deleting tn u (DelDrop d)) \<longleftrightarrow> (\<exists>r. row_of db u = Some r \<and> doc_status r = DELETED)"
| "job_ok db j \<longleftrightarrow> True"

definition running_inv :: "codec \<Rightarrow> running \<Rightarrow> bool" where
  "running_inv C s \<longleftrightarrow>
     db_inv (w_db (rn_world s)) \<and> entries_ok C (w_db (rn_world s)) (rn_clock s) (w_cache (rn_world s)) \<and>
     (\<forall>i j. rn_jobs s i = Some j \<longrightarrow> job_ok (w_db (rn_world s)) j)"

text \<open>
  No trace of a deleted document: its row is deleted, no entry of its key is visible, and no read holds its content
  between the database and the cache.
\<close>

definition gone :: "string \<Rightarrow> uuid \<Rightarrow> running \<Rightarrow> bool" where
  "gone tn u s \<longleftrightarrow>
     (\<exists>d. row_of (w_db (rn_world s)) u = Some d \<and> doc_status d = DELETED) \<and>
     im_look (rn_clock s) (w_cache (rn_world s)) (document_key tn (str_uuid u)) = None \<and>
     (\<forall>i r. rn_jobs s i \<noteq> Some (Getting tn u (GetFill r)))"

definition quiet :: "real \<Rightarrow> (inmemory_cache, inmemory_publisher) doc_world \<Rightarrow> running" where
  "quiet T w = \<lparr>rn_clock = T, rn_world = w, rn_jobs = Map.empty\<rparr>"

subsection \<open>The cache and the rows across one step\<close>

lemma im_look_available [simp]: "im_look n (c\<lparr>im_available := b\<rparr>) k = im_look n c k"
  by (simp add: im_look_def)

lemma set_json_im_look:
  "im_look n (set_json inmemory_ops t k v ttl c) k' = Some x \<Longrightarrow>
   (k' = k \<and> x = JsonText v) \<or> im_look n c k' = Some x"
  by (cases "im_available c") (auto simp: imc.set_json_look imc.set_json_down split: if_splits)

lemma invalidate_im_look:
  assumes "t \<le> n"
  shows "im_look n (invalidate_tenant inmemory_ops t tn c) (document_key tn' (str_uuid u)) =
    im_look n c (document_key tn' (str_uuid u))"
  using assms document_key_not_generation [of tn' u tn]
  by (cases "im_available c") (simp_all add: invalidate_tenant_def imc.cc_incr_frame imc.cc_incr_down)

lemma get_resume_look:
  assumes "get_resume inmemory_ops C st t tn u pt w = (pt', w')" "t \<le> n" "im_look n (w_cache w') k = Some v"
  shows "im_look n (w_cache w) k = Some v \<or>
    (\<exists>r. pt = GetFill r \<and> k = document_key tn (str_uuid u) \<and> v = JsonText (dump_doc C r))"
proof (cases pt)
  case GetLookup
  then have "w_cache w' = snd (get_json inmemory_ops t (document_key tn (str_uuid u)) (w_cache w))"
    using assms(1) by (auto split: prod.splits option.splits)
  with assms(3) have "im_look n (snd (get_json inmemory_ops t (document_key tn (str_uuid u)) (w_cache w))) k = Some v" by simp
  from imc.get_json_shrinks [OF assms(2) this] show ?thesis ..
next
  case (GetFill r)
  then show ?thesis using assms(1,3) set_json_im_look by fastforce
qed (use assms in \<open>auto split: sum.splits option.splits\<close>)

lemma get_resume_db: "get_resume B C st t tn u pt w = (pt', w') \<Longrightarrow> w_db w' = w_db w"
  by (cases pt) (auto split: prod.splits option.splits sum.splits)

lemma delete_resume_look:
  assumes "delete_resume inmemory_ops P t now evid occ ok tn u pt w = (pt', w')" "t \<le> n"
    "im_look n (w_cache w') (document_key tn' (str_uuid u')) = Some v"
  shows "im_look n (w_cache w) (document_key tn' (str_uuid u')) = Some v"
proof (cases pt)
  case DelFetch
  then have "w' = w" using assms(1) by (auto split: sum.splits option.splits)
  then show ?thesis using assms(3) by simp
qed (use assms in \<open>auto simp: invalidate_im_look dest!: imc.cc_delete_shrinks split: if_splits\<close>)

lemma delete_resume_db:
  assumes "delete_resume B P t now evid occ ok tn u pt w = (pt', w')"
  shows "w_db w' = w_db w \<or> (\<exists>d. pt = DelCommit d \<and> w_db w' = commit_delete now d (w_db w))"
  using assms by (cases pt) (auto split: sum.splits option.splits if_splits)

lemma row_of_commit_delete:
  "row_of (commit_delete now d db) u =
     map_option (\<lambda>r. if doc_id r = doc_id d
                      then r\<lparr>doc_status := DELETED, doc_deleted_at := Some now, doc_updated_at := now,
                             doc_version := doc_version d + 1\<rparr> else r) (row_of db u)"
  unfolding commit_delete_def by (rule row_of_update_rows) simp

lemma commit_delete_inv: "db_inv db \<Longrightarrow> doc_version d = 1 \<Longrightarrow> db_inv (commit_delete now d db)"
  unfolding commit_delete_def by (rule update_rows_inv) (auto simp: row_ok_def)

lemma row_of_db_up [simp]: "row_of (db\<lparr>db_up := b\<rparr>) u = row_of db u"
  by (simp add: row_of_def)

lemma db_inv_up [simp]: "db_inv (db\<lparr>db_up := b\<rparr>) = db_inv db"
  by (simp add: db_inv_def)

text \<open>What no step changes of a row: its identity and content; and a deleted row stays deleted.\<close>

definition keeps_rows :: "database \<Rightarrow> database \<Rightarrow> bool" where
  "keeps_rows db db' \<longleftrightarrow>
     (\<forall>u d. row_of db u = Some d \<longrightarrow>
        (\<exists>d'. row_of db' u = Some d' \<and> doc_tenant_id d' = doc_tenant_id d \<and> doc_title d' = doc_title d \<and>
              doc_content d' = doc_content d \<and> doc_content_type d' = doc_content_type d \<and> doc_tags d' = doc_tags d \<and>
              doc_metadata d' = doc_metadata d \<and> doc_created_at d' = doc_created_at d \<and>
              (doc_status d = DELETED \<longrightarrow> doc_status d' = DELETED)))"

lemma keeps_rows_refl [simp]: "keeps_rows db db"
  by (simp add: keeps_rows_def)

lemma keeps_rows_answers: "keeps_rows db db' \<Longrightarrow> answers db tn u r \<Longrightarrow> answers db' tn u r"
  unfolding keeps_rows_def answers_def by metis

lemma keeps_rows_deleted:
  "keeps_rows db db' \<Longrightarrow> \<exists>d. row_of db u = Some d \<and> doc_status d = DELETED \<Longrightarrow>
   \<exists>d. row_of db' u = Some d \<and> doc_status d = DELETED"
  unfolding keeps_rows_def by metis

lemma keeps_rows_job: "keeps_rows db db' \<Longrightarrow> job_ok db j \<Longrightarrow> job_ok db' j"
proof (induction db j rule: job_ok.induct)
  case (3 db tn u d)
  then show ?case unfolding keeps_rows_def job_ok.simps by blast
next
  case (4 db tn u d)
  then show ?case using keeps_rows_deleted [of db db' u] by simp
qed (auto simp: keeps_rows_answers)

lemma entries_ok_mono: "entries_ok C db T c \<Longrightarrow> keeps_rows db db' \<Longrightarrow> entries_ok C db' T c"
  unfolding entries_ok_def by (metis keeps_rows_answers)

lemma delete_resume_rows: "delete_resume B P t now evid occ ok tn u pt w = (pt', w') \<Longrightarrow> keeps_rows (w_db w) (w_db w')"
  by (drule delete_resume_db) (auto simp: keeps_rows_def row_of_commit_delete)

lemma create_rows: "ds_create B P t cr up uid evid occ ok tn p w = (r, w') \<Longrightarrow> keeps_rows (w_db w) (w_db w')"
proof -
  assume c: "ds_create B P t cr up uid evid occ ok tn p w = (r, w')"
  show ?thesis
  proof (cases r)
    case (Inl e)
    then show ?thesis using ds_create_db [OF c] by simp
  next
    case (Inr d)
    then have d: "d = new_document cr up uid tn p" and new: "uid \<notin> doc_id ` set (db_documents (w_db w))"
      and c': "repo_create d (w_db w) = Inr (w_db w')"
      using c ds_create_db [OF c] by (auto simp: ds_create_def Let_def split: sum.splits if_splits)
    have "row_of (w_db w) (doc_id d) = None" using new by (simp add: row_of_None d new_document_def)
    then show ?thesis unfolding keeps_rows_def by (auto simp: repo_create_row [OF c'])
  qed
qed

lemma mark_indexed_rows: "repo_mark_indexed now ids db = Inr db' \<Longrightarrow> keeps_rows db db'"
  by (auto simp: keeps_rows_def repo_mark_indexed_row)

lemma await_step_rows: "await_step C st s s' \<Longrightarrow> keeps_rows (w_db (rn_world s)) (w_db (rn_world s'))"
  by (erule await_stepE)
    (auto simp: outage_def keeps_rows_def [of _ "_\<lparr>db_up := _\<rparr>"] get_resume_db delete_resume_rows create_rows mark_indexed_rows)

lemma create_look:
  assumes "ds_create inmemory_ops P t cr up uid evid occ ok tn p w = (r, w')" "t \<le> n"
  shows "im_look n (w_cache w') (document_key tn' (str_uuid u)) = im_look n (w_cache w) (document_key tn' (str_uuid u))"
  using assms by (auto simp: ds_create_def Let_def invalidate_im_look split: sum.splits if_splits)

subsection \<open>The invariant of the running service\<close>

lemma get_json_hit:
  assumes "get_json inmemory_ops t k c = (Some j, c')"
  shows "im_look t c k = Some (JsonText j)"
proof (cases "im_available c")
  case True
  then show ?thesis using imc.get_json_value [OF True, of t k] assms
    by (auto split: option.splits cache_text.splits if_splits)
next
  case False
  then show ?thesis using imc.get_json_down [OF False, of t k] assms by simp
qed

lemma entries_ok_sub:
  assumes "entries_ok C db T c" "T \<le> T'" "keeps_rows db db'"
    "\<And>n tn u v. T' \<le> n \<Longrightarrow> im_look n c' (document_key tn (str_uuid u)) = Some v \<Longrightarrow>
       im_look n c (document_key tn (str_uuid u)) = Some v \<or> (\<exists>r. v = JsonText (dump_doc C r) \<and> answers db' tn u r)"
  shows "entries_ok C db' T' c'"
  using entries_ok_mono [OF assms(1,3)] assms(2,4) unfolding entries_ok_def by (meson order.trans)

lemma repo_get_answers:
  assumes "db_inv db" "repo_get tn u False db = Inr (Some d)"
  shows "answers db tn u (from_model d) \<and> doc_id d = u \<and> doc_version d = 1 \<and> row_of db u = Some d"
proof -
  have d: "row_of db u = Some d" "doc_tenant_id d = tn" "doc_status d \<noteq> DELETED"
    using assms(2) by (auto simp: repo_get_row [OF assms(1)] split: if_splits option.splits)
  from row_of_Some [OF d(1)] have "d \<in> set (db_documents db)" "doc_id d = u" by auto
  moreover from this d(3) assms(1) have "doc_version d = 1" by (auto simp: db_inv_def row_ok_def)
  ultimately show ?thesis using d by (auto simp: answers_def from_model_def)
qed

lemma get_resume_job:
  assumes C: "codec_ok C" and db: "db_inv (w_db w)" and e: "entries_ok C (w_db w) t (w_cache w)"
    and pt: "job_ok (w_db w) (Getting tn u pt)"
    and step: "get_resume inmemory_ops C st t tn u pt w = (pt', w')"
  shows "job_ok (w_db w') (Getting tn u pt')"
proof (cases pt)
  case GetLookup
  show ?thesis
  proof (cases "get_json inmemory_ops t (document_key tn (str_uuid u)) (w_cache w)")
    case (Pair v c1)
    show ?thesis
    proof (cases v)
      case (Some j)
      with Pair obtain r where "j = dump_doc C r" "answers (w_db w) tn u r"
        using get_json_hit e unfolding entries_ok_def by (metis cache_text.inject(1) order.refl)
      with Some Pair step GetLookup C show ?thesis by (auto simp: codec_ok_def)
    qed (use Pair step GetLookup in auto)
  qed
next
  case GetFetch
  with step show ?thesis using repo_get_answers [OF db] by (auto split: sum.splits option.splits)
next
  case (GetFill r)
  with step pt show ?thesis by auto
next
  case (GetDone r)
  with step pt show ?thesis by auto
qed

lemma delete_resume_job:
  assumes "db_inv (w_db w)" "delete_resume B P t now evid occ ok tn u pt w = (pt', w')"
    "job_ok (w_db w) (Deleting tn u pt)"
  shows "job_ok (w_db w') (Deleting tn u pt') \<and> db_inv (w_db w')"
  using assms
  by (cases pt)
    (auto simp: row_of_commit_delete dest: repo_get_answers row_of_Some intro: commit_delete_inv
      split: sum.splits option.splits if_splits)

lemma await_step_db_inv: "await_step C st s s' \<Longrightarrow> running_inv C s \<Longrightarrow> db_inv (w_db (rn_world s'))"
  by (erule await_stepE)
    (auto simp: running_inv_def outage_def get_resume_db intro: ds_create_inv repo_mark_indexed_inv delete_resume_job [THEN conjunct2])

lemma await_step_entries:
  assumes "await_step C st s s'" "running_inv C s"
  shows "entries_ok C (w_db (rn_world s')) (rn_clock s') (w_cache (rn_world s'))"
proof -
  have e: "entries_ok C (w_db (rn_world s)) (rn_clock s) (w_cache (rn_world s))"
    and jobs: "\<And>i j. rn_jobs s i = Some j \<Longrightarrow> job_ok (w_db (rn_world s)) j" using assms(2) by (auto simp: running_inv_def)
  note sub = entries_ok_sub [OF e _ await_step_rows [OF assms(1)]]
  from assms(1) show ?thesis
  proof cases
    case (resume_get i tn u pt pt' w)
    then show ?thesis using resume_get
      by (intro sub) (auto dest!: get_resume_look [OF resume_get(3)] jobs document_key_inject simp: get_resume_db)
  next
    case (resume_delete i tn u pt now evid occ ok pt' w)
    then show ?thesis by (intro sub) (auto dest!: delete_resume_look [OF resume_delete(3)])
  next
    case (create created updated uid evid occ ok tn p r w)
    then show ?thesis by (intro sub) (auto simp: create_look [OF create(2)])
  qed (intro sub; simp add: outage_def)+
qed

lemma await_step_jobs:
  assumes "await_step C st s s'" "running_inv C s" "codec_ok C" "rn_jobs s' i = Some j"
  shows "job_ok (w_db (rn_world s')) j"
proof -
  have db: "db_inv (w_db (rn_world s))" and e: "entries_ok C (w_db (rn_world s)) (rn_clock s) (w_cache (rn_world s))"
    and jobs: "\<And>i j. rn_jobs s i = Some j \<Longrightarrow> job_ok (w_db (rn_world s')) j"
    using assms(2) keeps_rows_job [OF await_step_rows [OF assms(1)]] by (auto simp: running_inv_def)
  have old: "\<And>i j. rn_jobs s i = Some j \<Longrightarrow> job_ok (w_db (rn_world s)) j" using assms(2) by (auto simp: running_inv_def)
  from assms(1) show ?thesis
  proof cases
    case (resume_get k tn u pt pt' w)
    then show ?thesis
      using get_resume_job [OF assms(3) db e old [OF resume_get(2)] resume_get(3)] assms(4) jobs by (auto split: if_splits)
  next
    case (resume_delete k tn u pt now evid occ ok pt' w)
    then show ?thesis
      using delete_resume_job [OF db resume_delete(3) old [OF resume_delete(2)]] assms(4) jobs by (auto split: if_splits)
  qed (use assms(4) jobs in \<open>auto split: if_splits\<close>)
qed

lemma await_step_inv: "await_step C st s s' \<Longrightarrow> codec_ok C \<Longrightarrow> running_inv C s \<Longrightarrow> running_inv C s'"
  using await_step_db_inv [of C st s s'] await_step_entries [of C st s s'] await_step_jobs [of C st s s']
  unfolding running_inv_def [of C s'] by blast

lemma reach_inv:
  "rtranclp (await_step C st) s s' \<Longrightarrow> codec_ok C \<Longrightarrow> running_inv C s \<Longrightarrow> running_inv C s'"
  by (induction rule: rtranclp_induct) (auto intro: await_step_inv)

lemma quiet_inv: "db_inv (w_db w) \<Longrightarrow> im_store (w_cache w) = [] \<Longrightarrow> running_inv C (quiet T w)"
  by (simp add: running_inv_def quiet_def entries_ok_def im_look_def)

subsection \<open>A document that is gone stays gone\<close>

lemma gone_fetch:
  assumes "db_inv db" "row_of db u = Some d" "doc_status d = DELETED"
  shows "repo_get tn u False db = (if db_up db then Inr None else Inl DatabaseErr)"
  using assms by (simp add: repo_get_row)

lemma gone_look:
  assumes "await_step C st s s'" "gone tn u s"
  shows "im_look (rn_clock s') (w_cache (rn_world s')) (document_key tn (str_uuid u)) = None"
proof (rule ccontr)
  let ?k = "document_key tn (str_uuid u)"
  assume "im_look (rn_clock s') (w_cache (rn_world s')) ?k \<noteq> None"
  then obtain v where v: "im_look (rn_clock s') (w_cache (rn_world s')) ?k = Some v" by blast
  have no: "im_look (rn_clock s) (w_cache (rn_world s)) ?k = None"
    and fill: "\<And>i r. rn_jobs s i \<noteq> Some (Getting tn u (GetFill r))" using assms(2) by (auto simp: gone_def)
  from assms(1) show False
  proof cases
    case (elapse T)
    then show False using imc.look_None_mono [OF elapse(2) no] v by simp
  next
    case (resume_get i tn' u' pt pt' w)
    then show False using get_resume_look [OF resume_get(3) order.refl, of ?k v] v no fill
      by (auto dest!: document_key_inject)
  next
    case (resume_delete i tn' u' pt now evid occ ok pt' w)
    then show False using delete_resume_look [OF resume_delete(3) order.refl, of tn u v] v no by simp
  next
    case (create created updated uid evid occ ok tn' p r w)
    then show False using create_look [OF create(2) order.refl, of tn u] v no by simp
  qed (use v no in \<open>auto simp: outage_def\<close>)
qed

lemma gone_step:
  assumes "await_step C st s s'" "running_inv C s" "gone tn u s"
  shows "gone tn u s' \<and> (\<forall>i r. rn_jobs s' i = Some (Getting tn u (GetDone (Inr r))) \<longrightarrow>
    rn_jobs s i = Some (Getting tn u (GetDone (Inr r))))"
proof -
  have db: "db_inv (w_db (rn_world s))" using assms(2) by (simp add: running_inv_def)
  obtain d where d: "row_of (w_db (rn_world s)) u = Some d" "doc_status d = DELETED" using assms(3) by (auto simp: gone_def)
  have no: "im_look (rn_clock s) (w_cache (rn_world s)) (document_key tn (str_uuid u)) = None"
    and fill: "\<And>i r. rn_jobs s i \<noteq> Some (Getting tn u (GetFill r))" using assms(3) by (auto simp: gone_def)
  have row: "\<exists>d. row_of (w_db (rn_world s')) u = Some d \<and> doc_status d = DELETED"
    using keeps_rows_deleted [OF await_step_rows [OF assms(1)]] d by blast
  have "(\<forall>i r. rn_jobs s' i \<noteq> Some (Getting tn u (GetFill r))) \<and>
    (\<forall>i r. rn_jobs s' i = Some (Getting tn u (GetDone (Inr r))) \<longrightarrow> rn_jobs s i = Some (Getting tn u (GetDone (Inr r))))"
    using assms(1)
  proof cases
    case (resume_get i tn' u' pt pt' w)
    have "pt' \<noteq> GetFill r \<and> (pt' = GetDone (Inr r) \<longrightarrow> pt = GetDone (Inr r))" if "tn' = tn" "u' = u" for r
    proof (cases pt)
      case GetLookup
      then show ?thesis using resume_get(3) that no get_json_hit
        by (auto split: prod.splits option.splits)
    next
      case GetFetch
      then show ?thesis using resume_get(3) that gone_fetch [OF db d, of tn] by (auto split: if_splits)
    next
      case (GetFill r)
      then show ?thesis using resume_get(2) that fill by simp
    next
      case (GetDone r)
      then show ?thesis using resume_get(3) by auto
    qed
    then show ?thesis using resume_get fill by auto
  qed (use fill in auto)
  then show ?thesis using row gone_look [OF assms(1,3)] by (simp add: gone_def)
qed

lemma gone_reach:
  assumes "rtranclp (await_step C st) s s'" "codec_ok C" "running_inv C s" "gone tn u s"
  shows "gone tn u s' \<and> (\<forall>i r. rn_jobs s' i = Some (Getting tn u (GetDone (Inr r))) \<longrightarrow>
    rn_jobs s i = Some (Getting tn u (GetDone (Inr r))))"
  using assms(1)
proof (induction rule: rtranclp_induct)
  case base
  then show ?case using assms(4) by simp
next
  case (step y z)
  then show ?case using gone_step [OF step(2) reach_inv [OF step(1) assms(2,3)]] by blast
qed

text \<open>Dropping the entry makes the document gone, unless a read holds its content at that moment.\<close>

lemma drop_makes_gone:
  assumes "running_inv C s" "rn_jobs s i = Some (Deleting tn u (DelDrop d))" "im_available (w_cache (rn_world s))"
    "\<And>k r. rn_jobs s k \<noteq> Some (Getting tn u (GetFill r))"
    "delete_resume inmemory_ops inmemory_publisher_ops (rn_clock s) now evid occ ok tn u (DelDrop d) (rn_world s) = (pt, w)"
  shows "gone tn u (s\<lparr>rn_world := w, rn_jobs := (rn_jobs s)(i \<mapsto> Deleting tn u pt)\<rparr>)"
proof -
  have "\<exists>r. row_of (w_db (rn_world s)) u = Some r \<and> doc_status r = DELETED"
    using assms(1,2) by (force simp: running_inv_def)
  moreover have "im_look (rn_clock s) (cc_delete inmemory_ops [document_key tn (str_uuid u)] (w_cache (rn_world s)))
      (document_key tn (str_uuid u)) = None"
    by (simp add: cc_delete_def imc.del_look [OF assms(3)])
  ultimately show ?thesis using assms(4,5) by (auto simp: gone_def)
qed

subsection \<open>Schedules\<close>

lemma go_get:
  assumes "rtranclp (await_step C st) s0 s" "rn_jobs s i = Some (Getting tn u pt)"
    "get_resume inmemory_ops C st (rn_clock s) tn u pt (rn_world s) = (pt', w)"
  obtains s' where "rtranclp (await_step C st) s0 s'" "rn_clock s' = rn_clock s" "rn_world s' = w"
    "rn_jobs s' = (rn_jobs s)(i \<mapsto> Getting tn u pt')"
  using rtranclp.rtrancl_into_rtrancl [OF assms(1) await_step.resume_get [OF assms(2,3)]] by (auto intro: that)

lemma go_delete:
  assumes "rtranclp (await_step C st) s0 s" "rn_jobs s i = Some (Deleting tn u pt)"
    "delete_resume inmemory_ops inmemory_publisher_ops (rn_clock s) now evid occ ok tn u pt (rn_world s) = (pt', w)"
  obtains s' where "rtranclp (await_step C st) s0 s'" "rn_clock s' = rn_clock s" "rn_world s' = w"
    "rn_jobs s' = (rn_jobs s)(i \<mapsto> Deleting tn u pt')"
  using rtranclp.rtrancl_into_rtrancl [OF assms(1) await_step.resume_delete [OF assms(2,3)]] by (auto intro: that)

lemma go_begin:
  assumes "rtranclp (await_step C st) s0 s" "rn_jobs s i = None" "j \<in> {Getting tn u GetLookup, Deleting tn u DelFetch}"
  obtains s' where "rtranclp (await_step C st) s0 s'" "rn_clock s' = rn_clock s" "rn_world s' = rn_world s"
    "rn_jobs s' = (rn_jobs s)(i \<mapsto> j)"
  using rtranclp.rtrancl_into_rtrancl [OF assms(1) await_step.begin_get [OF assms(2)], of tn u]
    rtranclp.rtrancl_into_rtrancl [OF assms(1) await_step.begin_delete [OF assms(2)], of tn u] assms(3)
  by (auto intro: that)

lemma miss_then_fetch:
  assumes "db_inv (w_db w)" "repo_get tn u False (w_db w) = Inr (Some d)" "im_available (w_cache w)"
    "im_look T (w_cache w) (document_key tn (str_uuid u)) = None"
  obtains s c where "rtranclp (await_step C st) (quiet T w) s" "rn_clock s = T" "rn_world s = w\<lparr>w_cache := c\<rparr>"
    "im_available c" "rn_jobs s = [0 \<mapsto> Getting tn u (GetFill (from_model d))]"
proof -
  let ?k = "document_key tn (str_uuid u)"
  obtain c where c: "get_json inmemory_ops T ?k (w_cache w) = (None, c)" "im_available c"
    using imc.get_json_value [OF assms(3), of T ?k] imc.get_json_up [OF assms(3), of T ?k] assms(4)
    by (cases "get_json inmemory_ops T ?k (w_cache w)") auto
  obtain s1 where s1: "rtranclp (await_step C st) (quiet T w) s1" "rn_clock s1 = T" "rn_world s1 = w"
    "rn_jobs s1 = [0 \<mapsto> Getting tn u GetLookup]"
    by (rule go_begin [where s0 = "quiet T w" and s = "quiet T w" and i = 0 and j = "Getting tn u GetLookup" and C = C and st = st])
      (auto simp: quiet_def)
  obtain s2 where s2: "rtranclp (await_step C st) (quiet T w) s2" "rn_clock s2 = T" "rn_world s2 = w\<lparr>w_cache := c\<rparr>"
    "rn_jobs s2 = [0 \<mapsto> Getting tn u GetFetch]"
    by (rule go_get [OF s1(1), where i = 0 and pt = GetLookup and pt' = GetFetch]) (auto simp: s1 c)
  show thesis
    by (rule go_get [OF s2(1), where i = 0 and pt = GetFetch and tn = tn and u = u]) (auto simp: s2 assms(2) intro: that [of _ c] c(2))
qed

lemma delete_commits:
  assumes "rtranclp (await_step C st) s0 s" "rn_jobs s i = None" "repo_get tn u False (w_db (rn_world s)) = Inr (Some d)"
  obtains s' where "rtranclp (await_step C st) s0 s'" "rn_clock s' = rn_clock s"
    "rn_world s' = (rn_world s)\<lparr>w_db := commit_delete now d (w_db (rn_world s))\<rparr>"
    "rn_jobs s' = (rn_jobs s)(i \<mapsto> Deleting tn u (DelDrop (deleted_row now d)))"
proof -
  have up: "db_up (w_db (rn_world s))" using assms(3) by (auto simp: repo_get_def split: if_splits)
  let ?run = "\<lambda>s. delete_resume inmemory_ops inmemory_publisher_ops (rn_clock s) now [] [] True tn u"
  obtain s1 where s1: "rtranclp (await_step C st) s0 s1" "rn_clock s1 = rn_clock s" "rn_world s1 = rn_world s"
    "rn_jobs s1 = (rn_jobs s)(i \<mapsto> Deleting tn u DelFetch)"
    by (rule go_begin [OF assms(1,2), where j = "Deleting tn u DelFetch" and tn = tn and u = u]) auto
  have "?run s1 DelFetch (rn_world s1) = (DelCommit d, rn_world s)" by (simp add: s1 assms(3))
  from go_delete [OF s1(1) _ this, of i]
  obtain s2 where s2: "rtranclp (await_step C st) s0 s2" "rn_clock s2 = rn_clock s" "rn_world s2 = rn_world s"
    "rn_jobs s2 = (rn_jobs s)(i \<mapsto> Deleting tn u (DelCommit d))" using s1 by auto
  let ?w3 = "(rn_world s)\<lparr>w_db := commit_delete now d (w_db (rn_world s))\<rparr>"
  have "?run s2 (DelCommit d) (rn_world s2) = (DelDrop (deleted_row now d), ?w3)" by (simp add: s2 up)
  from go_delete [OF s2(1) _ this, of i] that show thesis using s2 by auto
qed

lemma delete_completes:
  assumes "rtranclp (await_step C st) s0 s" "rn_jobs s i = Some (Deleting tn u (DelDrop d))"
  obtains s' where "rtranclp (await_step C st) s0 s'" "rn_clock s' = rn_clock s"
    "rn_jobs s' = (rn_jobs s)(i \<mapsto> Deleting tn u (DelDone (Inr ())))" "w_db (rn_world s') = w_db (rn_world s)"
    "w_cache (rn_world s') = invalidate_tenant inmemory_ops (rn_clock s) tn
       (cc_delete inmemory_ops [document_key tn (str_uuid u)] (w_cache (rn_world s)))"
proof -
  fix now
  let ?run = "\<lambda>s. delete_resume inmemory_ops inmemory_publisher_ops (rn_clock s) now [] [] True tn u"
  let ?w4 = "(rn_world s)\<lparr>w_cache := cc_delete inmemory_ops [document_key tn (str_uuid u)] (w_cache (rn_world s))\<rparr>"
  have "?run s (DelDrop d) (rn_world s) = (DelInvalidate d, ?w4)" by simp
  from go_delete [OF assms this]
  obtain s4 where s4: "rtranclp (await_step C st) s0 s4" "rn_clock s4 = rn_clock s" "rn_world s4 = ?w4"
    "rn_jobs s4 = (rn_jobs s)(i \<mapsto> Deleting tn u (DelInvalidate d))" by auto
  let ?w5 = "?w4\<lparr>w_cache := invalidate_tenant inmemory_ops (rn_clock s) tn (w_cache ?w4)\<rparr>"
  have "?run s4 (DelInvalidate d) (rn_world s4) = (DelPublish d, ?w5)" by (simp add: s4)
  from go_delete [OF s4(1) _ this, of i]
  obtain s5 where s5: "rtranclp (await_step C st) s0 s5" "rn_clock s5 = rn_clock s" "rn_world s5 = ?w5"
    "rn_jobs s5 = (rn_jobs s)(i \<mapsto> Deleting tn u (DelPublish d))" using s4 by auto
  obtain w6 where w6: "?run s5 (DelPublish d) (rn_world s5) = (DelDone (Inr ()), w6)"
    "w_db w6 = w_db ?w5" "w_cache w6 = w_cache ?w5" by (simp add: s5(2,3))
  from go_delete [OF s5(1) _ w6(1), of i]
  obtain s6 where s6: "rtranclp (await_step C st) s0 s6" "rn_clock s6 = rn_clock s" "rn_world s6 = w6"
    "rn_jobs s6 = (rn_jobs s)(i \<mapsto> Deleting tn u (DelDone (Inr ())))" using s5 by auto
  show thesis by (rule that [OF s6(1,2,4)]) (simp_all add: s6(3) w6(2,3))
qed

lemma sample_found:
  "repo_get ''acme'' 77 False (w_db sample_doc_world) = Inr (Some sample_doc)"
  "im_available (w_cache sample_doc_world)" "im_store (w_cache sample_doc_world) = []"
  "im_look n (w_cache sample_doc_world) k = None"
  by (simp_all add: sample_doc_world_def repo_get_def sample_doc_def new_document_def new_inmemory_cache_def im_look_def)

subsection \<open>Without interruption\<close>

definition get_run ::
  "'c cache_ops \<Rightarrow> codec \<Rightarrow> settings \<Rightarrow> real \<Rightarrow> real \<Rightarrow> string \<Rightarrow> uuid \<Rightarrow> ('c, 'p) doc_world
   \<Rightarrow> get_point \<times> ('c, 'p) doc_world" where
  "get_run B C st t1 t2 tn u w =
     (case get_resume B C st t1 tn u GetLookup w of
        (p1, w1) \<Rightarrow> (case get_resume B C st t1 tn u p1 w1 of (p2, w2) \<Rightarrow> get_resume B C st t2 tn u p2 w2))"

definition delete_run ::
  "'c cache_ops \<Rightarrow> 'p publisher_ops \<Rightarrow> real \<Rightarrow> datetime \<Rightarrow> string \<Rightarrow> string \<Rightarrow> bool \<Rightarrow> string \<Rightarrow> uuid
   \<Rightarrow> ('c, 'p) doc_world \<Rightarrow> delete_point \<times> ('c, 'p) doc_world" where
  "delete_run B P t now evid occ commit_ok tn u w =
     ((\<lambda>(p, w). delete_resume B P t now evid occ commit_ok tn u p w) ^^ 5) (DelFetch, w)"

lemma get_run_eq:
  "get_run B C st t1 t2 tn u w = (case ds_get B C st t1 t2 tn u w of (r, w') \<Rightarrow> (GetDone r, w'))"
  by (auto simp: get_run_def ds_get_def Let_def split: prod.splits option.splits sum.splits)

lemma commit_delete_current:
  assumes "db_inv db" "repo_get tn u False db = Inr (Some d)"
  shows "repo_soft_delete now d db = Inr (deleted_row now d, commit_delete now d db)"
proof -
  have up: "db_up db" using assms(2) by (auto simp: repo_get_def split: if_splits)
  have dist: "distinct (map doc_id (db_documents db))" using assms(1) by (simp add: db_inv_def)
  have mem: "d \<in> set (db_documents db)" using repo_get_answers [OF assms] row_of_Some by blast
  have row: "deleted_row now d = r\<lparr>doc_status := DELETED, doc_deleted_at := Some now, doc_updated_at := now,
      doc_version := doc_version d + 1\<rparr>" if "r \<in> set (db_documents db)" "doc_id r = doc_id d" for r
  proof -
    have "r = d" using that dist mem by (metis distinct_map inj_onD)
    then show ?thesis by (simp add: deleted_row_def)
  qed
  have "update_rows (\<lambda>r. doc_id r = doc_id d) (\<lambda>_. deleted_row now d) db = commit_delete now d db"
    unfolding commit_delete_def update_rows_def
    by (intro arg_cong [where f = "\<lambda>x. db\<lparr>db_documents := x\<rparr>"] map_cong) (use row in auto)
  then show ?thesis by (simp add: repo_soft_delete_def up)
qed

lemma delete_run_eq:
  assumes "db_inv (w_db w)"
  shows "delete_run B P t now evid occ ok tn u w =
    (case ds_delete B P t now evid occ ok tn u w of (r, w') \<Rightarrow> (DelDone r, w'))"
proof (cases "repo_get tn u False (w_db w)")
  case (Inl e)
  then show ?thesis by (simp add: delete_run_def ds_delete_def numeral_eq_Suc)
next
  case (Inr r)
  show ?thesis
  proof (cases r)
    case None
    with Inr show ?thesis by (simp add: delete_run_def ds_delete_def numeral_eq_Suc)
  next
    case (Some d)
    have "db_up (w_db w)" using Inr by (auto simp: repo_get_def split: if_splits)
    with Inr Some commit_delete_current [OF assms, of tn u d now] show ?thesis
      by (simp add: delete_run_def ds_delete_def numeral_eq_Suc Let_def)
  qed
qed

subsection \<open>Properties\<close>



text \<open>
  C26: However reads, deletes, creations, the worker and outages interleave, what a read answers is the document it asked
  for: of its own tenant and identifier, with exactly the content of that row.
\<close>

theorem interleaved_answers:
  assumes "rtranclp (await_step C st) (quiet T w) s" "codec_ok C" "db_inv (w_db w)" "im_store (w_cache w) = []"
    "rn_jobs s i = Some (Getting tn u (GetDone (Inr r)))"
  shows "answers (w_db (rn_world s)) tn u r"
  using reach_inv [OF assms(1,2) quiet_inv [OF assms(3,4)]] assms(5) by (force simp: running_inv_def)

theorem interleaved_answers_witness:
  "\<exists>s r. rtranclp (await_step sample_codec default_settings) (quiet 1 sample_doc_world) s \<and>
     rn_jobs s 0 = Some (Getting ''acme'' 77 (GetDone (Inr r))) \<and> answers (w_db (rn_world s)) ''acme'' 77 r"
proof -
  obtain s where s: "rtranclp (await_step sample_codec default_settings) (quiet 1 sample_doc_world) s"
    "rn_jobs s = [0 \<mapsto> Getting ''acme'' 77 (GetFill (from_model sample_doc))]"
    using miss_then_fetch [OF sample_hypotheses(4) sample_found(1,2,4)] by metis
  obtain s' where s': "rtranclp (await_step sample_codec default_settings) (quiet 1 sample_doc_world) s'"
    "rn_jobs s' 0 = Some (Getting ''acme'' 77 (GetDone (Inr (from_model sample_doc))))"
    by (rule go_get [OF s(1), where i = 0 and pt = "GetFill (from_model sample_doc)"]) (auto simp: s(2))
  from interleaved_answers [OF s'(1) sample_hypotheses(1,4) sample_found(3) s'(2)] s' show ?thesis by blast
qed

text \<open>
  C27: Once a delete has dropped the cached entry while no read of the document is between its database read and its cache fill, no
  read that is answered later, under any interleaving and any outage, gets the document any more.
\<close>

theorem delete_final:
  assumes "rtranclp (await_step C st) (quiet T w) s" "codec_ok C" "db_inv (w_db w)" "im_store (w_cache w) = []"
    "rn_jobs s i = Some (Deleting tn u (DelDrop d))" "im_available (w_cache (rn_world s))"
    "\<not> (\<exists>k r. rn_jobs s k = Some (Getting tn u (GetFill r)))"
    "delete_resume inmemory_ops inmemory_publisher_ops (rn_clock s) now evid occ ok tn u (DelDrop d) (rn_world s) = (pt, w1)"
    "rtranclp (await_step C st) (s\<lparr>rn_world := w1, rn_jobs := (rn_jobs s)(i \<mapsto> Deleting tn u pt)\<rparr>) s'"
    "rn_jobs s' k = Some (Getting tn u (GetDone (Inr r)))"
  shows "rn_jobs s k = Some (Getting tn u (GetDone (Inr r)))"
proof -
  let ?s1 = "s\<lparr>rn_world := w1, rn_jobs := (rn_jobs s)(i \<mapsto> Deleting tn u pt)\<rparr>"
  have inv: "running_inv C s" by (rule reach_inv [OF assms(1,2) quiet_inv [OF assms(3,4)]])
  have "gone tn u ?s1" using drop_makes_gone [OF inv assms(5,6) _ assms(8)] assms(7) by blast
  moreover have "running_inv C ?s1"
    using await_step_inv [OF await_step.resume_delete [OF assms(5,8)] assms(2) inv] .
  ultimately have "rn_jobs ?s1 k = Some (Getting tn u (GetDone (Inr r)))"
    using gone_reach [OF assms(9,2)] assms(10) by blast
  then show ?thesis by (auto split: if_splits)
qed

theorem delete_final_witness:
  "\<exists>s. rtranclp (await_step sample_codec default_settings) (quiet 1 sample_doc_world) s \<and>
     rn_jobs s 1 = Some (Deleting ''acme'' 77 (DelInvalidate (deleted_row sample_moment sample_doc))) \<and>
     \<not> (\<exists>s' k r. rtranclp (await_step sample_codec default_settings) s s' \<and>
         rn_jobs s' k = Some (Getting ''acme'' 77 (GetDone (Inr r))))"
proof -
  let ?R = "rtranclp (await_step sample_codec default_settings)" and ?q = "quiet 1 sample_doc_world"
  let ?d = "deleted_row sample_moment sample_doc"
  have q: "rn_jobs ?q 1 = None" "repo_get ''acme'' 77 False (w_db (rn_world ?q)) = Inr (Some sample_doc)"
    by (simp_all add: quiet_def sample_found)
  obtain s where s: "?R ?q s" "rn_world s = (rn_world ?q)\<lparr>w_db := commit_delete sample_moment sample_doc (w_db (rn_world ?q))\<rparr>"
    "rn_jobs s = (rn_jobs ?q)(1 \<mapsto> Deleting ''acme'' 77 (DelDrop ?d))"
    by (rule delete_commits [OF rtranclp.rtrancl_refl q, where C = sample_codec and st = default_settings])
  have j: "rn_jobs s 1 = Some (Deleting ''acme'' 77 (DelDrop ?d))" "im_available (w_cache (rn_world s))"
    "\<not> (\<exists>k r. rn_jobs s k = Some (Getting ''acme'' 77 (GetFill r)))"
    "\<not> (\<exists>k r. rn_jobs s k = Some (Getting ''acme'' 77 (GetDone (Inr r))))"
    by (auto simp: s(2,3) quiet_def sample_found)
  obtain w1 where w1: "delete_resume inmemory_ops inmemory_publisher_ops (rn_clock s) sample_moment ''e'' ''now'' True ''acme'' 77
      (DelDrop ?d) (rn_world s) = (DelInvalidate ?d, w1)" by simp
  let ?s1 = "s\<lparr>rn_world := w1, rn_jobs := (rn_jobs s)(1 \<mapsto> Deleting ''acme'' 77 (DelInvalidate ?d))\<rparr>"
  have "await_step sample_codec default_settings s ?s1" by (rule await_step.resume_delete [OF j(1) w1])
  with s(1) have "?R ?q ?s1" by (rule rtranclp.rtrancl_into_rtrancl)
  moreover have False if "?R ?s1 s'" "rn_jobs s' k = Some (Getting ''acme'' 77 (GetDone (Inr r)))" for s' k r
  proof -
    have "rn_jobs s k = Some (Getting ''acme'' 77 (GetDone (Inr r)))"
      by (rule delete_final [where C = sample_codec and st = default_settings and T = 1 and w = sample_doc_world and i = 1])
        (fact s(1) sample_hypotheses(1,4) sample_found(3) j(1-3) w1 that)+
    with j(4) show False by blast
  qed
  ultimately show ?thesis by (intro exI [of _ ?s1]) auto
qed

text \<open>
  C28: The other case: a read that took the row before a delete committed and fills the cache after the delete has
  dropped the entry leaves the deleted document in the cache, and it is served from there for the lifetime of the entry.
\<close>

theorem delete_read_race:
  assumes "db_inv (w_db w)" "repo_get tn u False (w_db w) = Inr (Some d)" "im_available (w_cache w)"
    "im_look T (w_cache w) (document_key tn (str_uuid u)) = None" "codec_ok C"
    "t1 \<le> T + of_int (document_cache_ttl_seconds st)"
  shows "\<exists>s. rtranclp (await_step C st) (quiet T w) s \<and> rn_jobs s 1 = Some (Deleting tn u (DelDone (Inr ()))) \<and>
    (\<exists>d'. row_of (w_db (rn_world s)) u = Some d' \<and> doc_status d' = DELETED) \<and>
    fst (ds_get inmemory_ops C st t1 t2 tn u (rn_world s)) = Inr (from_model d)"
proof -
  let ?k = "document_key tn (str_uuid u)" and ?R = "rtranclp (await_step C st) (quiet T w)"
  obtain s c where s: "?R s" "rn_clock s = T" "rn_world s = w\<lparr>w_cache := c\<rparr>" "im_available c"
    "rn_jobs s = [0 \<mapsto> Getting tn u (GetFill (from_model d))]"
    by (rule miss_then_fetch [OF assms(1-4)])
  have "rn_jobs s 1 = None" "repo_get tn u False (w_db (rn_world s)) = Inr (Some d)" by (simp_all add: s assms(2))
  from delete_commits [OF s(1) this]
  obtain a where a: "?R a" "rn_clock a = T" "rn_world a = w\<lparr>w_cache := c, w_db := commit_delete sample_moment d (w_db w)\<rparr>"
    "rn_jobs a = (rn_jobs s)(1 \<mapsto> Deleting tn u (DelDrop (deleted_row sample_moment d)))" using s(2,3) by auto
  then have "rn_jobs a 1 = Some (Deleting tn u (DelDrop (deleted_row sample_moment d)))" by simp
  from delete_completes [OF a(1) this]
  obtain b where b: "?R b" "rn_clock b = T" "rn_jobs b = (rn_jobs a)(1 \<mapsto> Deleting tn u (DelDone (Inr ())))"
    "w_db (rn_world b) = commit_delete sample_moment d (w_db w)"
    "w_cache (rn_world b) = invalidate_tenant inmemory_ops T tn (cc_delete inmemory_ops [?k] c)" using a(2,3) by auto
  have up: "im_available (w_cache (rn_world b))"
    by (simp add: b(5) invalidate_tenant_def imc.cc_incr_up imc.cc_delete_up s(4))
  have "rn_jobs b 0 = Some (Getting tn u (GetFill (from_model d)))" by (simp add: b(3) a(4) s(5))
  from go_get [OF b(1) this get_resume.simps(3)]
  obtain e where e: "?R e" "rn_world e = (rn_world b)\<lparr>w_cache := set_json inmemory_ops (rn_clock b) ?k (dump_doc C (from_model d))
      (document_cache_ttl_seconds st) (w_cache (rn_world b))\<rparr>" "rn_jobs e = (rn_jobs b)(0 \<mapsto> Getting tn u (GetDone (Inr (from_model d))))"
    by blast
  have "row_of (w_db w) u = Some d" "doc_id d = u" using repo_get_answers [OF assms(1,2)] by auto
  then have "\<exists>d'. row_of (w_db (rn_world e)) u = Some d' \<and> doc_status d' = DELETED"
    by (simp add: e(2) b(4) row_of_commit_delete)
  moreover have "fst (get_json inmemory_ops t1 ?k (w_cache (rn_world e))) = Some (dump_doc C (from_model d))"
    using imc.set_then_get_json [OF up] assms(5,6) by (simp add: e(2) b(2) codec_ok_def)
  then have "fst (ds_get inmemory_ops C st t1 t2 tn u (rn_world e)) = Inr (from_model d)"
    using assms(5) by (cases "get_json inmemory_ops t1 ?k (w_cache (rn_world e))") (auto simp: ds_get_def Let_def codec_ok_def)
  ultimately show ?thesis using e(1,3) b(3) by (intro exI [of _ e]) simp
qed

theorem delete_read_race_witness:
  "\<exists>s. rtranclp (await_step sample_codec default_settings) (quiet 1 sample_doc_world) s \<and>
    rn_jobs s 1 = Some (Deleting ''acme'' 77 (DelDone (Inr ()))) \<and>
    (\<exists>d'. row_of (w_db (rn_world s)) 77 = Some d' \<and> doc_status d' = DELETED) \<and>
    fst (ds_get inmemory_ops sample_codec default_settings 50 51 ''acme'' 77 (rn_world s)) = Inr (from_model sample_doc)"
  by (rule delete_read_race [OF sample_hypotheses(4) sample_found(1,2,4) sample_hypotheses(1)])
    (simp add: default_settings_def)

end
