(* ===== verification/Search_Interleaving.thy ===== *)
theory Search_Interleaving
  imports Interleaving
begin

text \<open>
  \<open>services/search_service.py\<close> under concurrency: searches, invalidations and changes of the index interleave at every
  \<open>await\<close>.  \<open>search_resume\<close> runs a search from the point where it waits to its next \<open>await\<close>: reading the
  generation, the lookup, the engine query, the fill.  A search whose lookup misses may instead join a search that is
  under way for the same key (\<open>_inflight\<close>; only in the same process, so joining is a choice of the step) and later take over its outcome.  The set \<open>V\<close> of the step relation says which states the
  index may change to.  The cache stays up; what an outage of the cache does is the theory \<open>Services\<close>.
\<close>

datatype search_point =
    SeGeneration
  | SeLookup int
  | SeQuery int
  | SeFill int search_response
  | SeJoined int nat
  | SeDone int "search_response result"

record search_job =
  sj_tenant :: string
  sj_query :: search_query
  sj_point :: search_point

fun search_resume ::
  "'c cache_ops \<Rightarrow> 'e engine_ops \<Rightarrow> codec \<Rightarrow> (string \<Rightarrow> string) \<Rightarrow> settings \<Rightarrow> real \<Rightarrow> int \<Rightarrow> real \<Rightarrow> string \<Rightarrow> search_query
   \<Rightarrow> search_point \<Rightarrow> 'c \<times> 'e \<Rightarrow> search_point \<times> 'c \<times> 'e" where
  "search_resume B E C hexdigest st t took rnd tenant_id query SeGeneration (c, e) =
     (case current_generation B t tenant_id c of (generation, c1) \<Rightarrow> (SeLookup generation, c1, e))"
| "search_resume B E C hexdigest st t took rnd tenant_id query (SeLookup g) (c, e) =
     (case get_json B t (query_key hexdigest tenant_id g query) c of
        (Some cached, c1) \<Rightarrow> (SeDone g (cached_response C took cached), c1, e)
      | (None, c1) \<Rightarrow> (SeQuery g, c1, e))"
| "search_resume B E C hexdigest st t took rnd tenant_id query (SeQuery g) (c, e) =
     (case execute E tenant_id query e of
        (Inl x, e1) \<Rightarrow> (SeDone g (Inl x), c, e1)
      | (Inr response, e1) \<Rightarrow> (SeFill g response, c, e1))"
| "search_resume B E C hexdigest st t took rnd tenant_id query (SeFill g response) (c, e) =
     (SeDone g (Inr response),
      set_json B t (query_key hexdigest tenant_id g query) (JObj (cacheable C response)) (search_ttl st rnd) c, e)"
| "search_resume B E C hexdigest st t took rnd tenant_id query (SeJoined g i) (c, e) = (SeJoined g i, c, e)"
| "search_resume B E C hexdigest st t took rnd tenant_id query (SeDone g r) (c, e) = (SeDone g r, c, e)"

fun point_generation :: "search_point \<Rightarrow> int option" where
  "point_generation SeGeneration = None"
| "point_generation (SeLookup g) = Some g"
| "point_generation (SeQuery g) = Some g"
| "point_generation (SeFill g r) = Some g"
| "point_generation (SeJoined g i) = Some g"
| "point_generation (SeDone g r) = Some g"

record searching =
  sg_clock :: real
  sg_cache :: inmemory_cache
  sg_engine :: inmemory_engine
  sg_jobs :: "nat \<Rightarrow> search_job option"

inductive search_step ::
  "codec \<Rightarrow> (string \<Rightarrow> string) \<Rightarrow> settings \<Rightarrow> (string list \<Rightarrow> string list) \<Rightarrow> inmemory_engine set \<Rightarrow> searching \<Rightarrow> searching \<Rightarrow> bool"
  for C hexdigest st set_order V where
  elapse: "sg_clock s \<le> T \<Longrightarrow> search_step C hexdigest st set_order V s (s\<lparr>sg_clock := T\<rparr>)"
| index_changes: "en \<in> V \<Longrightarrow> search_step C hexdigest st set_order V s (s\<lparr>sg_engine := en\<rparr>)"
| invalidate: "search_step C hexdigest st set_order V s
     (s\<lparr>sg_cache := invalidate_tenant inmemory_ops (sg_clock s) tn (sg_cache s)\<rparr>)"
| begin_search: "sg_jobs s i = None \<Longrightarrow> sq_tenant_id q = tn \<Longrightarrow>
     search_step C hexdigest st set_order V s
       (s\<lparr>sg_jobs := (sg_jobs s)(i \<mapsto> \<lparr>sj_tenant = tn, sj_query = q, sj_point = SeGeneration\<rparr>)\<rparr>)"
| resume_search: "sg_jobs s i = Some j \<Longrightarrow>
     search_resume inmemory_ops (inmemory_engine_ops set_order took0) C hexdigest st (sg_clock s) took rnd (sj_tenant j)
       (sj_query j) (sj_point j) (sg_cache s, sg_engine s) = (pt, c, en) \<Longrightarrow>
     search_step C hexdigest st set_order V s
       (s\<lparr>sg_cache := c, sg_engine := en, sg_jobs := (sg_jobs s)(i \<mapsto> j\<lparr>sj_point := pt\<rparr>)\<rparr>)"
| join: "sg_jobs s i = Some j \<Longrightarrow> sj_point j = SeLookup g \<Longrightarrow>
     get_json inmemory_ops (sg_clock s) (query_key hexdigest (sj_tenant j) g (sj_query j)) (sg_cache s) = (None, c) \<Longrightarrow>
     sg_jobs s k = Some l \<Longrightarrow> sj_point l = SeQuery g \<or> (\<exists>r. sj_point l = SeFill g r) \<Longrightarrow>
     query_key hexdigest (sj_tenant l) g (sj_query l) = query_key hexdigest (sj_tenant j) g (sj_query j) \<Longrightarrow>
     search_step C hexdigest st set_order V s
       (s\<lparr>sg_cache := c, sg_jobs := (sg_jobs s)(i \<mapsto> j\<lparr>sj_point := SeJoined g k\<rparr>)\<rparr>)"
| take_over: "sg_jobs s i = Some j \<Longrightarrow> sj_point j = SeJoined g k \<Longrightarrow> sg_jobs s k = Some l \<Longrightarrow> sj_point l = SeDone g r \<Longrightarrow>
     search_step C hexdigest st set_order V s (s\<lparr>sg_jobs := (sg_jobs s)(i \<mapsto> j\<lparr>sj_point := SeDone g r\<rparr>)\<rparr>)"

inductive_cases search_stepE: "search_step C hexdigest st set_order V s t"

definition response_ids :: "search_response \<Rightarrow> string set" where
  "response_ids r = sh_id ` set (sr_hits r)"

definition idle_searches :: "real \<Rightarrow> inmemory_cache \<Rightarrow> inmemory_engine \<Rightarrow> searching" where
  "idle_searches T c en = \<lparr>sg_clock = T, sg_cache = c, sg_engine = en, sg_jobs = Map.empty\<rparr>"

text \<open>From now to \<open>L\<close> the counter of the tenant reads \<open>m\<close>.\<close>

definition counter_reads :: "real \<Rightarrow> string \<Rightarrow> int \<Rightarrow> searching \<Rightarrow> bool" where
  "counter_reads L tn m s \<longleftrightarrow>
     0 \<le> m \<and> im_available (sg_cache s) \<and>
     (\<forall>n. sg_clock s \<le> n \<longrightarrow> n \<le> L \<longrightarrow>
        im_look n (sg_cache s) (search_generation_key tn) = (if m = 0 then None else Some (JsonText (JInt m))))"

text \<open>
  What is stored and held under generations from \<open>n\<close> on satisfies \<open>P\<close>, as do the searches of the tenant that have
  such a generation; a joined search waits for one with its generation.
\<close>

definition entries_from :: "codec \<Rightarrow> (string \<Rightarrow> string) \<Rightarrow> string \<Rightarrow> int \<Rightarrow> (search_response \<Rightarrow> bool) \<Rightarrow> searching \<Rightarrow> bool" where
  "entries_from C hexdigest tn n P s \<longleftrightarrow>
     (\<forall>now g q v. sg_clock s \<le> now \<longrightarrow> n \<le> g \<longrightarrow> im_look now (sg_cache s) (query_key hexdigest tn g q) = Some v \<longrightarrow>
        (\<exists>r. v = JsonText (JObj (cacheable C r)) \<and> P r))"

fun point_ok :: "int \<Rightarrow> (search_response \<Rightarrow> bool) \<Rightarrow> search_point \<Rightarrow> bool" where
  "point_ok n P (SeFill g r) \<longleftrightarrow> n \<le> g \<longrightarrow> P r"
| "point_ok n P (SeDone g (Inr r)) \<longleftrightarrow> n \<le> g \<longrightarrow> P r"
| "point_ok n P pt \<longleftrightarrow> True"

definition jobs_from :: "string \<Rightarrow> int \<Rightarrow> (search_response \<Rightarrow> bool) \<Rightarrow> searching \<Rightarrow> bool" where
  "jobs_from tn n P s \<longleftrightarrow>
     (\<forall>i j. sg_jobs s i = Some j \<longrightarrow> sj_tenant j = tn \<longrightarrow>
        sq_tenant_id (sj_query j) = tn \<and> point_ok n P (sj_point j) \<and>
        (\<forall>g k. sj_point j = SeJoined g k \<longrightarrow>
           (\<exists>l. sg_jobs s k = Some l \<and> sj_tenant l = tn \<and> point_generation (sj_point l) = Some g)))"

text \<open>Nothing exists yet beyond generation \<open>m\<close>.\<close>

definition bounded_by :: "(string \<Rightarrow> string) \<Rightarrow> string \<Rightarrow> int \<Rightarrow> searching \<Rightarrow> bool" where
  "bounded_by hexdigest tn m s \<longleftrightarrow>
     (\<forall>now g q. sg_clock s \<le> now \<longrightarrow> m < g \<longrightarrow> im_look now (sg_cache s) (query_key hexdigest tn g q) = None) \<and>
     (\<forall>i j g. sg_jobs s i = Some j \<longrightarrow> sj_tenant j = tn \<longrightarrow> point_generation (sj_point j) = Some g \<longrightarrow> g \<le> m)"

subsection \<open>One step of a search\<close>

lemma query_key_inject:
  "hex_text hexdigest \<Longrightarrow> query_key hexdigest t g q = query_key hexdigest t' g' q' \<Longrightarrow> t = t' \<and> g = g'"
  unfolding query_key_def by (drule (1) search_key_inject) blast

lemma query_key_not_generation: "hex_text hexdigest \<Longrightarrow> query_key hexdigest t g q \<noteq> search_generation_key t'"
  by (simp add: query_key_def search_key_not_generation)

lemma execute_visible:
  assumes "execute (inmemory_engine_ops so took0) tn q e = (res, e')"
  shows "e' = e \<and> (\<forall>r. res = Inr r \<longrightarrow> response_ids r \<subseteq> ie_visible e (sq_tenant_id q))"
proof (cases "ie_available e")
  case True
  obtain r where "execute (inmemory_engine_ops so took0) tn q e = (Inr r, e)"
    "\<forall>h \<in> set (sr_hits r). sh_id h \<in> ie_visible e (sq_tenant_id q)"
    by (rule ss.execute_ok [OF True])
  then show ?thesis using assms by (auto simp: response_ids_def)
next
  case False
  then show ?thesis using ss.execute_error [OF False, of so took0 tn q] assms by auto
qed

lemma current_generation_cache:
  "snd (current_generation B t tn c) = snd (get_json B t (search_generation_key tn) c)"
  by (simp add: current_generation_def split: prod.splits option.splits)

lemma search_resume_engine:
  "search_resume B (inmemory_engine_ops so took0) C hexdigest st t took rnd tn q pt (c, e) = (pt', c', e') \<Longrightarrow> e' = e"
  by (cases pt) (auto dest: execute_visible split: prod.splits option.splits sum.splits)

lemma search_resume_cache:
  assumes "search_resume inmemory_ops E C hexdigest st t took rnd tn q pt (c, e) = (pt', c', e')"
  obtains (read) k where "c' = snd (get_json inmemory_ops t k c)"
    | (same) "c' = c"
    | (fill) g r where "pt = SeFill g r"
        "c' = set_json inmemory_ops t (query_key hexdigest tn g q) (JObj (cacheable C r)) (search_ttl st rnd) c"
proof (cases pt)
  case SeGeneration
  then have "c' = snd (get_json inmemory_ops t (search_generation_key tn) c)"
    using assms current_generation_cache [of inmemory_ops t tn c] by (auto split: prod.splits)
  then show thesis by (rule read)
next
  case (SeLookup g)
  then have "c' = snd (get_json inmemory_ops t (query_key hexdigest tn g q) c)"
    using assms by (auto split: prod.splits option.splits)
  then show thesis by (rule read)
next
  case (SeQuery g)
  then show thesis using assms same by (auto split: prod.splits sum.splits)
qed (use assms same fill in auto)

lemma search_resume_generation:
  assumes "search_resume B E C hexdigest st t took rnd tn q pt (c, e) = (pt', c', e')"
  shows "point_generation pt' = point_generation pt \<or>
    (pt = SeGeneration \<and> pt' = SeLookup (fst (current_generation B t tn c)))"
  using assms by (cases pt) (auto split: prod.splits option.splits sum.splits)

lemma search_resume_joined:
  "search_resume B E C hexdigest st t took rnd tn q pt (c, e) = (SeJoined g k, c', e') \<Longrightarrow> pt = SeJoined g k"
  by (cases pt) (auto split: prod.splits option.splits sum.splits)

lemma search_resume_point:
  assumes "search_resume inmemory_ops (inmemory_engine_ops so took0) C hexdigest st t took rnd tn q pt (c, e) = (pt', c', e')"
    "codec_ok C" "point_ok n P pt" "sq_tenant_id q = tn" "\<And>r. response_ids r \<subseteq> ie_visible e tn \<Longrightarrow> P r"
    "\<And>r b m. P r \<Longrightarrow> P (r\<lparr>sr_took_ms := m, sr_cached := b\<rparr>)"
    "\<And>g v. n \<le> g \<Longrightarrow> im_look t c (query_key hexdigest tn g q) = Some v \<Longrightarrow> \<exists>r. v = JsonText (JObj (cacheable C r)) \<and> P r"
  shows "point_ok n P pt'"
proof (cases pt)
  case SeGeneration
  then show ?thesis using assms(1) by (auto split: prod.splits)
next
  case (SeLookup g)
  show ?thesis
  proof (cases "get_json inmemory_ops t (query_key hexdigest tn g q) c")
    case (Pair v c1)
    show ?thesis
    proof (cases v)
      case (Some j)
      have "P r" if "n \<le> g" "cached_response C took j = Inr r" for r
      proof -
        from Pair Some have "im_look t c (query_key hexdigest tn g q) = Some (JsonText j)" using get_json_hit by blast
        with assms(7) that(1) obtain r' where "j = JObj (cacheable C r')" "P r'" by blast
        with that(2) cached_response_cacheable [OF assms(2)] assms(6) show ?thesis by auto
      qed
      then show ?thesis using Pair Some SeLookup assms(1) by (cases "cached_response C took j") auto
    qed (use Pair SeLookup assms(1) in auto)
  qed
next
  case (SeQuery g)
  show ?thesis
    using execute_visible [of so took0 tn q e] SeQuery assms(1,4,5) by (auto split: prod.splits sum.splits)
qed (use assms(1,3) in auto)

subsection \<open>The counter\<close>

lemma counter_value:
  assumes "counter_reads L tn m s" "sg_clock s \<le> L"
  shows "fst (current_generation inmemory_ops (sg_clock s) tn (sg_cache s)) = m"
proof -
  have "im_available (sg_cache s)" "im_look (sg_clock s) (sg_cache s) (search_generation_key tn) =
      (if m = 0 then None else Some (JsonText (JInt m)))" using assms by (auto simp: counter_reads_def)
  from imc.get_json_value [OF this(1), of "sg_clock s" "search_generation_key tn"] this(2) show ?thesis
    by (cases "get_json inmemory_ops (sg_clock s) (search_generation_key tn) (sg_cache s)")
      (auto simp: current_generation_def split: if_splits)
qed

lemma counter_read:
  assumes "counter_reads L tn m s"
  shows "counter_reads L tn m (s\<lparr>sg_cache := snd (get_json inmemory_ops (sg_clock s) k (sg_cache s))\<rparr>)"
proof -
  have up: "im_available (sg_cache s)" using assms by (simp add: counter_reads_def)
  have "im_look n (snd (get_json inmemory_ops (sg_clock s) k (sg_cache s))) (search_generation_key tn) =
    im_look n (sg_cache s) (search_generation_key tn)" if "sg_clock s \<le> n" "n \<le> L" for n
  proof (cases "m = 0")
    case True
    then have "im_look n (sg_cache s) (search_generation_key tn) = None" using assms that by (simp add: counter_reads_def)
    then show ?thesis using imc.get_json_shrinks [OF that(1), of k "sg_cache s" "search_generation_key tn"]
      by (metis not_None_eq)
  next
    case False
    then have "im_look n (sg_cache s) (search_generation_key tn) = Some (JsonText (JInt m))"
      using assms that by (simp add: counter_reads_def)
    then show ?thesis using imc.get_json_look [OF up that(1)] by blast
  qed
  then show ?thesis using assms imc.get_json_up [OF up] by (simp add: counter_reads_def)
qed

lemma counter_fill:
  "hex_text hexdigest \<Longrightarrow> counter_reads L tn m s \<Longrightarrow>
   counter_reads L tn m (s\<lparr>sg_cache := set_json inmemory_ops t (query_key hexdigest tn' g q) v ttl (sg_cache s)\<rparr>)"
  using query_key_not_generation [of hexdigest tn' g q tn]
  by (auto simp: counter_reads_def imc.set_json_up imc.set_json_look)

lemma counter_invalidate_other:
  "tn' \<noteq> tn \<Longrightarrow> counter_reads L tn m s \<Longrightarrow>
   counter_reads L tn m (s\<lparr>sg_cache := invalidate_tenant inmemory_ops (sg_clock s) tn' (sg_cache s)\<rparr>)"
  by (auto simp: counter_reads_def invalidate_tenant_def imc.cc_incr_up imc.cc_incr_frame search_generation_key_inject)

lemma counter_invalidate:
  assumes "counter_reads L tn m s" "sg_clock s \<le> L" "L \<le> sg_clock s + 86400"
  shows "counter_reads L tn (m + 1) (s\<lparr>sg_cache := invalidate_tenant inmemory_ops (sg_clock s) tn (sg_cache s)\<rparr>)"
proof -
  let ?G = "search_generation_key tn" and ?c = "sg_cache s" and ?t = "sg_clock s"
  have up: "im_available ?c" and l: "im_look ?t ?c ?G = (if m = 0 then None else Some (JsonText (JInt m)))" and m: "0 \<le> m"
    using assms(1,2) by (auto simp: counter_reads_def)
  have inc: "invalidate_tenant inmemory_ops ?t tn ?c = snd (cincr inmemory_ops ?t ?G ?c)"
    by (auto simp: invalidate_tenant_def cc_incr_def split: prod.splits sum.splits)
  have "im_look ?t ?c ?G = None \<or> im_look ?t ?c ?G = Some (JsonText (JInt m))"
    "m + 1 = (if im_look ?t ?c ?G = None then 0 else m) + 1" using l by auto
  from imc.incr_counts [OF up this] have
    "\<forall>n. ?t \<le> n \<and> n \<le> ?t + 86400 \<longrightarrow> im_look n (snd (cincr inmemory_ops ?t ?G ?c)) ?G = Some (JsonText (JInt (m + 1)))" by blast
  with m assms(3) imc.incr_up [OF up, of ?t ?G] show ?thesis by (auto simp: counter_reads_def inc)
qed

lemma counter_frame:
  "counter_reads L tn m s \<Longrightarrow> sg_clock s \<le> sg_clock s' \<Longrightarrow> sg_cache s' = sg_cache s \<Longrightarrow> counter_reads L tn m s'"
  by (auto simp: counter_reads_def)

lemma counter_cong: "sg_clock s' = sg_clock s \<Longrightarrow> sg_cache s' = sg_cache s \<Longrightarrow> counter_reads L tn m s' = counter_reads L tn m s"
  by (simp add: counter_reads_def)

text \<open>A step keeps the counter, or it is an invalidation of this tenant and adds one.\<close>

lemma step_counter:
  assumes "search_step C hexdigest st so V s s'" "counter_reads L tn m s" "hex_text hexdigest" "sg_clock s \<le> L" "L \<le> sg_clock s + 86400"
  shows "counter_reads L tn m s' \<or>
    s' = s\<lparr>sg_cache := invalidate_tenant inmemory_ops (sg_clock s) tn (sg_cache s)\<rparr> \<and> counter_reads L tn (m + 1) s'"
  using assms(1)
proof cases
  case (invalidate tn')
  then show ?thesis using counter_invalidate [OF assms(2,4,5)] counter_invalidate_other [of tn' tn L m s, OF _ assms(2)]
    by (cases "tn' = tn") auto
next
  case (resume_search i j took0 took rnd pt c en)
  from resume_search(3) have "counter_reads L tn m (s\<lparr>sg_cache := c\<rparr>)"
  proof (cases rule: search_resume_cache)
    case (read k)
    then show ?thesis using counter_read [OF assms(2)] by simp
  next
    case same
    then show ?thesis using counter_frame [OF assms(2)] by simp
  next
    case (fill g r)
    then show ?thesis using counter_fill [OF assms(3,2)] by simp
  qed
  then show ?thesis using resume_search(1) by (simp add: counter_reads_def)
next
  case (join i j g c k l)
  have "c = snd (get_json inmemory_ops (sg_clock s) (query_key hexdigest (sj_tenant j) g (sj_query j)) (sg_cache s))"
    using join(4) by simp
  then have "counter_reads L tn m (s\<lparr>sg_cache := c\<rparr>)" using counter_read [OF assms(2)] by simp
  then show ?thesis using join(1) by (simp add: counter_reads_def)
qed (use counter_frame [OF assms(2)] in auto)

subsection \<open>Entries and jobs\<close>

text \<open>A search entry visible after a step was visible before, or a search of that key has just stored its response.\<close>

lemma step_entries_from:
  assumes "search_step C hexdigest st so V s s'" "hex_text hexdigest" "sg_clock s' \<le> now"
    "im_look now (sg_cache s') (query_key hexdigest tn g q) = Some v"
  shows "im_look now (sg_cache s) (query_key hexdigest tn g q) = Some v \<or>
    (\<exists>i j r. sg_jobs s i = Some j \<and> sj_tenant j = tn \<and> sj_point j = SeFill g r \<and> v = JsonText (JObj (cacheable C r)))"
  using assms(1)
proof cases
  case (invalidate tn')
  have "query_key hexdigest tn g q \<noteq> search_generation_key tn'" by (rule query_key_not_generation [OF assms(2)])
  then show ?thesis using invalidate assms(3,4)
    by (cases "im_available (sg_cache s)") (auto simp: invalidate_tenant_def imc.cc_incr_frame imc.cc_incr_down)
next
  case (resume_search i j took0 took rnd pt c en)
  from resume_search(3) show ?thesis
  proof (cases rule: search_resume_cache)
    case (read k)
    then have "im_look now (snd (get_json inmemory_ops (sg_clock s) k (sg_cache s))) (query_key hexdigest tn g q) = Some v"
      using assms(4) resume_search(1) by simp
    moreover have "sg_clock s \<le> now" using assms(3) resume_search(1) by simp
    ultimately show ?thesis using imc.get_json_shrinks by blast
  next
    case same
    then show ?thesis using assms(4) resume_search(1) by simp
  next
    case (fill g' r)
    have "im_look now (set_json inmemory_ops (sg_clock s) (query_key hexdigest (sj_tenant j) g' (sj_query j)) (JObj (cacheable C r))
        (search_ttl st rnd) (sg_cache s)) (query_key hexdigest tn g q) = Some v"
      using assms(4) resume_search(1) fill(2) by simp
    from set_json_im_look [OF this] show ?thesis using query_key_inject [OF assms(2)] resume_search(2) fill(1) by metis
  qed
next
  case (join i j g' c k l)
  then show ?thesis
    using imc.get_json_shrinks [of "sg_clock s" now "query_key hexdigest (sj_tenant j) g' (sj_query j)" "sg_cache s"] assms(3,4)
    by simp
qed (use assms(4) in auto)

lemma step_clock: "search_step C hexdigest st so V s s' \<Longrightarrow> sg_clock s \<le> sg_clock s'"
  by (erule search_stepE) auto

lemma step_entries:
  assumes "search_step C hexdigest st so V s s'" "hex_text hexdigest" "entries_from C hexdigest tn n P s" "jobs_from tn n P s"
  shows "entries_from C hexdigest tn n P s'"
  unfolding entries_from_def
proof (intro allI impI)
  fix now g q v
  assume h: "sg_clock s' \<le> now" "n \<le> g" "im_look now (sg_cache s') (query_key hexdigest tn g q) = Some v"
  have now: "sg_clock s \<le> now" using h(1) step_clock [OF assms(1)] by simp
  from step_entries_from [OF assms(1,2) h(1,3)]
  show "\<exists>r. v = JsonText (JObj (cacheable C r)) \<and> P r"
  proof
    assume "im_look now (sg_cache s) (query_key hexdigest tn g q) = Some v"
    then show ?thesis using assms(3) now h(2) unfolding entries_from_def by blast
  next
    assume "\<exists>i j r. sg_jobs s i = Some j \<and> sj_tenant j = tn \<and> sj_point j = SeFill g r \<and> v = JsonText (JObj (cacheable C r))"
    then obtain i j r where j: "sg_jobs s i = Some j" "sj_tenant j = tn" "sj_point j = SeFill g r" "v = JsonText (JObj (cacheable C r))"
      by blast
    with assms(4) have "point_ok n P (SeFill g r)" unfolding jobs_from_def by metis
    with j h(2) show ?thesis by auto
  qed
qed

text \<open>How a step changes the jobs: one job moves, keeping its tenant and query, and its generation once it has read it.\<close>

lemma step_job:
  assumes "search_step C hexdigest st so V s s'" "sg_jobs s' i = Some j'"
  shows "sg_jobs s i = Some j' \<or>
    (sg_jobs s i = None \<and> sj_point j' = SeGeneration \<and> sq_tenant_id (sj_query j') = sj_tenant j') \<or>
    (\<exists>j. sg_jobs s i = Some j \<and> sj_tenant j' = sj_tenant j \<and> sj_query j' = sj_query j \<and>
       (point_generation (sj_point j') = point_generation (sj_point j) \<or>
        sj_point j = SeGeneration \<and>
        sj_point j' = SeLookup (fst (current_generation inmemory_ops (sg_clock s) (sj_tenant j) (sg_cache s)))))"
  using assms(1)
proof cases
  case (resume_search k j took0 took rnd pt c en)
  then show ?thesis using assms(2) search_resume_generation [OF resume_search(3)] by (auto split: if_splits)
qed (use assms(2) in \<open>auto split: if_splits\<close>)

lemma step_job_kept:
  assumes "search_step C hexdigest st so V s s'" "sg_jobs s k = Some l"
  shows "\<exists>l'. sg_jobs s' k = Some l' \<and> sj_tenant l' = sj_tenant l \<and>
    (\<forall>g. point_generation (sj_point l) = Some g \<longrightarrow> point_generation (sj_point l') = Some g)"
  using assms(1)
proof cases
  case (resume_search i j took0 took rnd pt c en)
  then show ?thesis using assms(2) search_resume_generation [OF resume_search(3)] by auto
qed (use assms(2) in \<open>auto split: if_splits\<close>)

lemma step_bounded:
  assumes "search_step C hexdigest st so V s s'" "hex_text hexdigest" "bounded_by hexdigest tn m s" "counter_reads L tn m s"
    "sg_clock s \<le> L"
  shows "bounded_by hexdigest tn m s'"
proof -
  have jobs: "\<And>i j g. sg_jobs s i = Some j \<Longrightarrow> sj_tenant j = tn \<Longrightarrow> point_generation (sj_point j) = Some g \<Longrightarrow> g \<le> m"
    and entries: "\<And>now g q. sg_clock s \<le> now \<Longrightarrow> m < g \<Longrightarrow> im_look now (sg_cache s) (query_key hexdigest tn g q) = None"
    using assms(3) by (auto simp: bounded_by_def)
  have "im_look now (sg_cache s') (query_key hexdigest tn g q) = None" if "sg_clock s' \<le> now" "m < g" for now g q
  proof (rule ccontr)
    assume "im_look now (sg_cache s') (query_key hexdigest tn g q) \<noteq> None"
    then obtain v where "im_look now (sg_cache s') (query_key hexdigest tn g q) = Some v" by blast
    from step_entries_from [OF assms(1,2) that(1) this] entries [of now g q] that step_clock [OF assms(1)]
    obtain i j r where "sg_jobs s i = Some j" "sj_tenant j = tn" "sj_point j = SeFill g r" by auto
    with jobs [of i j g] that(2) show False by simp
  qed
  moreover have "g \<le> m" if "sg_jobs s' i = Some j'" "sj_tenant j' = tn" "point_generation (sj_point j') = Some g" for i j' g
    using step_job [OF assms(1) that(1)] that(2,3) jobs counter_value [OF assms(4,5)] by auto
  ultimately show ?thesis by (auto simp: bounded_by_def)
qed

lemma step_jobs_from:
  assumes "search_step C hexdigest st so V s s'" "codec_ok C" "entries_from C hexdigest tn n P s" "jobs_from tn n P s"
    "hex_text hexdigest" "\<And>r. response_ids r \<subseteq> ie_visible (sg_engine s) tn \<Longrightarrow> P r" "\<And>r b m. P r \<Longrightarrow> P (r\<lparr>sr_took_ms := m, sr_cached := b\<rparr>)"
  shows "jobs_from tn n P s'"
proof -
  have old: "sq_tenant_id (sj_query j) = tn" "point_ok n P (sj_point j)"
    "\<And>g k. sj_point j = SeJoined g k \<Longrightarrow> \<exists>l. sg_jobs s k = Some l \<and> sj_tenant l = tn \<and> point_generation (sj_point l) = Some g"
    if "sg_jobs s i = Some j" "sj_tenant j = tn" for i j
    using assms(4) that unfolding jobs_from_def by blast+
  have keep: "\<exists>l'. sg_jobs s' k = Some l' \<and> sj_tenant l' = tn \<and> point_generation (sj_point l') = Some g"
    if "sg_jobs s k = Some l" "sj_tenant l = tn" "point_generation (sj_point l) = Some g" for k l g
    using step_job_kept [OF assms(1) that(1)] that(2,3) by metis
  have "sq_tenant_id (sj_query j') = tn \<and> point_ok n P (sj_point j') \<and>
      (\<forall>g k. sj_point j' = SeJoined g k \<longrightarrow>
         (\<exists>l. sg_jobs s k = Some l \<and> sj_tenant l = tn \<and> point_generation (sj_point l) = Some g))"
    if j': "sg_jobs s' i = Some j'" "sj_tenant j' = tn" for i j'
    using assms(1)
  proof cases
    case (resume_search k j took0 took rnd pt c en)
    show ?thesis
    proof (cases "i = k")
      case True
      then have j: "j' = j\<lparr>sj_point := pt\<rparr>" "sj_tenant j = tn" using j' resume_search(1) by auto
      note o = old [OF resume_search(2) j(2)]
      have "point_ok n P pt"
        by (rule search_resume_point [OF resume_search(3) assms(2) o(2)])
          (use o(1) j(2) assms(3,6,7) in \<open>auto simp: entries_from_def\<close>)
      moreover have "sj_point j = SeJoined g k" if "pt = SeJoined g k" for g k
        by (rule search_resume_joined [OF resume_search(3) [unfolded that]])
      ultimately show ?thesis using o j by auto
    next
      case False
      then show ?thesis using old j' resume_search(1) by auto
    qed
  next
    case (join k j g c k' l)
    have "sj_tenant l = sj_tenant j" using query_key_inject [OF assms(5) join(7)] by blast
    moreover have "point_generation (sj_point l) = Some g" using join(6) by auto
    ultimately show ?thesis using old [of k j] old [of i j'] j' join by (auto split: if_splits)
  next
    case (take_over k j g k' l r)
    show ?thesis
    proof (cases "i = k")
      case True
      then have j: "j' = j\<lparr>sj_point := SeDone g r\<rparr>" "sj_tenant j = tn" using j' take_over(1) by auto
      note o = old [OF take_over(2) j(2)]
      have "sj_tenant l = tn" using o(3) [OF take_over(3)] take_over(4) by simp
      from old(2) [OF take_over(4) this] take_over(5) o(1) j show ?thesis by simp
    next
      case False
      then show ?thesis using old j' take_over(1) by auto
    qed
  qed (use old j' in \<open>auto split: if_splits\<close>)
  then show ?thesis unfolding jobs_from_def using keep by blast
qed

subsection \<open>Before and after an invalidation\<close>

lemma step_engine: "search_step C hexdigest st so V s s' \<Longrightarrow> sg_engine s' = sg_engine s \<or> sg_engine s' \<in> V"
  by (erule search_stepE) (auto dest: search_resume_engine)

lemma reach_clock: "rtranclp (search_step C hexdigest st so V) s s' \<Longrightarrow> sg_clock s \<le> sg_clock s'"
  by (induction rule: rtranclp_induct) (auto dest: step_clock)

lemma reach_bounded:
  assumes "rtranclp (search_step C hexdigest st so V) (idle_searches T c en) s" "im_available c" "im_store c = []"
    "codec_ok C" "hex_text hexdigest" "L = T + 86400" "sg_clock s \<le> L"
  shows "\<exists>m. counter_reads L tn m s \<and> bounded_by hexdigest tn m s \<and> entries_from C hexdigest tn 0 (\<lambda>_. True) s \<and>
    jobs_from tn 0 (\<lambda>_. True) s"
  using assms(1,7)
proof (induction rule: rtranclp_induct)
  case base
  have "im_look n c k = None" for n k using assms(3) by (simp add: im_look_def)
  then show ?case using assms(2)
    by (intro exI [of _ 0]) (simp add: counter_reads_def bounded_by_def entries_from_def jobs_from_def idle_searches_def)
next
  case (step y z)
  have y: "sg_clock y \<le> L" using step_clock [OF step(2)] step(4) by simp
  have L: "L \<le> sg_clock y + 86400" using reach_clock [OF step(1)] assms(6) by (simp add: idle_searches_def)
  obtain m where m: "counter_reads L tn m y" "bounded_by hexdigest tn m y" "entries_from C hexdigest tn 0 (\<lambda>_. True) y"
    "jobs_from tn 0 (\<lambda>_. True) y" using step(3) y by blast
  have b: "bounded_by hexdigest tn m z" by (rule step_bounded [OF step(2) assms(5) m(2,1) y])
  then have "bounded_by hexdigest tn (m + 1) z" by (force simp: bounded_by_def)
  moreover have "counter_reads L tn m z \<or> counter_reads L tn (m + 1) z" using step_counter [OF step(2) m(1) assms(5) y L] by blast
  moreover have "entries_from C hexdigest tn 0 (\<lambda>_. True) z" by (rule step_entries [OF step(2) assms(5) m(3,4)])
  moreover have "jobs_from tn 0 (\<lambda>_. True) z" by (rule step_jobs_from [OF step(2) assms(4) m(3,4) assms(5)]) auto
  ultimately show ?case using b by blast
qed

text \<open>What holds from an invalidation on: everything under the generations from \<open>n\<close> on is free of \<open>u\<close>, and so is the index.\<close>

definition purged :: "codec \<Rightarrow> (string \<Rightarrow> string) \<Rightarrow> real \<Rightarrow> string \<Rightarrow> string \<Rightarrow> int \<Rightarrow> nat set \<Rightarrow> searching \<Rightarrow> bool" where
  "purged C hexdigest L tn u n K s \<longleftrightarrow>
     (\<exists>m \<ge> n. counter_reads L tn m s) \<and> u \<notin> ie_visible (sg_engine s) tn \<and>
     entries_from C hexdigest tn n (\<lambda>r. u \<notin> response_ids r) s \<and> jobs_from tn n (\<lambda>r. u \<notin> response_ids r) s \<and>
     (\<forall>k \<in> K. \<forall>j g. sg_jobs s k = Some j \<longrightarrow> sj_tenant j = tn \<longrightarrow> point_generation (sj_point j) = Some g \<longrightarrow> n \<le> g)"

lemma purged_step:
  assumes "search_step C hexdigest st so {en. u \<notin> ie_visible en tn} s s'" "purged C hexdigest L tn u n K s" "codec_ok C"
    "hex_text hexdigest" "sg_clock s \<le> L" "L \<le> sg_clock s + 86400"
  shows "purged C hexdigest L tn u n K s'"
proof -
  obtain m where m: "n \<le> m" "counter_reads L tn m s" using assms(2) by (auto simp: purged_def)
  have e: "entries_from C hexdigest tn n (\<lambda>r. u \<notin> response_ids r) s" and j: "jobs_from tn n (\<lambda>r. u \<notin> response_ids r) s"
    and v: "u \<notin> ie_visible (sg_engine s) tn"
    and K: "\<And>k j g. k \<in> K \<Longrightarrow> sg_jobs s k = Some j \<Longrightarrow> sj_tenant j = tn \<Longrightarrow> point_generation (sj_point j) = Some g \<Longrightarrow> n \<le> g"
    using assms(2) by (auto simp: purged_def)
  have "\<exists>m \<ge> n. counter_reads L tn m s'" using step_counter [OF assms(1) m(2) assms(4-6)] m(1) by (meson add_increasing2 order.trans zero_le_one)
  moreover have "u \<notin> ie_visible (sg_engine s') tn" using step_engine [OF assms(1)] v by auto
  moreover have "entries_from C hexdigest tn n (\<lambda>r. u \<notin> response_ids r) s'" by (rule step_entries [OF assms(1,4) e j])
  moreover have "jobs_from tn n (\<lambda>r. u \<notin> response_ids r) s'"
    by (rule step_jobs_from [OF assms(1,3) e j assms(4)]) (use v in \<open>auto simp: response_ids_def\<close>)
  moreover have "n \<le> g" if "k \<in> K" "sg_jobs s' k = Some l" "sj_tenant l = tn" "point_generation (sj_point l) = Some g" for k l g
    using step_job [OF assms(1) that(2)] that K [of k] counter_value [OF m(2) assms(5)] m(1) by auto
  ultimately show ?thesis by (simp add: purged_def)
qed

lemma purged_reach:
  assumes "rtranclp (search_step C hexdigest st so {en. u \<notin> ie_visible en tn}) s s'" "purged C hexdigest L tn u n K s" "codec_ok C"
    "hex_text hexdigest" "L \<le> sg_clock s + 86400" "sg_clock s' \<le> L"
  shows "purged C hexdigest L tn u n K s'"
  using assms(1,6)
proof (induction rule: rtranclp_induct)
  case base
  then show ?case using assms(2) by simp
next
  case (step y z)
  have "sg_clock y \<le> L" using step_clock [OF step(2)] step(4) by simp
  with step(3) have "purged C hexdigest L tn u n K y" by blast
  from purged_step [OF step(2) this assms(3,4) \<open>sg_clock y \<le> L\<close>] reach_clock [OF step(1)] assms(5) show ?case by simp
qed

lemma invalidate_purges:
  assumes "counter_reads L tn m s" "bounded_by hexdigest tn m s" "jobs_from tn 0 (\<lambda>_. True) s" "u \<notin> ie_visible (sg_engine s) tn"
    "hex_text hexdigest" "sg_clock s \<le> L" "L \<le> sg_clock s + 86400"
  shows "purged C hexdigest L tn u (m + 1) {k. \<forall>j. sg_jobs s k = Some j \<longrightarrow> sj_point j = SeGeneration}
    (s\<lparr>sg_cache := invalidate_tenant inmemory_ops (sg_clock s) tn (sg_cache s)\<rparr>)" (is "purged C hexdigest L tn u _ ?K ?s")
proof -
  have "search_step C hexdigest default_settings id {} s ?s" by (rule search_step.invalidate)
  from step_bounded [OF this assms(5,2,1,6)] have "bounded_by hexdigest tn m ?s" .
  then have b: "\<And>now g q. sg_clock ?s \<le> now \<Longrightarrow> m < g \<Longrightarrow> im_look now (sg_cache ?s) (query_key hexdigest tn g q) = None"
    "\<And>i j g. sg_jobs ?s i = Some j \<Longrightarrow> sj_tenant j = tn \<Longrightarrow> point_generation (sj_point j) = Some g \<Longrightarrow> g \<le> m"
    unfolding bounded_by_def by blast+
  have "entries_from C hexdigest tn (m + 1) (\<lambda>r. u \<notin> response_ids r) ?s" using b(1) by (auto simp: entries_from_def)
  moreover have "point_ok (m + 1) P (sj_point j)" if "sg_jobs s i = Some j" "sj_tenant j = tn" for i j P
    using b(2) [of i j] that by (cases "(m + 1, P, sj_point j)" rule: point_ok.cases) fastforce+
  then have "jobs_from tn (m + 1) (\<lambda>r. u \<notin> response_ids r) ?s" using assms(3) by (simp add: jobs_from_def)
  moreover have "counter_reads L tn (m + 1) ?s" by (rule counter_invalidate [OF assms(1,6,7)])
  ultimately show ?thesis using assms(4) by (auto simp: purged_def)
qed

subsection \<open>Without interruption\<close>

definition search_run ::
  "'c cache_ops \<Rightarrow> 'e engine_ops \<Rightarrow> codec \<Rightarrow> (string \<Rightarrow> string) \<Rightarrow> settings \<Rightarrow> real \<Rightarrow> real \<Rightarrow> real \<Rightarrow> int \<Rightarrow> real \<Rightarrow> string
   \<Rightarrow> search_query \<Rightarrow> 'c \<times> 'e \<Rightarrow> search_point \<times> 'c \<times> 'e" where
  "search_run B E C hexdigest st t1 t2 t3 took rnd tn q ce =
     (let go = (\<lambda>t (pt, w). search_resume B E C hexdigest st t took rnd tn q pt w)
      in go t3 (go t3 (go t2 (go t1 (SeGeneration, ce)))))"

lemma search_run_eq:
  "\<exists>g. search_run B E C hexdigest st t1 t2 t3 took rnd tn q ce =
    (case search_service_search B E C hexdigest st t1 t2 t3 took rnd tn q ce of (r, ce') \<Rightarrow> (SeDone g r, ce'))"
proof -
  obtain c e where ce: "ce = (c, e)" by force
  obtain g c1 where g: "current_generation B t1 tn c = (g, c1)" by force
  obtain v c2 where v: "get_json B t2 (query_key hexdigest tn g q) c1 = (v, c2)" by force
  obtain r e1 where r: "execute E tn q e = (r, e1)" by force
  show ?thesis
    by (intro exI [of _ g], cases v; cases r)
      (simp_all add: search_run_def search_service_search_def single_flight_def ce g v r Let_def)
qed

lemma go_search:
  assumes "rtranclp (search_step C hexdigest st so V) s0 s" "sg_jobs s i = Some j"
    "search_resume inmemory_ops (inmemory_engine_ops so took0) C hexdigest st (sg_clock s) took rnd (sj_tenant j)
       (sj_query j) (sj_point j) (sg_cache s, sg_engine s) = (pt, c, en)"
  obtains s' where "rtranclp (search_step C hexdigest st so V) s0 s'" "sg_clock s' = sg_clock s" "sg_cache s' = c"
    "sg_engine s' = en" "sg_jobs s' = (sg_jobs s)(i \<mapsto> j\<lparr>sj_point := pt\<rparr>)"
proof -
  have "search_step C hexdigest st so V s (s\<lparr>sg_cache := c, sg_engine := en, sg_jobs := (sg_jobs s)(i \<mapsto> j\<lparr>sj_point := pt\<rparr>)\<rparr>)"
    by (rule search_step.resume_search [OF assms(2,3)])
  with assms(1) have "rtranclp (search_step C hexdigest st so V) s0
      (s\<lparr>sg_cache := c, sg_engine := en, sg_jobs := (sg_jobs s)(i \<mapsto> j\<lparr>sj_point := pt\<rparr>)\<rparr>)" by (rule rtranclp.rtrancl_into_rtrancl)
  then show thesis by (rule that) simp_all
qed

text \<open>A search that finds an empty cache runs to the answer of the engine.\<close>

lemma cold_search_runs:
  assumes "sg_jobs s i = None" "im_available (sg_cache s)" "ie_available (sg_engine s)" "hex_text hexdigest" "sq_tenant_id q = tn"
    "\<And>g. im_look (sg_clock s) (sg_cache s) (query_key hexdigest tn g q) = None"
  obtains s' g r where "rtranclp (search_step C hexdigest st so V) s s'" "sg_clock s' = sg_clock s"
    "sg_jobs s' = (sg_jobs s)(i \<mapsto> \<lparr>sj_tenant = tn, sj_query = q, sj_point = SeDone g (Inr r)\<rparr>)"
proof -
  let ?R = "rtranclp (search_step C hexdigest st so V) s" and ?j = "\<lambda>pt. \<lparr>sj_tenant = tn, sj_query = q, sj_point = pt\<rparr>"
  let ?s1 = "s\<lparr>sg_jobs := (sg_jobs s)(i \<mapsto> ?j SeGeneration)\<rparr>"
  have "search_step C hexdigest st so V s ?s1" by (rule search_step.begin_search [OF assms(1,5)])
  then have s1: "?R ?s1" by (rule r_into_rtranclp)
  obtain g c1 where g: "current_generation inmemory_ops (sg_clock s) tn (sg_cache s) = (g, c1)" by force
  then have c1: "c1 = snd (get_json inmemory_ops (sg_clock s) (search_generation_key tn) (sg_cache s))"
    using current_generation_cache [of inmemory_ops "sg_clock s" tn "sg_cache s"] by simp
  have up: "im_available c1" unfolding c1 by (rule imc.get_json_up [OF assms(2)])
  have "im_look (sg_clock s) c1 (query_key hexdigest tn g q) = None"
    using imc.get_json_shrinks [of "sg_clock s" "sg_clock s"] assms(6) [of g] unfolding c1 by (metis not_None_eq order.refl)
  then obtain c2 where c2: "get_json inmemory_ops (sg_clock s) (query_key hexdigest tn g q) c1 = (None, c2)"
    using imc.get_json_value [OF up, of "sg_clock s" "query_key hexdigest tn g q"]
    by (cases "get_json inmemory_ops (sg_clock s) (query_key hexdigest tn g q) c1") auto
  obtain r where r: "execute (inmemory_engine_ops so 0) tn q (sg_engine s) = (Inr r, sg_engine s)"
    by (rule ss.execute_ok [OF assms(3)])
  have "search_resume inmemory_ops (inmemory_engine_ops so 0) C hexdigest st (sg_clock ?s1) 0 0 (sj_tenant (?j SeGeneration))
      (sj_query (?j SeGeneration)) (sj_point (?j SeGeneration)) (sg_cache ?s1, sg_engine ?s1) = (SeLookup g, c1, sg_engine s)"
    by (simp add: g)
  from go_search [OF s1 _ this, of i]
  obtain s2 where s2: "?R s2" "sg_clock s2 = sg_clock s" "sg_cache s2 = c1" "sg_engine s2 = sg_engine s"
    "sg_jobs s2 = (sg_jobs s)(i \<mapsto> ?j (SeLookup g))" by auto
  have "search_resume inmemory_ops (inmemory_engine_ops so 0) C hexdigest st (sg_clock s2) 0 0 (sj_tenant (?j (SeLookup g)))
      (sj_query (?j (SeLookup g))) (sj_point (?j (SeLookup g))) (sg_cache s2, sg_engine s2) = (SeQuery g, c2, sg_engine s)"
    by (simp add: s2 c2)
  from go_search [OF s2(1) _ this, of i]
  obtain s3 where s3: "?R s3" "sg_clock s3 = sg_clock s" "sg_cache s3 = c2" "sg_engine s3 = sg_engine s"
    "sg_jobs s3 = (sg_jobs s)(i \<mapsto> ?j (SeQuery g))" using s2 by auto
  have "search_resume inmemory_ops (inmemory_engine_ops so 0) C hexdigest st (sg_clock s3) 0 0 (sj_tenant (?j (SeQuery g)))
      (sj_query (?j (SeQuery g))) (sj_point (?j (SeQuery g))) (sg_cache s3, sg_engine s3) = (SeFill g r, c2, sg_engine s)"
    by (simp add: s3 r)
  from go_search [OF s3(1) _ this, of i]
  obtain s4 where s4: "?R s4" "sg_clock s4 = sg_clock s" "sg_cache s4 = c2" "sg_engine s4 = sg_engine s"
    "sg_jobs s4 = (sg_jobs s)(i \<mapsto> ?j (SeFill g r))" using s3 by auto
  let ?c3 = "set_json inmemory_ops (sg_clock s) (query_key hexdigest tn g q) (JObj (cacheable C r)) (search_ttl st 0) c2"
  have "search_resume inmemory_ops (inmemory_engine_ops so 0) C hexdigest st (sg_clock s4) 0 0 (sj_tenant (?j (SeFill g r)))
      (sj_query (?j (SeFill g r))) (sj_point (?j (SeFill g r))) (sg_cache s4, sg_engine s4) = (SeDone g (Inr r), ?c3, sg_engine s)"
    by (simp add: s4(2-4))
  from go_search [OF s4(1) _ this, of i]
  obtain s5 where s5: "?R s5" "sg_clock s5 = sg_clock s" "sg_jobs s5 = (sg_jobs s)(i \<mapsto> ?j (SeDone g (Inr r)))"
    using s4(2,5) by auto
  show thesis by (rule that [OF s5])
qed

subsection \<open>Properties\<close>

text \<open>
  Run without interruption, the points of a search are exactly the search of the service, whatever the cache, the engine and
  the clock readings.
\<close>

theorem search_points_refine:
  "\<exists>g. search_run B E C hexdigest st t1 t2 t3 took rnd tn q ce =
    (case search_service_search B E C hexdigest st t1 t2 t3 took rnd tn q ce of (r, ce') \<Rightarrow> (SeDone g r, ce'))"
  by (rule search_run_eq)

text \<open>
  C30: Once the index no longer shows a document and the results of the tenant were invalidated, no search that reads its
  generation later returns the document, however searches, invalidations and index changes race, as long as the index
  does not take the document back, the cache stays up and the generation counter lives (a day).
\<close>

theorem purged_search:
  assumes "rtranclp (search_step C hexdigest st so UNIV) (idle_searches T c en) s" "im_available c" "im_store c = []"
    "codec_ok C" "hex_text hexdigest" "u \<notin> ie_visible (sg_engine s) tn"
    "rtranclp (search_step C hexdigest st so {en. u \<notin> ie_visible en tn})
       (s\<lparr>sg_cache := invalidate_tenant inmemory_ops (sg_clock s) tn (sg_cache s)\<rparr>) s'" "sg_clock s' \<le> T + 86400"
    "\<forall>j. sg_jobs s k = Some j \<longrightarrow> sj_point j = SeGeneration"
    "sg_jobs s' k = Some \<lparr>sj_tenant = tn, sj_query = q, sj_point = SeDone g (Inr r)\<rparr>"
  shows "u \<notin> response_ids r"
proof -
  let ?s1 = "s\<lparr>sg_cache := invalidate_tenant inmemory_ops (sg_clock s) tn (sg_cache s)\<rparr>" and ?L = "T + 86400"
  let ?K = "{k. \<forall>j. sg_jobs s k = Some j \<longrightarrow> sj_point j = SeGeneration}"
  have clock: "T \<le> sg_clock s" "sg_clock s \<le> ?L"
    using reach_clock [OF assms(1)] reach_clock [OF assms(7)] assms(8) by (simp_all add: idle_searches_def)
  obtain m where m: "counter_reads ?L tn m s" "bounded_by hexdigest tn m s" "jobs_from tn 0 (\<lambda>_. True) s"
    using reach_bounded [OF assms(1-5) refl clock(2)] by blast
  have "purged C hexdigest ?L tn u (m + 1) ?K ?s1"
    by (rule invalidate_purges [OF m assms(6,5) clock(2)]) (use clock in simp)
  from purged_reach [OF assms(7) this assms(4,5)] clock assms(8)
  have p: "purged C hexdigest ?L tn u (m + 1) ?K s'" by simp
  then have "m + 1 \<le> g" using assms(9,10) by (force simp: purged_def)
  moreover have "point_ok (m + 1) (\<lambda>r. u \<notin> response_ids r) (SeDone g (Inr r))"
    using p assms(10) unfolding purged_def jobs_from_def by force
  ultimately show ?thesis by simp
qed

theorem purged_search_witness:
  "\<exists>s g r. rtranclp (search_step sample_codec sample_digest default_settings id {en. ''gone'' \<notin> ie_visible en ''acme''})
      (idle_searches 1 (invalidate_tenant inmemory_ops 1 ''acme'' new_inmemory_cache) sample_engine) s \<and>
     sg_jobs s 0 = Some \<lparr>sj_tenant = ''acme'', sj_query = sample_query, sj_point = SeDone g (Inr r)\<rparr> \<and> ''gone'' \<notin> response_ids r"
proof -
  let ?c = "invalidate_tenant inmemory_ops 1 ''acme'' new_inmemory_cache" and ?V = "{en. ''gone'' \<notin> ie_visible en ''acme''}"
  let ?s0 = "idle_searches 1 new_inmemory_cache sample_engine" and ?s1 = "idle_searches 1 ?c sample_engine"
  have s1: "?s0\<lparr>sg_cache := invalidate_tenant inmemory_ops (sg_clock ?s0) ''acme'' (sg_cache ?s0)\<rparr> = ?s1"
    by (simp add: idle_searches_def)
  have up: "im_available ?c" by (simp add: invalidate_tenant_def imc.cc_incr_up sample_hypotheses(3))
  have cold: "im_look 1 ?c (query_key sample_digest ''acme'' g sample_query) = None" for g
    using query_key_not_generation [OF sample_hypotheses(2), of "''acme''" g sample_query "''acme''"]
    by (simp add: invalidate_tenant_def imc.cc_incr_frame [OF sample_hypotheses(3)] sample_hypotheses(5))
  have ok: "ie_available sample_engine" "sq_tenant_id sample_query = ''acme''"
    by (simp_all add: sample_engine_def sample_query_def)
  have v: "''gone'' \<notin> ie_visible (sg_engine ?s0) ''acme''"
    by (simp add: idle_searches_def ie_visible_def sample_engine_def corpus_of_def)
  obtain s g r where s: "rtranclp (search_step sample_codec sample_digest default_settings id ?V) ?s1 s" "sg_clock s = 1"
    "sg_jobs s = [0 \<mapsto> \<lparr>sj_tenant = ''acme'', sj_query = sample_query, sj_point = SeDone g (Inr r)\<rparr>]"
    by (rule cold_search_runs [where s = ?s1 and i = 0 and hexdigest = sample_digest and q = sample_query and tn = "''acme''"
          and C = sample_codec and st = default_settings and so = id and V = ?V])
      (auto simp: idle_searches_def up cold sample_hypotheses(2) ok)
  have "''gone'' \<notin> response_ids r"
    by (rule purged_search [OF rtranclp.rtrancl_refl sample_hypotheses(3) _ sample_hypotheses(1,2) v,
          where s' = s and k = 0 and g = g and q = sample_query and so = id and st = default_settings])
      (use s s1 in \<open>auto simp: idle_searches_def new_inmemory_cache_def\<close>)
  with s show ?thesis by auto
qed

end
