(* ===== verification/Retry_Cycle.thy ===== *)
theory Retry_Cycle
  imports Consumer
begin

text \<open>
  The way of one event through the declared queues (\<open>clients/queue.py\<close>) and the consumer
  (\<open>workers/consumer.py\<close>): delivery from the work queue, acknowledgement, rejection into the retry queue, expiry back into the
  work queue, publication to the dead-letter queue.  Queues and exchanges are those of \<open>declare_topology\<close>, the
  decisions those of \<open>settle_all\<close>.

  What RabbitMQ adds to the headers of a message it dead-letters is the parameter \<open>dead_letter\<close>; the locale states
  what the consumer relies on, the documented counting: each dead-lettering adds one to the count of an entry of
  \<open>x-death\<close>.  \<open>add_death\<close> is the documented header, one entry per queue and reason, newest first.
\<close>

datatype whereabouts = Waiting string | Unacked | Settled

definition dead_letter_queues :: "settings \<Rightarrow> string \<Rightarrow> string \<Rightarrow> string list" where
  "dead_letter_queues st q key =
     (case dead_letter_exchange (declare_topology st) q of
        None \<Rightarrow> []
      | Some ex \<Rightarrow> routed_to (declare_topology st) ex key)"

text \<open>A state: where the message is, its headers, and how often it has been delivered.\<close>

inductive cycle_step ::
  "settings \<Rightarrow> (string \<Rightarrow> string \<Rightarrow> (string \<times> json) list \<Rightarrow> (string \<times> json) list) \<Rightarrow> doc_event
   \<Rightarrow> whereabouts \<times> (string \<times> json) list \<times> nat \<Rightarrow> whereabouts \<times> (string \<times> json) list \<times> nat \<Rightarrow> bool"
  for st dead_letter e where
  deliver: "cycle_step st dead_letter e (Waiting (queue_name st), hs, n) (Unacked, hs, Suc n)"
| succeed: "settle_all st {} [(\<lparr>dl_tag = t, dl_body = b, dl_headers = hs\<rparr>, e)] = (Inr (), [AckMsg t]) \<Longrightarrow>
     cycle_step st dead_letter e (Unacked, hs, n) (Settled, hs, n)"
| reject: "settle_all st {ev_document_id e} [(\<lparr>dl_tag = t, dl_body = b, dl_headers = hs\<rparr>, e)] = (Inr (), [NackMsg t]) \<Longrightarrow>
     q \<in> set (dead_letter_queues st (queue_name st) (ev_type e)) \<Longrightarrow>
     cycle_step st dead_letter e (Unacked, hs, n) (Waiting q, dead_letter (queue_name st) ''rejected'' hs, n)"
| give_up: "settle_all st {ev_document_id e} [(\<lparr>dl_tag = t, dl_body = b, dl_headers = hs\<rparr>, e)] = (Inr (), [PublishTo ex b key, AckMsg t]) \<Longrightarrow>
     q \<in> set (routed_to (declare_topology st) ex key) \<Longrightarrow>
     cycle_step st dead_letter e (Unacked, hs, n) (Waiting q, [], n)"
| expire: "q \<in> set (dead_letter_queues st (queue_retry_name st) (ev_type e)) \<Longrightarrow>
     cycle_step st dead_letter e (Waiting (queue_retry_name st), hs, n)
       (Waiting q, dead_letter (queue_retry_name st) ''expired'' hs, n)"

inductive_cases cycle_from: "cycle_step st dead_letter e (w, hs, n) t"

definition counts_deaths :: "(string \<Rightarrow> string \<Rightarrow> (string \<times> json) list \<Rightarrow> (string \<times> json) list) \<Rightarrow> bool" where
  "counts_deaths dead_letter \<longleftrightarrow>
     (\<forall>q reason hs k. death_count hs = Inr k \<longrightarrow> death_count (dead_letter q reason hs) = Inr (k + 1))"

fun same_death :: "string \<Rightarrow> string \<Rightarrow> json \<Rightarrow> bool" where
  "same_death q reason (JObj kvs) \<longleftrightarrow> map_of kvs ''queue'' = Some (JStr q) \<and> map_of kvs ''reason'' = Some (JStr reason)"
| "same_death q reason j \<longleftrightarrow> False"

definition death_entry :: "string \<Rightarrow> string \<Rightarrow> int \<Rightarrow> json" where
  "death_entry q reason k = JObj [(''count'', JInt k), (''reason'', JStr reason), (''queue'', JStr q)]"

definition add_death :: "string \<Rightarrow> string \<Rightarrow> (string \<times> json) list \<Rightarrow> (string \<times> json) list" where
  "add_death q reason hs =
     (let deaths = (case map_of hs ''x-death'' of Some (JArr ds) \<Rightarrow> ds | _ \<Rightarrow> []);
          known = sum_list (map count_of (filter (same_death q reason) deaths))
      in AList.update ''x-death'' (JArr (death_entry q reason (known + 1) # filter (\<lambda>d. \<not> same_death q reason d) deaths)) hs)"

text \<open>The state of a message after \<open>k\<close> steps, when it has been delivered \<open>n\<close> times.\<close>

fun cycle_inv :: "settings \<Rightarrow> nat \<Rightarrow> whereabouts \<times> (string \<times> json) list \<times> nat \<Rightarrow> bool" where
  "cycle_inv st k (Unacked, hs, n) \<longleftrightarrow>
     1 \<le> n \<and> death_count hs = Inr (2 * int (n - 1)) \<and> k = 3 * (n - 1) + 1 \<and> (n = 1 \<or> 2 * int n - 3 < max_index_attempts st)"
| "cycle_inv st k (Waiting q, hs, n) \<longleftrightarrow>
     (q = queue_name st \<and> death_count hs = Inr (2 * int n) \<and> k = 3 * n \<and> (n = 0 \<or> 2 * int n - 1 < max_index_attempts st)) \<or>
     (q = queue_retry_name st \<and> 1 \<le> n \<and> death_count hs = Inr (2 * int n - 1) \<and> k = 3 * (n - 1) + 2 \<and>
        2 * int n - 1 < max_index_attempts st) \<or>
     (q = queue_dlq_name st \<and> 1 \<le> n \<and> k = 3 * (n - 1) + 2 \<and> (n = 1 \<or> 2 * int n - 3 < max_index_attempts st) \<and>
        max_index_attempts st \<le> 2 * int n - 1)"
| "cycle_inv st k (Settled, hs, n) \<longleftrightarrow>
     1 \<le> n \<and> k = 3 * (n - 1) + 2 \<and> (n = 1 \<or> 2 * int n - 3 < max_index_attempts st)"

subsection \<open>Lemmas\<close>

lemma relpowp_next: "(R ^^ k) x y \<Longrightarrow> R y z \<Longrightarrow> m = Suc k \<Longrightarrow> (R ^^ m) x z"
  for R :: "'a \<Rightarrow> 'a \<Rightarrow> bool" by (auto intro: relpowp_Suc_I simp del: relpowp.simps)

lemma sum_list_filter_split: "sum_list (map f xs) = sum_list (map f (filter P xs)) + sum_list (map f (filter (\<lambda>x. \<not> P x) xs))"
  for f :: "'a \<Rightarrow> int" by (induction xs) auto

lemma add_death_counts: "counts_deaths add_death"
  unfolding counts_deaths_def
proof (intro allI impI)
  fix q reason hs k assume k: "death_count hs = Inr k"
  let ?ds = "case map_of hs ''x-death'' of Some (JArr ds) \<Rightarrow> ds | _ \<Rightarrow> []"
  have "sum_list (map count_of ?ds) = k"
    using k by (auto simp: death_count_def split: option.splits json.splits if_splits)
  moreover have "count_of (death_entry q reason n) = n" for n by (simp add: count_of_def death_entry_def)
  ultimately show "death_count (add_death q reason hs) = Inr (k + 1)"
    using sum_list_filter_split [of count_of ?ds "same_death q reason"]
    by (simp add: add_death_def Let_def death_count_def map_of_update)
qed

locale dead_lettering =
  fixes dead_letter :: "string \<Rightarrow> string \<Rightarrow> (string \<times> json) list \<Rightarrow> (string \<times> json) list"
  assumes counts: "death_count hs = Inr k \<Longrightarrow> death_count (dead_letter q reason hs) = Inr (k + 1)"
begin

lemma cycle_step_inv:
  assumes st: "distinct [queue_name st, queue_retry_name st, queue_dlq_name st]" "ev_type e \<in> {EVENT_INDEX, EVENT_DELETE}"
    and step: "cycle_step st dead_letter e s t" and inv: "cycle_inv st k s"
  shows "cycle_inv st (Suc k) t"
proof -
  have dl: "dead_letter_queues st (queue_name st) (ev_type e) = [queue_retry_name st]"
    "dead_letter_queues st (queue_retry_name st) (ev_type e) = [queue_name st]"
    "routed_to (declare_topology st) (queue_exchange st @ ''.dlq'') (ev_type e) = [queue_dlq_name st]"
    using topology_cycle [OF st] by (auto simp: dead_letter_queues_def)
  from step show ?thesis
  proof cases
    case (deliver hs n)
    then show ?thesis using inv st(1) by auto
  next
    case (succeed t' b hs n)
    then show ?thesis using inv by auto
  next
    case (reject t' b hs q n)
    then have d: "death_count hs = Inr (2 * int (n - 1))" "1 \<le> n" "k = 3 * (n - 1) + 1" using inv by auto
    have "2 * int n - 1 < max_index_attempts st"
      using reject(3) d by (auto simp: to_dlq_def Let_def split: if_splits)
    then show ?thesis using reject(2,4) d dl(1) counts [OF d(1)] by auto
  next
    case (give_up t' b hs ex key q n)
    then have d: "death_count hs = Inr (2 * int (n - 1))" "1 \<le> n" "k = 3 * (n - 1) + 1"
      "n = 1 \<or> 2 * int n - 3 < max_index_attempts st" using inv by auto
    have "max_index_attempts st \<le> 2 * int n - 1" "ex = queue_exchange st @ ''.dlq''" "key = ev_type e"
      using give_up(3) d by (auto simp: to_dlq_def Let_def split: if_splits)
    then show ?thesis using give_up(2,4) d dl(3) by auto
  next
    case (expire q hs n)
    then have "death_count hs = Inr (2 * int n - 1)" "1 \<le> n" "k = 3 * (n - 1) + 2" "2 * int n - 1 < max_index_attempts st"
      using inv st(1) by auto
    then show ?thesis using expire(2,3) dl(2) counts by auto
  qed
qed

lemma cycle_inv_reach:
  assumes "distinct [queue_name st, queue_retry_name st, queue_dlq_name st]" "ev_type e \<in> {EVENT_INDEX, EVENT_DELETE}"
    "(cycle_step st dead_letter e ^^ k) (Waiting (queue_name st), [], 0) s"
  shows "cycle_inv st k s"
  using assms(3)
proof (induction k arbitrary: s)
  case 0
  then show ?case by (auto simp: death_count_def)
next
  case (Suc k)
  from Suc.prems obtain y where "(cycle_step st dead_letter e ^^ k) (Waiting (queue_name st), [], 0) y" "cycle_step st dead_letter e y s"
    by (rule relpowp_Suc_E)
  with Suc.IH show ?case using cycle_step_inv [OF assms(1,2)] by blast
qed

lemma cycle_bounds:
  assumes "cycle_inv st k (w, hs, n)"
  shows "n \<le> nat (max_index_attempts st) div 2 + 1 \<and> k \<le> 3 * (nat (max_index_attempts st) div 2) + 2 \<and>
    (w = Waiting (queue_dlq_name st) \<and> queue_dlq_name st \<notin> {queue_name st, queue_retry_name st} \<and> 1 \<le> max_index_attempts st \<longrightarrow>
       int n = max_index_attempts st div 2 + 1)"
proof (cases w)
  case (Waiting q)
  have "n \<le> nat (max_index_attempts st) div 2 + 1" using assms by (auto simp: Waiting)
  moreover have "k \<le> 3 * (nat (max_index_attempts st) div 2) + 2" using assms by (auto simp: Waiting)
  moreover have "int n = max_index_attempts st div 2 + 1"
    if "q = queue_dlq_name st" "q \<notin> {queue_name st, queue_retry_name st}" "1 \<le> max_index_attempts st"
    using assms that by (auto simp: Waiting)
  ultimately show ?thesis using Waiting by auto
qed (use assms in auto)

lemma cycle_goes_on:
  assumes st: "distinct [queue_name st, queue_retry_name st, queue_dlq_name st]" "ev_type e \<in> {EVENT_INDEX, EVENT_DELETE}"
    and inv: "cycle_inv st k (w, hs, n)" and w: "w \<noteq> Settled" "w \<noteq> Waiting (queue_dlq_name st)"
  shows "\<exists>w' hs' n'. cycle_step st dead_letter e (w, hs, n) (w', hs', n') \<and> w' \<noteq> Settled"
proof (cases w)
  case (Waiting q)
  have "queue_name st \<in> set (dead_letter_queues st (queue_retry_name st) (ev_type e))"
    using topology_cycle [OF st] by (auto simp: dead_letter_queues_def)
  then have "cycle_step st dead_letter e (Waiting (queue_retry_name st), hs, n)
      (Waiting (queue_name st), dead_letter (queue_retry_name st) ''expired'' hs, n)" by (rule cycle_step.expire)
  moreover have "cycle_step st dead_letter e (Waiting (queue_name st), hs, n) (Unacked, hs, Suc n)" by (rule cycle_step.deliver)
  moreover have "q = queue_name st \<or> q = queue_retry_name st" using inv w Waiting by auto
  ultimately show ?thesis unfolding Waiting by blast
next
  case Unacked
  then have d: "death_count hs = Inr (2 * int (n - 1))" using inv by auto
  show ?thesis
  proof (cases "2 * int (n - 1) + 1 \<ge> max_index_attempts st")
    case True
    have "queue_dlq_name st \<in> set (routed_to (declare_topology st) (queue_exchange st @ ''.dlq'') (ev_type e))"
      using topology_cycle [OF st] by auto
    from cycle_step.give_up [OF _ this, where t = 0 and b = None and hs = hs and n = n and dead_letter = dead_letter] d True
    show ?thesis unfolding Unacked by (auto simp: to_dlq_def)
  next
    case False
    have "queue_retry_name st \<in> set (dead_letter_queues st (queue_name st) (ev_type e))"
      using topology_cycle [OF st] by (auto simp: dead_letter_queues_def)
    from cycle_step.reject [OF _ this, where t = 0 and b = None and hs = hs and n = n and dead_letter = dead_letter] d False
    show ?thesis unfolding Unacked by auto
  qed
qed (use w in simp)

end

interpretation rmq: dead_lettering add_death
  using add_death_counts by unfold_locales (simp add: counts_deaths_def)

lemma dead_lettering_counts: "counts_deaths dead_letter \<Longrightarrow> dead_lettering dead_letter"
  by unfold_locales (simp add: counts_deaths_def)

subsection \<open>Properties\<close>



end
