(* ===== verification/Tooling.thy ===== *)
theory Tooling
  imports Container
begin

text \<open>
  What surrounds the service: the declared metrics (\<open>core/metrics.py\<close>), the unused helpers of \<open>core/security.py\<close>, the log line of \<open>core/logging.py\<close> with the context variables of \<open>core/context.py\<close>, the demo
  corpus of \<open>scripts/seed_demo.py\<close>, and the requests and the report of \<open>scripts/bench.py\<close>.  The attributes of a log record of the standard library
  are a parameter (\<open>reserved\<close>), as is the formatting of its time and exception.
\<close>

subsection \<open>Log lines\<close>

record log_record =
  lr_time :: string
  lr_levelname :: string
  lr_name :: string
  lr_message :: string
  lr_dict :: "(string \<times> json) list"
  lr_exception :: "string option"

record log_context =
  request_id_var :: string
  tenant_id_var :: string

definition default_context :: log_context where
  "default_context = \<lparr>request_id_var = ''-'', tenant_id_var = ''-''\<rparr>"

fun add_extras :: "string set \<Rightarrow> (string \<times> json) list \<Rightarrow> (string \<times> json) list \<Rightarrow> (string \<times> json) list" where
  "add_extras reserved [] payload = payload"
| "add_extras reserved ((key, v) # rest) payload =
     add_extras reserved rest
       (if key \<notin> reserved \<and> take 1 key \<noteq> ''_'' then AList.update key v payload else payload)"

definition log_payload :: "string set \<Rightarrow> log_context \<Rightarrow> log_record \<Rightarrow> (string \<times> json) list" where
  "log_payload reserved ctx r =
     (let payload =
        [(''ts'', JStr (lr_time r)), (''level'', JStr (lr_levelname r)), (''logger'', JStr (lr_name r)),
         (''message'', JStr (lr_message r)), (''request_id'', JStr (request_id_var ctx)), (''tenant_id'', JStr (tenant_id_var ctx))];
        payload1 = add_extras reserved (lr_dict r) payload
      in case lr_exception r of None \<Rightarrow> payload1 | Some e \<Rightarrow> AList.update ''exception'' (JStr e) payload1)"

text \<open>
  What \<open>configure_logging\<close> leaves in the registry of the standard library: the handlers and level of the root logger and the levels of
  other loggers.  Setting a level the library does not know raises.
\<close>

record log_registry =
  lg_root_handlers :: "string list"
  lg_root_level :: string
  lg_levels :: "(string \<times> string) list"

definition level_names :: "string list" where
  "level_names = [''CRITICAL'', ''FATAL'', ''ERROR'', ''WARN'', ''WARNING'', ''INFO'', ''DEBUG'', ''NOTSET'']"

definition configure_logging :: "string \<Rightarrow> log_registry \<Rightarrow> unit result \<times> log_registry" where
  "configure_logging level reg =
     (let reg1 = reg\<lparr>lg_root_handlers := [''JsonFormatter on stdout'']\<rparr>
      in if map upper_char level \<notin> set level_names then (Inl ValueErr, reg1)
         else (Inr (), reg1\<lparr>lg_root_level := map upper_char level,
                 lg_levels := fold (\<lambda>noisy. AList.update noisy ''WARNING'')
                   [''uvicorn.access'', ''opensearch'', ''aio_pika'', ''aiormq''] (lg_levels reg1)\<rparr>))"

subsection \<open>Metrics\<close>

text \<open>The metrics of \<open>core/metrics.py\<close> as they are declared.\<close>

datatype metric_kind = Histogram | Counter | Gauge

record metric =
  mt_kind :: metric_kind
  mt_name :: string
  mt_labels :: "string list"
  mt_buckets :: "real list"

definition LATENCY_BUCKETS :: "real list" where
  "LATENCY_BUCKETS = [5/1000, 1/100, 25/1000, 5/100, 1/10, 2/10, 3/10, 1/2, 3/4, 1, 2, 5]"

definition metrics :: "metric list" where
  "metrics =
     [\<lparr>mt_kind = Histogram, mt_name = ''http_request_duration_seconds'', mt_labels = [''method'', ''route'', ''status''],
       mt_buckets = LATENCY_BUCKETS\<rparr>,
      \<lparr>mt_kind = Histogram, mt_name = ''search_duration_seconds'', mt_labels = [''source''], mt_buckets = LATENCY_BUCKETS\<rparr>,
      \<lparr>mt_kind = Histogram, mt_name = ''dependency_duration_seconds'', mt_labels = [''dependency'', ''operation''],
       mt_buckets = LATENCY_BUCKETS\<rparr>,
      \<lparr>mt_kind = Counter, mt_name = ''cache_events_total'', mt_labels = [''cache'', ''outcome''], mt_buckets = []\<rparr>,
      \<lparr>mt_kind = Counter, mt_name = ''rate_limit_events_total'', mt_labels = [''outcome''], mt_buckets = []\<rparr>,
      \<lparr>mt_kind = Counter, mt_name = ''tenant_requests_total'', mt_labels = [''tenant'', ''operation''], mt_buckets = []\<rparr>,
      \<lparr>mt_kind = Counter, mt_name = ''index_events_total'', mt_labels = [''operation'', ''outcome''], mt_buckets = []\<rparr>,
      \<lparr>mt_kind = Counter, mt_name = ''queue_publish_events_total'', mt_labels = [''outcome''], mt_buckets = []\<rparr>,
      \<lparr>mt_kind = Gauge, mt_name = ''circuit_breaker_state'', mt_labels = [''dependency''], mt_buckets = []\<rparr>,
      \<lparr>mt_kind = Histogram, mt_name = ''worker_batch_size'', mt_labels = [], mt_buckets = [1, 5, 10, 25, 50, 100, 250]\<rparr>]"

subsection \<open>Credentials\<close>

text \<open>
  The two functions of \<open>core/security.py\<close> that no other part calls: the comparison of the standard library accepts ASCII
  text only, and the decoding of tokens is a placeholder.
\<close>

definition constant_time_equals :: "string \<Rightarrow> string \<Rightarrow> bool result" where
  "constant_time_equals a b =
     (if \<forall>c \<in> set (a @ b). of_char c < (128 :: nat) then Inr (a = b) else Inl TypeErr)"

definition decode_bearer_token_claims :: "string \<Rightarrow> (string \<times> json) list result" where
  "decode_bearer_token_claims token = Inl (RuntimeErr ''JWT validation is not implemented in the prototype.'')"

subsection \<open>The demo corpus\<close>

type_synonym demo_document = "string \<times> string \<times> string \<times> string list"

definition TENANTS :: "(string \<times> string) list" where
  "TENANTS = [(''acme-dev-key-001'', ''acme''), (''globex-dev-key-002'', ''globex'')]"

definition CORPUS :: "(string \<times> demo_document list) list" where
  "CORPUS =
     [(''acme'',
        [(''Q3 financial report'', ''Revenue grew 24% year over year, driven by enterprise renewals in EMEA.'',
          ''application/pdf'', [''finance'', ''q3'']),
         (''Engineering onboarding guide'', ''Set up your laptop, clone the monorepo and deploy your first service.'',
          ''text/markdown'', [''engineering'', ''onboarding'']),
         (''Incident postmortem: search outage'', ''A saturated connection pool caused cascading timeouts in the search tier.'',
          ''text/markdown'', [''engineering'', ''incident'']),
         (''Information security policy'', ''Password rotation, encryption at rest requirements and incident reporting.'',
          ''application/pdf'', [''security'', ''policy''])]),
      (''globex'',
        [(''Supplier contract template'', ''Standard terms for component suppliers including SLA and penalty clauses.'',
          ''application/pdf'', [''legal'', ''procurement'']),
         (''Warehouse operations manual'', ''Inbound receiving, stock rotation and quarterly inventory reconciliation.'',
          ''text/plain'', [''operations''])])]"

definition demo_body :: "demo_document \<Rightarrow> (string \<times> json) list" where
  "demo_body d =
     (case d of (title, content, content_type, tags) \<Rightarrow>
        [(''title'', JStr title), (''content'', JStr content), (''content_type'', JStr content_type),
         (''tags'', JArr (map JStr tags)), (''metadata'', JObj [(''source'', JStr ''seed'')])])"

text \<open>The requests in order: the API key sent and the body posted.\<close>

definition demo_requests :: "(string \<times> (string \<times> json) list) list" where
  "demo_requests =
     concat (map (\<lambda>(api_key, tenant). map (\<lambda>d. (api_key, demo_body d)) (the (map_of CORPUS tenant))) TENANTS)"

subsection \<open>The benchmark\<close>

text \<open>
  The random choices, the hexadecimal text of the drawn identifiers and the decimal text of the number are arguments.
\<close>

definition TERMS :: "string list" where
  "TERMS = [''report'', ''policy'', ''revenue'', ''kubernetes'', ''incident'', ''onboarding'', ''security'', ''quarterly'']"

fun join_spaces :: "string list \<Rightarrow> string" where
  "join_spaces [] = []"
| "join_spaces [w] = w"
| "join_spaces (w # v # ws) = w @ '' '' @ join_spaces (v # ws)"

definition bench_body ::
  "(nat \<Rightarrow> string) \<Rightarrow> string \<Rightarrow> string list \<Rightarrow> string \<Rightarrow> string \<Rightarrow> string list \<Rightarrow> nat \<Rightarrow> (string \<times> json) list" where
  "bench_body decimal term words hex content_type tags i =
     [(''title'', JStr (py_title term @ '' document '' @ decimal i)),
      (''content'', JStr (join_spaces words @ '' '' @ hex)),
      (''content_type'', JStr content_type),
      (''tags'', JArr (map JStr tags)),
      (''metadata'', JObj [(''batch'', JStr (decimal (i div 500)))])]"

definition bench_query :: "bool \<Rightarrow> string \<Rightarrow> string \<Rightarrow> string" where
  "bench_query cache_bust term hex = (if cache_bust then term @ '' '' @ take 6 hex else term)"

text \<open>The latencies of a run: one response each with its status and the clock before and after.\<close>

definition run_latencies :: "(int \<times> real \<times> real) list \<Rightarrow> real list" where
  "run_latencies responses =
     map (\<lambda>(status, started, ended). (ended - started) * 1000) (filter (\<lambda>(status, started, ended). status = 200) responses)"

text \<open>
  One run: the latencies of the successful responses, and the throughput that is printed, over the time between the two readings
  of the clock around it.
\<close>

definition bench_run :: "(int \<times> real \<times> real) list \<Rightarrow> real \<Rightarrow> real \<Rightarrow> (real list \<times> real) result" where
  "bench_run responses started ended =
     (let latencies = run_latencies responses; elapsed = ended - started
      in if elapsed = 0 then Inl ZeroDivisionErr else Inr (latencies, of_nat (length latencies) / elapsed))"

text \<open>What \<open>main\<close> does with its arguments, in order: a run without a label is the warm-up, which is not reported.\<close>

record bench_args =
  ba_url :: string
  ba_api_key :: string
  ba_seed :: int
  ba_requests :: int
  ba_concurrency :: int

definition default_bench_args :: bench_args where
  "default_bench_args =
     \<lparr>ba_url = ''http://localhost:8000'', ba_api_key = ''acme-dev-key-001'', ba_seed = 0, ba_requests = 2000, ba_concurrency = 50\<rparr>"

datatype bench_phase = CheckHealth | SeedCorpus int | RunQueries "string option" int bool

definition bench_phases :: "bench_args \<Rightarrow> bench_phase list" where
  "bench_phases args =
     [CheckHealth] @ (if ba_seed args \<noteq> 0 then [SeedCorpus (ba_seed args)] else []) @
     [RunQueries None 200 True, RunQueries (Some ''cold / engine'') (ba_requests args) True,
      RunQueries (Some ''warm / cached'') (ba_requests args) False]"

text \<open>The value of an empty sample is \<open>nan\<close>; an index before the start counts from the end, and raises past it.\<close>

datatype percentile_value = Nan | Value real | IndexError

definition percentile :: "real list \<Rightarrow> real \<Rightarrow> percentile_value" where
  "percentile vals p =
     (if vals = [] then Nan
      else
        (let ordered = sort vals; n = int (length ordered);
             index = min (n - 1) (round_half_even (p / 100 * of_int (n - 1)))
         in if 0 \<le> index then Value (ordered ! nat index)
            else if - n \<le> index then Value (ordered ! nat (n + index))
            else IndexError))"

record latency_report =
  lat_n :: nat
  lat_p50 :: percentile_value
  lat_p95 :: percentile_value
  lat_p99 :: percentile_value
  lat_mean :: real
  lat_max :: real

text \<open>The numbers \<open>report\<close> prints, \<open>None\<close> where it prints that there were no successful responses.\<close>

definition report :: "real list \<Rightarrow> latency_report option" where
  "report latencies =
     (if latencies = [] then None
      else Some \<lparr>lat_n = length latencies, lat_p50 = percentile latencies 50, lat_p95 = percentile latencies 95,
                 lat_p99 = percentile latencies 99, lat_mean = sum_list latencies / of_nat (length latencies),
                 lat_max = fold max (tl latencies) (hd latencies)\<rparr>)"

subsection \<open>Lemmas\<close>

text \<open>
  The cardinality of the metrics stays bounded as \<open>core/metrics.py\<close> promises: no histogram has a tenant label, one counter has,
  no two metrics share a name, and the bounds of every histogram increase.
\<close>

lemma metrics_cardinality:
  "(\<forall>m \<in> set metrics. mt_kind m = Histogram \<longrightarrow> ''tenant'' \<notin> set (mt_labels m) \<and> sorted_wrt (<) (mt_buckets m)) \<and>
   map mt_name (filter (\<lambda>m. ''tenant'' \<in> set (mt_labels m)) metrics) = [''tenant_requests_total''] \<and> distinct (map mt_name metrics)"
  by (simp add: metrics_def LATENCY_BUCKETS_def)

lemma add_extras_other: "k \<notin> fst ` set kvs \<Longrightarrow> map_of (add_extras reserved kvs d) k = map_of d k"
  by (induction kvs arbitrary: d) (auto simp: map_of_update)

text \<open>Every log line names its request and tenant, unless the call itself passes fields of these names.\<close>

lemma log_correlation:
  assumes "''request_id'' \<notin> fst ` set (lr_dict r)" "''tenant_id'' \<notin> fst ` set (lr_dict r)"
  shows "map_of (log_payload reserved ctx r) ''request_id'' = Some (JStr (request_id_var ctx)) \<and>
    map_of (log_payload reserved ctx r) ''tenant_id'' = Some (JStr (tenant_id_var ctx))"
  using assms by (auto simp: log_payload_def Let_def map_of_update add_extras_other split: option.splits)

lemma percentile_index:
  assumes "vals \<noteq> []" "0 \<le> p"
  shows "\<exists>i < length vals. percentile vals p = Value (sort vals ! i) \<and>
    int i = min (int (length vals) - 1) (round_half_even (p / 100 * of_int (int (length vals) - 1)))"
proof -
  let ?n = "int (length vals)"
  let ?i = "min (?n - 1) (round_half_even (p / 100 * of_int (?n - 1)))"
  have n: "0 \<le> ?n - 1" using assms(1) by (cases vals) auto
  then have "0 \<le> real_of_int (?n - 1)" by linarith
  then have "0 \<le> p / 100 * of_int (?n - 1)" using assms(2) by (intro mult_nonneg_nonneg) auto
  then have "round_half_even 0 \<le> round_half_even (p / 100 * of_int (?n - 1))" by (rule round_half_even_mono)
  then have "0 \<le> ?i" using n by (simp add: round_half_even_def)
  moreover have "sort vals \<noteq> []" using assms(1) by (metis length_0_conv length_sort)
  ultimately show ?thesis using assms(1) by (intro exI [of _ "nat ?i"]) (auto simp: percentile_def Let_def nat_less_iff)
qed

lemma percentile_mono:
  assumes "vals \<noteq> []" "0 \<le> p" "p \<le> q" "percentile vals p = Value x" "percentile vals q = Value y"
  shows "x \<le> y \<and> x \<in> set vals"
proof -
  obtain i where i: "i < length vals" "x = sort vals ! i"
    "int i = min (int (length vals) - 1) (round_half_even (p / 100 * of_int (int (length vals) - 1)))"
    using percentile_index [OF assms(1,2)] assms(4) by auto
  obtain j where j: "j < length vals" "y = sort vals ! j"
    "int j = min (int (length vals) - 1) (round_half_even (q / 100 * of_int (int (length vals) - 1)))"
    using percentile_index [OF assms(1), of q] assms(2,3,5) by auto
  have "0 \<le> real_of_int (int (length vals) - 1)" using assms(1) by (cases vals) auto
  then have "p / 100 * of_int (int (length vals) - 1) \<le> q / 100 * of_int (int (length vals) - 1)"
    using assms(3) by (intro mult_right_mono) auto
  then have "i \<le> j" using i(3) j(3) round_half_even_mono by (smt (verit) of_nat_le_iff)
  then have "x \<le> y" using i j by (simp add: sorted_nth_mono)
  moreover have "x \<in> set vals" using i by (metis length_sort nth_mem set_sort)
  ultimately show ?thesis by simp
qed

lemma fold_max_ge: "x \<in> set ys \<or> x = m \<Longrightarrow> x \<le> fold max ys m" for x m :: real
proof (induction ys arbitrary: x m)
  case (Cons y ys)
  show ?case
  proof (cases "x \<in> set ys")
    case True
    then show ?thesis using Cons.IH by simp
  next
    case False
    then have "x \<le> max y m" using Cons.prems by auto
    also have "max y m \<le> fold max ys (max y m)" by (rule Cons.IH) simp
    finally show ?thesis by simp
  qed
qed simp

text \<open>The reported percentiles are latencies of the run, in order, and none above the reported maximum.\<close>

lemma report_ordered:
  assumes "report latencies = Some rep"
  shows "\<exists>x y z. lat_p50 rep = Value x \<and> lat_p95 rep = Value y \<and> lat_p99 rep = Value z \<and> {x, y, z} \<subseteq> set latencies \<and>
    x \<le> y \<and> y \<le> z \<and> z \<le> lat_max rep"
proof -
  have ne: "latencies \<noteq> []" and rep: "lat_p50 rep = percentile latencies 50" "lat_p95 rep = percentile latencies 95"
    "lat_p99 rep = percentile latencies 99" "lat_max rep = fold max (tl latencies) (hd latencies)"
    using assms by (auto simp: report_def split: if_splits)
  obtain x y z where v: "percentile latencies 50 = Value x" "percentile latencies 95 = Value y" "percentile latencies 99 = Value z"
    using percentile_index [OF ne, of 50] percentile_index [OF ne, of 95] percentile_index [OF ne, of 99] by auto
  have "x \<le> y \<and> x \<in> set latencies" "y \<le> z \<and> y \<in> set latencies" "z \<le> z \<and> z \<in> set latencies"
    using percentile_mono [OF ne _ _ v(1,2)] percentile_mono [OF ne _ _ v(2,3)] percentile_mono [OF ne _ _ v(3,3)] by auto
  moreover from this have "z \<le> fold max (tl latencies) (hd latencies)" using ne by (intro fold_max_ge) (cases latencies, auto)
  ultimately show ?thesis using v rep by auto
qed

text \<open>The demo requests are accepted: each body is valid and each key belongs to the tenant the configuration seeds for it.\<close>

definition demo_create :: "demo_document \<Rightarrow> document_create" where
  "demo_create d =
     (case d of (title, content, content_type, tags) \<Rightarrow>
        \<lparr>dc_title = title, dc_content = content, dc_content_type = content_type, dc_tags = tags,
         dc_metadata = [(''source'', JStr ''seed'')]\<rparr>)"

lemma demo_body_json: "demo_body d = create_json (demo_create d)"
  by (cases d) (simp add: demo_body_def demo_create_def create_json_def)

text \<open>Bounds all demo documents keep, well below the limits of the service.\<close>

definition plain_char :: "char \<Rightarrow> bool" where
  "plain_char c \<longleftrightarrow> c \<in> set ''abcdefghijklmnopqrstuvwxyz0123456789''"

definition short_document :: "demo_document \<Rightarrow> bool" where
  "short_document d =
     (case d of (title, content, content_type, tags) \<Rightarrow>
        title \<noteq> [] \<and> length title \<le> 64 \<and> content \<noteq> [] \<and> length content \<le> 128 \<and> length content_type \<le> 64 \<and> length tags \<le> 4 \<and>
        list_all (\<lambda>t. t \<noteq> [] \<and> length t \<le> 16 \<and> list_all plain_char t) tags)"

lemma CORPUS_short: "list_all (\<lambda>(t, ds). list_all short_document ds) CORPUS"
  by code_simp

lemma plain_not_space: "plain_char c \<Longrightarrow> \<not> py_isspace c"
  by (auto simp: plain_char_def py_isspace_def Let_def)

lemma demo_create_valid: "short_document d \<Longrightarrow> valid_create (demo_create d)"
  by (cases d)
    (auto simp: short_document_def valid_create_def demo_create_def list_all_iff py_strip_id plain_not_space
        MAX_CONTENT_CHARS_def MAX_TAGS_def MAX_METADATA_KEYS_def Suc_le_eq)

lemma demo_accepted:
  assumes "(k, body) \<in> set demo_requests"
  shows "\<exists>t ts d. map_of TENANTS k = Some t \<and> (t, k) \<in> set (seeded_tenants default_settings) \<and> map_of CORPUS t = Some ts \<and>
    d \<in> set ts \<and> validate_document_create body = Inr (demo_create d)"
proof -
  have sd: "seeded_tenants default_settings = [(''acme'', ''acme-dev-key-001''), (''globex'', ''globex-dev-key-002'')]"
    by code_simp
  obtain t d where t: "(k, t) \<in> set TENANTS" "d \<in> set (the (map_of CORPUS t))" "body = demo_body d"
    using assms by (auto simp: demo_requests_def)
  have "map_of TENANTS k = Some t \<and> (t, k) \<in> set (seeded_tenants default_settings) \<and> map_of CORPUS t \<noteq> None"
    using t(1) unfolding sd by (auto simp: TENANTS_def CORPUS_def)
  moreover from this obtain ts where ts: "map_of CORPUS t = Some ts" by blast
  moreover have "valid_create (demo_create d)"
    using ts t(2) CORPUS_short by (fastforce simp: list_all_iff intro: demo_create_valid dest: map_of_SomeD)
  ultimately show ?thesis using t(2,3) by (metis demo_body_json option.sel validate_create_json)
qed

text \<open>Every document of the benchmark is accepted as well, whatever is drawn.\<close>

lemma TERMS_short: "list_all (\<lambda>t. length t \<le> 10 \<and> t \<noteq> [] \<and> list_all plain_char t) TERMS"
  by code_simp

lemma title_from_length: "length (title_from p s) = length s"
  by (induction s arbitrary: p) auto

lemma join_spaces_length: "\<forall>w \<in> set ws. length w \<le> n \<Longrightarrow> length (join_spaces ws) \<le> (n + 1) * length ws"
  by (induction ws rule: join_spaces.induct) auto

lemma bench_accepted:
  assumes "term \<in> set TERMS" "set words \<subseteq> set TERMS" "length words = 80" "length hex = 32"
    "content_type \<in> {''text/plain'', ''application/pdf'', ''text/markdown''}" "set tags \<subseteq> set TERMS" "length tags = 2"
    "length (decimal i) \<le> 400" "length (decimal (i div 500)) \<le> 400"
  shows "\<exists>d. validate_document_create (bench_body decimal term words hex content_type tags i) = Inr d"
proof -
  let ?d = "\<lparr>dc_title = py_title term @ '' document '' @ decimal i, dc_content = join_spaces words @ '' '' @ hex,
    dc_content_type = content_type, dc_tags = tags, dc_metadata = [(''batch'', JStr (decimal (i div 500)))]\<rparr>"
  have short: "t \<in> set TERMS \<Longrightarrow> length t \<le> 10 \<and> t \<noteq> [] \<and> list_all plain_char t" for t
    using TERMS_short by (auto simp: list_all_iff)
  have "length (join_spaces words) \<le> (10 + 1) * length words" using assms(2) short by (intro join_spaces_length) auto
  moreover have "length (py_title term) \<le> 10" using short [OF assms(1)] by (simp add: py_title_def title_from_length)
  moreover have "\<forall>t \<in> set tags. t \<noteq> [] \<and> length t \<le> 64 \<and> py_strip t = t"
  proof
    fix t assume "t \<in> set tags"
    then have "length t \<le> 10" "t \<noteq> []" "list_all plain_char t" using short [of t] assms(6) by auto
    then show "t \<noteq> [] \<and> length t \<le> 64 \<and> py_strip t = t" by (simp add: list_all_iff py_strip_id plain_not_space)
  qed
  moreover have "length content_type \<le> 64" using assms(5) by auto
  ultimately have "valid_create ?d"
    using assms(3,4,7-9) by (auto simp: valid_create_def MAX_CONTENT_CHARS_def MAX_TAGS_def MAX_METADATA_KEYS_def)
  from validate_create_json [OF this] show ?thesis by (auto simp: bench_body_def create_json_def)
qed

end
