(* ===== verification/Lifecycle.thy ===== *)
theory Lifecycle
  imports Consumer Tooling OpenSearch_Engine
begin

text \<open>
  Starting and stopping the two processes: \<open>run\<close> and \<open>main\<close> of \<open>workers/consumer.py\<close>, the application factory
  \<open>main.py\<close>, the production wiring of \<open>container.py\<close> and the options of the database engine (\<open>db/database.py\<close>).

  \<open>run_steps\<close> awaits a list of calls one after the other; the first exception ends it.  The opening calls of the
  worker stand before its \<open>try\<close>: if one raises, nothing is closed.  The closing calls stand in its \<open>finally\<close>: an
  exception of one of them replaces the outcome of the loop and skips the rest.  Calls of the libraries (entering and leaving
  the message iterator, the prefetch window, disposing of the pool, serving requests) are parameters.
\<close>

fun run_steps :: "('w \<Rightarrow> unit result \<times> 'w) list \<Rightarrow> 'w \<Rightarrow> unit result \<times> 'w" where
  "run_steps [] w = (Inr (), w)"
| "run_steps (f # fs) w =
     (case f w of
        (Inl e, w1) \<Rightarrow> (Inl e, w1)
      | (Inr _, w1) \<Rightarrow> run_steps fs w1)"

definition and_finally :: "'a result \<times> 'w \<Rightarrow> ('w \<Rightarrow> unit result \<times> 'w) \<Rightarrow> 'a result \<times> 'w" where
  "and_finally rw close =
     (case rw of (r, w) \<Rightarrow>
        (case close w of
           (Inl e, w1) \<Rightarrow> (Inl e, w1)
         | (Inr _, w1) \<Rightarrow> (r, w1)))"

subsection \<open>The worker\<close>

record ('c, 'p, 'e, 'b) worker_ports =
  wp_engine :: "'e engine_ops"
  wp_cache :: "'c cache_ops"
  wp_connect :: "'p \<Rightarrow> unit result \<times> 'p"
  wp_publisher :: "'p publisher_ops"
  wp_amqp :: "'b amqp_client"
  wp_set_qos :: "int \<Rightarrow> 'b \<Rightarrow> unit result \<times> 'b"
  wp_enter_iterator :: "'b \<Rightarrow> unit result \<times> 'b"
  wp_exit_iterator :: "'b \<Rightarrow> unit result \<times> 'b"
  wp_dispose :: "database \<Rightarrow> unit result \<times> database"

record ('c, 'p, 'e, 'b) worker_world =
  ww_proc :: "('c, 'e) proc_world"
  ww_publisher :: 'p
  ww_broker :: 'b
  ww_reconciling :: bool
  ww_acts :: "channel_act list"

definition on_engine :: "('e \<Rightarrow> unit result \<times> 'e) \<Rightarrow> ('c, 'p, 'e, 'b) worker_world \<Rightarrow> unit result \<times> ('c, 'p, 'e, 'b) worker_world" where
  "on_engine f w = (case f (pw_engine (ww_proc w)) of (r, e) \<Rightarrow> (r, w\<lparr>ww_proc := (ww_proc w)\<lparr>pw_engine := e\<rparr>\<rparr>))"

definition on_cache :: "('c \<Rightarrow> unit result \<times> 'c) \<Rightarrow> ('c, 'p, 'e, 'b) worker_world \<Rightarrow> unit result \<times> ('c, 'p, 'e, 'b) worker_world" where
  "on_cache f w = (case f (pw_cache (ww_proc w)) of (r, c) \<Rightarrow> (r, w\<lparr>ww_proc := (ww_proc w)\<lparr>pw_cache := c\<rparr>\<rparr>))"

definition on_database ::
  "(database \<Rightarrow> unit result \<times> database) \<Rightarrow> ('c, 'p, 'e, 'b) worker_world \<Rightarrow> unit result \<times> ('c, 'p, 'e, 'b) worker_world" where
  "on_database f w = (case f (pw_db (ww_proc w)) of (r, db) \<Rightarrow> (r, w\<lparr>ww_proc := (ww_proc w)\<lparr>pw_db := db\<rparr>\<rparr>))"

definition on_publisher :: "('p \<Rightarrow> unit result \<times> 'p) \<Rightarrow> ('c, 'p, 'e, 'b) worker_world \<Rightarrow> unit result \<times> ('c, 'p, 'e, 'b) worker_world" where
  "on_publisher f w = (case f (ww_publisher w) of (r, p) \<Rightarrow> (r, w\<lparr>ww_publisher := p\<rparr>))"

definition on_broker :: "('b \<Rightarrow> unit result \<times> 'b) \<Rightarrow> ('c, 'p, 'e, 'b) worker_world \<Rightarrow> unit result \<times> ('c, 'p, 'e, 'b) worker_world" where
  "on_broker f w = (case f (ww_broker w) of (r, b) \<Rightarrow> (r, w\<lparr>ww_broker := b\<rparr>))"

definition worker_opening ::
  "('c, 'p, 'e, 'b) worker_ports \<Rightarrow> settings \<Rightarrow> (('c, 'p, 'e, 'b) worker_world \<Rightarrow> unit result \<times> ('c, 'p, 'e, 'b) worker_world) list" where
  "worker_opening W st =
     [on_engine (e_ensure_index (wp_engine W)),
      on_publisher (wp_connect W),
      on_broker (a_connect (wp_amqp W) (rabbitmq_url st)),
      on_broker (a_channel (wp_amqp W)),
      on_broker (wp_set_qos W (worker_prefetch st)),
      on_broker (a_declare (wp_amqp W) st)]"

definition worker_closing ::
  "('c, 'p, 'e, 'b) worker_ports \<Rightarrow> (('c, 'p, 'e, 'b) worker_world \<Rightarrow> unit result \<times> ('c, 'p, 'e, 'b) worker_world) list" where
  "worker_closing W =
     [(\<lambda>w. (Inr (), w\<lparr>ww_reconciling := False\<rparr>)),
      on_engine (e_close (wp_engine W)),
      on_cache (cc_close (wp_cache W)),
      on_publisher (pub_close (wp_publisher W)),
      on_broker (a_close (wp_amqp W)),
      on_database (wp_dispose W)]"

definition consume_loop ::
  "(doc_event list \<Rightarrow> ('c, 'e) proc_world \<Rightarrow> process_outcome result \<times> ('c, 'e) proc_world) \<Rightarrow> settings
   \<Rightarrow> (feed \<times> string \<times> real \<times> real) list \<Rightarrow> ('c, 'p, 'e, 'b) worker_world \<Rightarrow> unit result \<times> ('c, 'p, 'e, 'b) worker_world" where
  "consume_loop proc st turns w =
     (case consumer_run proc st turns \<lparr>cs_batch = [], cs_deadline = None, cs_acts = ww_acts w, cs_world = ww_proc w\<rparr> of
        (r, c) \<Rightarrow> (r, w\<lparr>ww_proc := cs_world c, ww_acts := cs_acts c\<rparr>))"

definition consume_messages ::
  "('c, 'p, 'e, 'b) worker_ports \<Rightarrow> (doc_event list \<Rightarrow> ('c, 'e) proc_world \<Rightarrow> process_outcome result \<times> ('c, 'e) proc_world) \<Rightarrow> settings
   \<Rightarrow> (feed \<times> string \<times> real \<times> real) list \<Rightarrow> ('c, 'p, 'e, 'b) worker_world \<Rightarrow> unit result \<times> ('c, 'p, 'e, 'b) worker_world" where
  "consume_messages W proc st turns w =
     (case on_broker (wp_enter_iterator W) w of
        (Inl e, w1) \<Rightarrow> (Inl e, w1)
      | (Inr _, w1) \<Rightarrow> and_finally (consume_loop proc st turns w1) (on_broker (wp_exit_iterator W)))"

definition worker_run ::
  "('c, 'p, 'e, 'b) worker_ports \<Rightarrow> (doc_event list \<Rightarrow> ('c, 'e) proc_world \<Rightarrow> process_outcome result \<times> ('c, 'e) proc_world) \<Rightarrow> settings
   \<Rightarrow> (feed \<times> string \<times> real \<times> real) list \<Rightarrow> ('c, 'p, 'e, 'b) worker_world \<Rightarrow> unit result \<times> ('c, 'p, 'e, 'b) worker_world" where
  "worker_run W proc st turns w =
     (case run_steps (worker_opening W st) w of
        (Inl e, w1) \<Rightarrow> (Inl e, w1)
      | (Inr _, w1) \<Rightarrow>
          and_finally (consume_messages W proc st turns (w1\<lparr>ww_reconciling := True\<rparr>)) (run_steps (worker_closing W)))"

text \<open>
  The process: logging is configured before anything is opened.  The signals that \<open>main\<close> handles set the flag that ends the list of
  turns.
\<close>

definition worker_main ::
  "('c, 'p, 'e, 'b) worker_ports \<Rightarrow> (doc_event list \<Rightarrow> ('c, 'e) proc_world \<Rightarrow> process_outcome result \<times> ('c, 'e) proc_world) \<Rightarrow> settings
   \<Rightarrow> (feed \<times> string \<times> real \<times> real) list \<Rightarrow> log_registry \<Rightarrow> ('c, 'p, 'e, 'b) worker_world
   \<Rightarrow> unit result \<times> log_registry \<times> ('c, 'p, 'e, 'b) worker_world" where
  "worker_main W proc st turns reg w =
     (case configure_logging (log_level st) reg of
        (Inl e, reg1) \<Rightarrow> (Inl e, reg1, w)
      | (Inr _, reg1) \<Rightarrow> (case worker_run W proc st turns w of (r, w1) \<Rightarrow> (r, reg1, w1)))"

subsection \<open>The API process\<close>

definition lifespan :: "('w \<Rightarrow> unit result \<times> 'w) \<Rightarrow> ('w \<Rightarrow> unit result \<times> 'w) \<Rightarrow> ('w \<Rightarrow> unit result \<times> 'w) \<Rightarrow> 'w \<Rightarrow> unit result \<times> 'w" where
  "lifespan start serve stop w =
     (case start w of
        (Inl e, w1) \<Rightarrow> (Inl e, w1)
      | (Inr _, w1) \<Rightarrow> and_finally (serve w1) stop)"

definition app_settings :: "('k \<Rightarrow> settings) \<Rightarrow> settings \<Rightarrow> 'k option \<Rightarrow> settings option \<Rightarrow> settings" where
  "app_settings container_settings get_settings container st =
     (case st of
        Some s \<Rightarrow> s
      | None \<Rightarrow> (case container of Some k \<Rightarrow> container_settings k | None \<Rightarrow> get_settings))"

definition app_container :: "(settings \<Rightarrow> 'k) \<Rightarrow> 'k option \<Rightarrow> settings \<Rightarrow> 'k" where
  "app_container build container st = (case container of Some k \<Rightarrow> k | None \<Rightarrow> build st)"

text \<open>\<open>build_container\<close>: the adapters over their clients, and the state each begins with.\<close>

definition build_container ::
  "settings \<Rightarrow> 'r redis_client \<Rightarrow> 's script_client \<Rightarrow> 'b amqp_client \<Rightarrow> 'k os_client \<Rightarrow> real \<Rightarrow> real \<Rightarrow> (nat \<Rightarrow> real) \<Rightarrow> codec
   \<Rightarrow> (string \<Rightarrow> string) \<Rightarrow> (string \<Rightarrow> json result)
   \<Rightarrow> ('r, 'b rabbitmq_publisher, 'k opensearch_engine, 's) services" where
  "build_container st R lua A K now later rnd C hexdigest loads =
     \<lparr>sv_cache = redis_ops R, sv_pub = rabbitmq_ops A, sv_engine = opensearch_ops K now later rnd, sv_script = Some lua,
      sv_codec = C, sv_hexdigest = hexdigest, sv_json_loads = loads, sv_settings = st\<rparr>"

definition new_rabbitmq_publisher :: "settings \<Rightarrow> 'b \<Rightarrow> 'b rabbitmq_publisher" where
  "new_rabbitmq_publisher st b =
     \<lparr>rp_settings = st, rp_connection = False, rp_channel = False, rp_exchange = False, rp_broker = b\<rparr>"

definition new_rate_limiter :: "settings \<Rightarrow> rate_limiter" where
  "new_rate_limiter st = \<lparr>rl_burst_ratio = rate_limit_burst_ratio st, rl_local = []\<rparr>"

definition engine_options :: "settings \<Rightarrow> (string \<times> json) list" where
  "engine_options st =
     [(''echo'', JBool False), (''future'', JBool True)] @
     (if take 6 (database_url st) = ''sqlite''
      then [(''poolclass'', JStr ''StaticPool''), (''connect_args'', JObj [(''check_same_thread'', JBool False)])]
      else [(''pool_size'', JInt (db_pool_size st)), (''max_overflow'', JInt (db_max_overflow st)),
            (''pool_timeout'', JFloat (db_pool_timeout_seconds st)), (''pool_pre_ping'', JBool True), (''pool_recycle'', JInt 1800)])"

subsection \<open>Lemmas\<close>

lemma run_steps_Nil: "run_steps [] w = (r, w') \<longleftrightarrow> r = Inr () \<and> w' = w"
  by auto

lemma run_steps_ok_Cons:
  "run_steps (f # fs) w = (Inr (), w') \<longleftrightarrow> (\<exists>w1. f w = (Inr (), w1) \<and> run_steps fs w1 = (Inr (), w'))"
  by (auto split: prod.splits sum.splits)

lemma and_finally_ok: "and_finally rw close = (Inr x, w') \<longleftrightarrow> (\<exists>w1. rw = (Inr x, w1) \<and> close w1 = (Inr (), w'))"
  by (auto simp: and_finally_def split: prod.splits sum.splits)

lemma and_finally_quiet: "close w = (Inr (), w') \<Longrightarrow> and_finally (r, w) close = (r, w')"
  by (simp add: and_finally_def)

lemmas port_defs = on_engine_def on_cache_def on_database_def on_publisher_def on_broker_def

lemma quiet_fun: "\<forall>x. fst (f x) = Inr () \<Longrightarrow> \<exists>g. f = (\<lambda>x. (Inr (), g x))" for f :: "'x \<Rightarrow> unit result \<times> 'x"
  by (rule exI [of _ "\<lambda>x. snd (f x)"]) (auto simp: fun_eq_iff prod_eq_iff)

text \<open>What the closing calls make of the world when none of them raises.\<close>

definition closes_quietly :: "('c, 'p, 'e, 'b) worker_ports \<Rightarrow> bool" where
  "closes_quietly W \<longleftrightarrow>
     (\<forall>b. fst (wp_exit_iterator W b) = Inr ()) \<and> (\<forall>e. fst (e_close (wp_engine W) e) = Inr ()) \<and>
     (\<forall>c. fst (cc_close (wp_cache W) c) = Inr ()) \<and> (\<forall>p. fst (pub_close (wp_publisher W) p) = Inr ()) \<and>
     (\<forall>b. fst (a_close (wp_amqp W) b) = Inr ()) \<and> (\<forall>db. fst (wp_dispose W db) = Inr ())"

definition closed_world :: "('c, 'p, 'e, 'b) worker_ports \<Rightarrow> ('c, 'p, 'e, 'b) worker_world \<Rightarrow> ('c, 'p, 'e, 'b) worker_world" where
  "closed_world W w =
     w\<lparr>ww_proc := \<lparr>pw_db = snd (wp_dispose W (pw_db (ww_proc w))), pw_cache = snd (cc_close (wp_cache W) (pw_cache (ww_proc w))),
                   pw_engine = snd (e_close (wp_engine W) (pw_engine (ww_proc w)))\<rparr>,
       ww_publisher := snd (pub_close (wp_publisher W) (ww_publisher w)),
       ww_broker := snd (a_close (wp_amqp W) (ww_broker w)), ww_reconciling := False\<rparr>"

lemma closing_quiet:
  assumes "closes_quietly W"
  shows "run_steps (worker_closing W) w = (Inr (), closed_world W w)"
proof -
  obtain ge gc gp gb gd where "e_close (wp_engine W) = (\<lambda>x. (Inr (), ge x))" "cc_close (wp_cache W) = (\<lambda>x. (Inr (), gc x))"
    "pub_close (wp_publisher W) = (\<lambda>x. (Inr (), gp x))" "a_close (wp_amqp W) = (\<lambda>x. (Inr (), gb x))"
    "wp_dispose W = (\<lambda>x. (Inr (), gd x))"
    using assms quiet_fun unfolding closes_quietly_def by metis
  then show ?thesis by (simp add: worker_closing_def port_defs closed_world_def)
qed

lemma consume_loop_acts:
  "consume_loop proc st turns w = (Inr (), w') \<Longrightarrow> mset (settled (ww_acts w')) = mset (settled (ww_acts w)) + mset (taken turns)"
  by (auto simp: consume_loop_def split: prod.splits dest!: consumer_run_settles)

lemma consume_messages_outcome:
  assumes "consume_messages W proc st turns w = (r, w')"
  shows "(r = Inr () \<longrightarrow> mset (settled (ww_acts w')) = mset (settled (ww_acts w)) + mset (taken turns))"
proof
  assume "r = Inr ()"
  with assms obtain w1 w2 where "on_broker (wp_enter_iterator W) w = (Inr (), w1)" "consume_loop proc st turns w1 = (Inr (), w2)"
    "on_broker (wp_exit_iterator W) w2 = (Inr (), w')"
    by (auto simp: consume_messages_def and_finally_ok split: prod.splits sum.splits)
  then show "mset (settled (ww_acts w')) = mset (settled (ww_acts w)) + mset (taken turns)"
    using consume_loop_acts by (fastforce simp: on_broker_def split: prod.splits)
qed

lemma opening_acts: "run_steps (worker_opening W st) w = (Inr (), w') \<Longrightarrow> ww_acts w' = ww_acts w"
  unfolding worker_opening_def
  by (auto simp: run_steps_ok_Cons run_steps_Nil port_defs simp del: run_steps.simps split: prod.splits)

definition sample_ports :: "(inmemory_cache, inmemory_publisher, inmemory_engine, nat) worker_ports" where
  "sample_ports = \<lparr>wp_engine = inmemory_engine_ops id 0, wp_cache = inmemory_ops, wp_connect = (\<lambda>p. (Inr (), p)),
     wp_publisher = inmemory_publisher_ops,
     wp_amqp = \<lparr>a_connect = (\<lambda>_ b. (Inr (), b + 1)), a_channel = (\<lambda>b. (Inr (), b)), a_declare = (\<lambda>_ b. (Inr (), b)),
                a_publish = (\<lambda>_ _ b. (Inr (), b)), a_is_closed = (\<lambda>b. b = 0), a_close = (\<lambda>b. (Inr (), 0))\<rparr>,
     wp_set_qos = (\<lambda>_ b. (Inr (), b)), wp_enter_iterator = (\<lambda>b. (Inr (), b)), wp_exit_iterator = (\<lambda>b. (Inr (), b)),
     wp_dispose = (\<lambda>db. (Inr (), db))\<rparr>"

definition sample_worker :: "(inmemory_cache, inmemory_publisher, inmemory_engine, nat) worker_world" where
  "sample_worker = \<lparr>ww_proc = \<lparr>pw_db = \<lparr>db_documents = [], db_tenants = [], db_up = True\<rparr>, pw_cache = new_inmemory_cache,
     pw_engine = new_inmemory_engine\<rparr>, ww_publisher = new_inmemory_publisher, ww_broker = 0, ww_reconciling = False, ww_acts = []\<rparr>"

subsection \<open>Properties\<close>



end
