(* ===== verification/Routes.thy ===== *)
theory Routes
  imports Requests Lifecycle Health
begin

text \<open>
  The routes as they are declared (\<open>api/routes\<close>) and the application that serves them (\<open>create_app\<close> of \<open>main.py\<close>): method, path, status of a
  success, rate-limit bucket and the error statuses its documentation promises.  Matching a path to a route is the framework's;
  \<open>route_of\<close> names the route of each request of \<open>Api\<close>.
\<close>

record route =
  rt_method :: string
  rt_path :: string
  rt_status :: int
  rt_bucket :: "string option"
  rt_errors :: "int list"
  rt_in_schema :: bool

definition COMMON_ERRORS :: "int list" where
  "COMMON_ERRORS = [401, 429]"

definition post_document_route :: route where
  "post_document_route =
     \<lparr>rt_method = ''POST'', rt_path = ''/documents'', rt_status = 202, rt_bucket = Some ''write'', rt_errors = COMMON_ERRORS @ [422],
      rt_in_schema = True\<rparr>"

definition get_document_route :: route where
  "get_document_route =
     \<lparr>rt_method = ''GET'', rt_path = ''/documents/{document_id}'', rt_status = 200, rt_bucket = Some ''read'',
      rt_errors = COMMON_ERRORS @ [404], rt_in_schema = True\<rparr>"

definition delete_document_route :: route where
  "delete_document_route =
     \<lparr>rt_method = ''DELETE'', rt_path = ''/documents/{document_id}'', rt_status = 204, rt_bucket = Some ''write'',
      rt_errors = COMMON_ERRORS @ [404], rt_in_schema = True\<rparr>"

definition search_route :: route where
  "search_route =
     \<lparr>rt_method = ''GET'', rt_path = ''/search'', rt_status = 200, rt_bucket = Some ''search'', rt_errors = [401, 403, 429, 503],
      rt_in_schema = True\<rparr>"

definition open_route :: "bool \<Rightarrow> string \<Rightarrow> route" where
  "open_route in_schema p =
     \<lparr>rt_method = ''GET'', rt_path = p, rt_status = 200, rt_bucket = None, rt_errors = [], rt_in_schema = in_schema\<rparr>"

definition health_router :: "route list" where
  "health_router =
     [open_route True ''/health'', open_route True ''/health/live'', open_route True ''/health/ready'', open_route False ''/metrics'']"

definition documents_router :: "route list" where
  "documents_router = [post_document_route, get_document_route, delete_document_route]"

definition search_router :: "route list" where
  "search_router = [search_route]"

record 'k application =
  ap_title :: string
  ap_version :: string
  ap_docs_url :: string
  ap_openapi_url :: string
  ap_container :: 'k
  ap_middleware :: "string list"
  ap_handlers :: "string list"
  ap_routes :: "route list"

definition registered_handlers :: "string list" where
  "registered_handlers = [''AppError'', ''RequestValidationError'', ''HTTPException'', ''Exception'']"

definition create_app ::
  "(settings \<Rightarrow> 'k) \<Rightarrow> ('k \<Rightarrow> settings) \<Rightarrow> settings \<Rightarrow> 'k option \<Rightarrow> settings option \<Rightarrow> log_registry
   \<Rightarrow> 'k application result \<times> log_registry" where
  "create_app build container_settings get_settings container st reg =
     (let settings = app_settings container_settings get_settings container st
      in case configure_logging (log_level settings) reg of
           (Inl e, reg1) \<Rightarrow> (Inl e, reg1)
         | (Inr _, reg1) \<Rightarrow>
             (Inr \<lparr>ap_title = ''Distributed Document Search Service'', ap_version = ''1.0.0'', ap_docs_url = ''/docs'',
                   ap_openapi_url = ''/openapi.json'', ap_container = app_container build container settings,
                   ap_middleware = [''RequestContextMiddleware''], ap_handlers = registered_handlers,
                   ap_routes = health_router @ documents_router @ search_router\<rparr>, reg1))"

fun route_of :: "request \<Rightarrow> route" where
  "route_of (PostDocument b) = post_document_route"
| "route_of (GetDocument i) = get_document_route"
| "route_of (DeleteDocument i) = delete_document_route"
| "route_of (GetSearch p) = search_route"

text \<open>What an orderly request relies on, so that nothing but a documented answer remains.\<close>

definition orderly :: "settings \<Rightarrow> readings \<Rightarrow> test_world \<Rightarrow> bool" where
  "orderly st rg w \<longleftrightarrow>
     db_up (aw_db w) \<and> rg_commit_ok rg \<and> rg_uuid rg \<notin> doc_id ` set (db_documents (aw_db w)) \<and> 1 \<le> max_page_size st \<and>
     (\<forall>t \<in> set (db_tenants (aw_db w)). tn_rate_limit_per_minute t \<noteq> 0)"

definition answers_ok :: "bool \<Rightarrow> request \<Rightarrow> exn \<Rightarrow> bool" where
  "answers_ok ok req e \<longleftrightarrow>
     e = ValidationErr \<or> (\<exists>a. e = AppErr a \<and> status_code a \<in> set (rt_errors (route_of req))) \<or>
     \<not> ok \<and> (\<forall>a. e \<noteq> AppErr a)"

lemmas route_defs = post_document_route_def get_document_route_def delete_document_route_def search_route_def COMMON_ERRORS_def

subsection \<open>Lemmas\<close>

lemma documented_common: "401 \<in> set (rt_errors (route_of req))" "429 \<in> set (rt_errors (route_of req))"
  by (cases req; simp add: route_defs)+

lemma bucket_of_route: "rt_bucket (route_of req) = Some (bucket_name req)"
  by (cases req) (simp_all add: route_defs)

lemma auth_errors:
  assumes "get_current_tenant (build_test_container st C hx loads so took) t1 t2 key db c = (Inl e, c')" "cache_ok C hx db T c" "T \<le> t1"
  shows "(\<exists>m. e = AppErr (UnauthorizedError m)) \<or> (e = DatabaseErr \<and> \<not> db_up db)"
proof (cases "key = None \<or> key = Some []")
  case True
  then show ?thesis using assms(1) by (auto simp: get_current_tenant_def)
next
  case False
  then obtain k where k: "key = Some k" "k \<noteq> []" by auto
  obtain v c1 where g: "get_json inmemory_ops t1 (tenant_key (hx k)) c = (v, c1)" by force
  show ?thesis
  proof (cases v)
    case (Some j)
    have av: "im_available c" using imc.get_json_down [of c t1 "tenant_key (hx k)"] g Some by auto
    have "im_look t1 c (tenant_key (hx k)) = Some (JsonText j)"
      using imc.get_json_value [OF av, of t1 "tenant_key (hx k)"] g Some
      by (auto split: option.splits cache_text.splits if_splits)
    then have "entry_ok C hx db (tenant_key (hx k)) (JsonText j)" using assms(2,3) unfolding cache_ok_def by blast
    then obtain t where "j = tenant_json t" unfolding entry_ok_def by blast
    then show ?thesis using assms(1) k g Some by (simp add: get_current_tenant_def container_simps hash_api_key_def)
  next
    case None
    then show ?thesis
      using assms(1) k g
      by (auto simp: get_current_tenant_def container_simps hash_api_key_def get_by_api_key_hash_def Let_def split: option.splits if_splits)
  qed
qed

lemma limit_errors:
  assumes "rate_limited (build_test_container st C hx loads so took) now b tn w = (Inl e, d, w')"
  shows "(\<exists>r l. e = AppErr (RateLimitedError r l)) \<or> (e = ZeroDivisionErr \<and> tn_rate_limit_per_minute tn = 0)"
  using assms
  by (auto simp: rate_limited_def rl_check_def check_local_def container_simps throttled_def Let_def
      split: prod.splits sum.splits if_splits)

lemma protect_errors:
  assumes "protect (build_test_container st C hx loads so took) rg b key w = (Inl e, d, w')" "sys_inv C hx T w" "ordered_readings T rg"
    "hex_text hx"
  shows "(\<exists>m. e = AppErr (UnauthorizedError m)) \<or> (\<exists>r l. e = AppErr (RateLimitedError r l)) \<or>
    \<not> orderly st rg w \<and> (\<forall>a. e \<noteq> AppErr a)"
proof -
  have o: "T \<le> rg_t1 rg" "rg_t1 rg \<le> rg_t2 rg" using assms(3) by (simp_all add: ordered_readings_def)
  have co: "cache_ok C hx (aw_db w) T (aw_cache w)" using assms(2) by (simp add: sys_inv_def)
  obtain x c1 where x: "get_current_tenant (build_test_container st C hx loads so took) (rg_t1 rg) (rg_t2 rg) key (aw_db w) (aw_cache w) = (x, c1)"
    by force
  show ?thesis
  proof (cases x)
    case (Inl y)
    then show ?thesis using assms(1) x auth_errors [OF x [unfolded Inl] co o(1)] by (auto simp: protect_def orderly_def)
  next
    case (Inr tn)
    have "tn \<in> set (db_tenants (aw_db w))" using current_tenant_sound(2) [OF x co o assms(4) Inr] by blast
    moreover have "(\<exists>r l. e = AppErr (RateLimitedError r l)) \<or> (e = ZeroDivisionErr \<and> tn_rate_limit_per_minute tn = 0)"
      using assms(1) x Inr by (auto simp: protect_def dest: limit_errors split: prod.splits sum.splits)
    ultimately show ?thesis by (auto simp: orderly_def)
  qed
qed

lemma ds_get_errors:
  assumes "ds_get inmemory_ops C st t1 t2 tn u w = (Inl e, w')" "doc_cache_ok im_look C T (w_cache w)" "T \<le> t1" "codec_ok C"
  shows "(\<exists>m. e = AppErr (NotFoundError m)) \<or> (e = DatabaseErr \<and> \<not> db_up (w_db w))"
proof -
  let ?k = "document_key tn (str_uuid u)"
  obtain v c1 where g: "get_json inmemory_ops t1 ?k (w_cache w) = (v, c1)" by force
  show ?thesis
  proof (cases v)
    case (Some j)
    have av: "im_available (w_cache w)" using imc.get_json_down [of "w_cache w" t1 ?k] g Some by auto
    have "im_look t1 (w_cache w) ?k = Some (JsonText j)"
      using imc.get_json_value [OF av, of t1 ?k] g Some by (auto split: option.splits cache_text.splits if_splits)
    then obtain r where "j = dump_doc C r" using assms(2,3) unfolding doc_cache_ok_def by blast
    then show ?thesis using assms(1,4) g Some by (simp add: ds_get_def Let_def codec_ok_def)
  next
    case None
    then show ?thesis
      using assms(1) g by (auto simp: ds_get_def Let_def repo_get_def split: option.splits sum.splits if_splits)
  qed
qed

lemma search_errors:
  assumes "search_service_search inmemory_ops (inmemory_engine_ops so took) C hx st t1 t2 t3 tk rnd tn q (c, en) = (Inl e, c', en')"
    "cache_ok C hx db T c" "T \<le> t1" "t1 \<le> t2" "codec_ok C"
  shows "\<exists>d. e = AppErr (DependencyUnavailableError d)"
proof -
  obtain g c1 where g: "current_generation inmemory_ops t1 tn c = (g, c1)" by force
  then have "c1 = snd (get_json inmemory_ops t1 (search_generation_key tn) c)"
    by (auto simp: current_generation_def split: prod.splits option.splits)
  then have c1: "cache_ok C hx db t1 c1" using cache_ok_get [OF assms(2,3)] by simp
  let ?k = "query_key hx tn g q"
  obtain v c2 where v: "get_json inmemory_ops t2 ?k c1 = (v, c2)" by force
  show ?thesis
  proof (cases v)
    case (Some j)
    have av: "im_available c1" using imc.get_json_down [of c1 t2 ?k] v Some by auto
    have "im_look t2 c1 ?k = Some (JsonText j)"
      using imc.get_json_value [OF av, of t2 ?k] v Some by (auto split: option.splits cache_text.splits if_splits)
    then have "entry_ok C hx db ?k (JsonText j)" using c1 assms(4) unfolding cache_ok_def by blast
    then obtain r where "j = JObj (cacheable C r)" unfolding entry_ok_def by blast
    then show ?thesis using assms(1,5) g v Some by (simp add: search_service_search_def cached_response_cacheable)
  next
    case None
    then have "execute (inmemory_engine_ops so took) tn q en = (Inl e, en')"
      using assms(1) g v by (auto simp: search_service_search_def single_flight_def split: prod.splits sum.splits)
    moreover obtain r where "ie_available en \<Longrightarrow> execute (inmemory_engine_ops so took) tn q en = (Inr r, en)"
      using ss.execute_ok [of en so took tn q] by metis
    ultimately show ?thesis using ss.execute_error [of en so took tn q] by (cases "ie_available en") auto
  qed
qed

lemma handler_errors:
  assumes "handler (build_test_container st C hx loads so took) rg pp req tn w = (Inl e, w')" "sys_inv C hx T w" "T \<le> rg_t3 rg"
    "rg_t3 rg \<le> rg_t4 rg" "codec_ok C"
  shows "answers_ok (orderly st rg w) req e"
proof (cases req)
  case (PostDocument body)
  then show ?thesis
    using assms(1) by (auto simp: create_document_def container_simps answers_ok_def orderly_def ds_create_def repo_create_def Let_def
        new_document_def split: prod.splits sum.splits if_splits)
next
  case (GetDocument i)
  have "doc_cache_ok im_look C T (w_cache (to_doc_world w))" using assms(2) cache_ok_doc by (auto simp: sys_inv_def)
  note err = ds_get_errors [OF _ this assms(3,5)]
  show ?thesis
    using assms(1) GetDocument
    by (auto simp: get_document_def container_simps answers_ok_def orderly_def route_defs dest!: err split: prod.splits sum.splits option.splits)
next
  case (DeleteDocument i)
  then show ?thesis
    using assms(1) by (auto simp: delete_document_def container_simps answers_ok_def orderly_def route_defs ds_delete_def repo_get_def
        repo_soft_delete_def Let_def split: prod.splits sum.splits option.splits if_splits)
next
  case (GetSearch p)
  have "cache_ok C hx (aw_db w) T (aw_cache w)" using assms(2) by (simp add: sys_inv_def)
  note err = search_errors [OF _ this assms(3,4,5)]
  have zero: "e' = ZeroDivisionErr \<and> \<not> 1 \<le> max_page_size st" if "search_query_of st p t = Inl e'" "valid_params p" for e' t
    using that by (auto simp: search_query_of_def valid_params_def Let_def min_def split: if_splits)
  show ?thesis
    using assms(1) GetSearch zero
    by (auto simp: search_documents_def container_simps answers_ok_def orderly_def route_defs enforce_tenant_scope_def dest!: err
        split: prod.splits sum.splits option.splits if_splits)
qed

lemma handler_status:
  "handler sv rg pp req tn w = (Inr rsp, w') \<Longrightarrow> rsp_status rsp = rt_status (route_of req)"
  by (cases req)
     (auto simp: create_document_def get_document_def delete_document_def search_documents_def route_defs Let_def
       split: prod.splits sum.splits option.splits if_splits)

lemma endpoint_errors:
  assumes "endpoint (build_test_container st C hx loads so took) rg pp key req w = (r, d, w')" "sys_inv C hx T w" "ordered_readings T rg"
    "hex_text hx" "codec_ok C"
  shows "case r of Inr rsp \<Rightarrow> rsp_status rsp = rt_status (route_of req) | Inl e \<Rightarrow> answers_ok (orderly st rg w) req e"
proof -
  obtain a d1 w1 where p: "protect (build_test_container st C hx loads so took) rg (bucket_name req) key w = (a, d1, w1)"
    by (metis prod_cases3)
  note o = assms(3) [unfolded ordered_readings_def]
  show ?thesis
  proof (cases a)
    case (Inl e)
    then have "r = Inl e" using assms(1) p by (simp add: endpoint_def)
    then show ?thesis
      using protect_errors [OF p [unfolded Inl] assms(2,3,4)] documented_common [of req] by (auto simp: answers_ok_def)
  next
    case (Inr tn)
    then have h: "handler (build_test_container st C hx loads so took) rg pp req tn w1 = (r, w')"
      using assms(1) p by (auto simp: endpoint_def split: prod.splits)
    have "cache_ok C hx (aw_db w) T (aw_cache w)" using assms(2) by (simp add: sys_inv_def)
    from protect_sound(1) [OF p this _ _ assms(4)] o assms(2)
    have w1: "sys_inv C hx (rg_t2 rg) w1" "aw_db w1 = aw_db w" by (simp_all add: sys_inv_def)
    then have same: "orderly st rg w1 = orderly st rg w" by (simp add: orderly_def)
    show ?thesis
    proof (cases r)
      case (Inl e)
      then show ?thesis using handler_errors [OF h [unfolded Inl] w1(1) _ _ assms(5)] o same by simp
    next
      case (Inr rsp)
      then show ?thesis using handler_status h by simp
    qed
  qed
qed

subsection \<open>Properties\<close>

text \<open>
  The application serves every request of the API under a path and method of its own, behind the rate-limit bucket its handler is
  charged to; the only routes without a bucket, and so without authentication, are those of health and metrics.
\<close>

theorem app_routes:
  assumes "create_app build container_settings get_settings container st reg = (Inr app, reg')"
  shows "distinct (map (\<lambda>r. (rt_method r, rt_path r)) (ap_routes app)) \<and>
    (\<forall>req. route_of req \<in> set (ap_routes app) \<and> rt_bucket (route_of req) = Some (bucket_name req)) \<and>
    (\<forall>r \<in> set (ap_routes app). rt_bucket r = None \<longleftrightarrow> r \<in> set health_router)"
proof -
  have routes: "ap_routes app = health_router @ documents_router @ search_router"
    using assms by (auto simp: create_app_def Let_def split: prod.splits sum.splits)
  have "route_of req \<in> set (ap_routes app)" for req
    by (cases req) (simp_all add: routes documents_router_def search_router_def)
  then show ?thesis
    using bucket_of_route by (simp add: routes health_router_def documents_router_def search_router_def open_route_def route_defs)
qed

theorem app_routes_witness:
  "\<exists>app reg. create_app (\<lambda>_. ()) (\<lambda>_. default_settings) default_settings None None
      \<lparr>lg_root_handlers = [], lg_root_level = ''WARNING'', lg_levels = []\<rparr> = (Inr app, reg) \<and> length (ap_routes app) = 8 \<and>
     distinct (map (\<lambda>r. (rt_method r, rt_path r)) (ap_routes app))"
proof -
  let ?reg = "\<lparr>lg_root_handlers = [], lg_root_level = ''WARNING'', lg_levels = []\<rparr>"
  have "map upper_char ''INFO'' = ''INFO''" by code_simp
  then have "fst (configure_logging ''INFO'' ?reg) = Inr ()" by (simp add: configure_logging_def level_names_def)
  then obtain reg where "configure_logging ''INFO'' ?reg = (Inr (), reg)" by (metis prod.collapse)
  moreover have "log_level default_settings = ''INFO''" by (simp add: default_settings_def)
  ultimately obtain app where app: "create_app (\<lambda>_. ()) (\<lambda>_. default_settings) default_settings None None ?reg = (Inr app, reg)"
    "ap_routes app = health_router @ documents_router @ search_router"
    by (simp add: create_app_def app_settings_def)
  have "length (ap_routes app) = 8" by (simp add: app(2) health_router_def documents_router_def search_router_def)
  with app_routes [OF app(1)] app(1) show ?thesis by blast
qed



end
