(* ===== verification/Worker_Interleaving.thy ===== *)
theory Worker_Interleaving
  imports Interleaving Processor
begin

text \<open>
  \<open>workers/processor.py\<close> under concurrency: several workers consume the queue, and between the points where a batch
  awaits the database, the engine and the cache, other batches, deletions and creations go on.  \<open>batch_resume\<close> runs a batch from
  the point where it waits to its next \<open>await\<close>; the \<open>UPDATE\<close> that marks rows takes effect with its \<open>COMMIT\<close>, one \<open>INCR\<close> is one point.
  Run without interruption, the points are \<open>process\<close>.
\<close>

datatype batch_point =
    BatchRead "doc_event list"
  | BatchWrite "(string \<times> doc_event) list" "string list" "(string \<times> document) list"
  | BatchMark "(string \<times> doc_event) list" process_outcome
  | BatchInvalidate "string list" process_outcome
  | BatchDone "process_outcome result"

definition changed_tenants :: "'c cache_ops option \<Rightarrow> (string list \<Rightarrow> string list) \<Rightarrow> (string \<times> doc_event) list \<Rightarrow> process_outcome
    \<Rightarrow> string list" where
  "changed_tenants Bo set_order latest outcome =
     (case Bo of
        None \<Rightarrow> []
      | Some B \<Rightarrow>
          set_order (remdups (map ev_tenant_id (List.map_filter (map_of latest) (po_indexed outcome @ po_deleted outcome)))))"

fun batch_resume ::
  "'c cache_ops option \<Rightarrow> 'e engine_ops \<Rightarrow> (string list \<Rightarrow> string list) \<Rightarrow> datetime \<Rightarrow> real \<Rightarrow> bool
   \<Rightarrow> batch_point \<Rightarrow> ('c, 'e) proc_world \<Rightarrow> batch_point \<times> ('c, 'e) proc_world" where
  "batch_resume Bo E set_order now t commit_ok (BatchRead events) w =
     (if events = [] then (BatchDone (Inr \<lparr>po_indexed = [], po_deleted = [], po_failed = [], po_skipped = []\<rparr>), w)
      else
        (let latest = latest_events events;
             keys = map fst latest;
             malformed = malformed_ids keys;
             valid = filter (\<lambda>i. i \<notin> set malformed) keys
         in case repo_get_many (parsed_ids keys) (pw_db w) of
              Inl e \<Rightarrow> (BatchDone (Inl e), w)
            | Inr ds \<Rightarrow>
                (let skipped = malformed @ filter (\<lambda>i. rows_by_id ds i = None) valid
                 in if found_rows ds valid = []
                    then (BatchDone (Inr \<lparr>po_indexed = [], po_deleted = [], po_failed = [], po_skipped = skipped\<rparr>), w)
                    else (BatchWrite latest skipped (found_rows ds valid), w))))"
| "batch_resume Bo E set_order now t commit_ok (BatchWrite latest skipped found) w =
     (let index_ids = map fst (filter (\<lambda>(i, d). doc_status d \<noteq> DELETED) found);
          delete_ids = map fst (filter (\<lambda>(i, d). doc_status d = DELETED) found)
      in case e_bulk E (map (\<lambda>(i, d). op_for i d) found) (pw_engine w) of
           (Inl e, en) \<Rightarrow>
             (BatchDone (Inr \<lparr>po_indexed = [], po_deleted = [], po_failed = map fst latest, po_skipped = skipped\<rparr>),
              w\<lparr>pw_engine := en\<rparr>)
         | (Inr r, en) \<Rightarrow>
             (let succeeded = set (br_succeeded r)
              in (BatchMark latest
                    \<lparr>po_indexed = filter (\<lambda>i. i \<in> succeeded) index_ids,
                     po_deleted = filter (\<lambda>i. i \<in> succeeded) delete_ids,
                     po_failed = filter (\<lambda>i. i \<notin> succeeded) (index_ids @ delete_ids),
                     po_skipped = skipped\<rparr>,
                  w\<lparr>pw_engine := en\<rparr>)))"
| "batch_resume Bo E set_order now t commit_ok (BatchMark latest outcome) w =
     (case repo_mark_indexed now (parsed_ids (po_indexed outcome)) (pw_db w) of
        Inl e \<Rightarrow> (BatchDone (Inl e), w)
      | Inr db1 \<Rightarrow>
          if \<not> commit_ok then (BatchDone (Inl DatabaseErr), w)
          else (BatchInvalidate (changed_tenants Bo set_order latest outcome) outcome, w\<lparr>pw_db := db1\<rparr>))"
| "batch_resume Bo E set_order now t commit_ok (BatchInvalidate tenants outcome) w =
     (case (Bo, tenants) of
        (Some B, tenant_id # rest) \<Rightarrow>
          (BatchInvalidate rest outcome, w\<lparr>pw_cache := snd (cc_incr B t (search_generation_key tenant_id) (pw_cache w))\<rparr>)
      | _ \<Rightarrow> (BatchDone (Inr outcome), w))"
| "batch_resume Bo E set_order now t commit_ok (BatchDone r) w = (BatchDone r, w)"

text \<open>The workers: the world they share and the batches in flight.\<close>

record fleet =
  fl_world :: "(inmemory_cache, inmemory_engine) proc_world"
  fl_batches :: "nat \<Rightarrow> batch_point option"

inductive fleet_step :: "fleet \<Rightarrow> fleet \<Rightarrow> bool" where
  take_batch: "fl_batches s i = None \<Longrightarrow> fleet_step s (s\<lparr>fl_batches := (fl_batches s)(i \<mapsto> BatchRead events)\<rparr>)"
| resume_batch: "fl_batches s i = Some pt \<Longrightarrow>
     batch_resume (Some inmemory_ops) (inmemory_engine_ops so took) so' now t ok pt (fl_world s) = (pt', w) \<Longrightarrow>
     fleet_step s (s\<lparr>fl_world := w, fl_batches := (fl_batches s)(i \<mapsto> pt')\<rparr>)"
| row_created: "repo_create (new_document cr up uid tn p) (pw_db (fl_world s)) = Inr db \<Longrightarrow>
     fleet_step s (s\<lparr>fl_world := (fl_world s)\<lparr>pw_db := db\<rparr>\<rparr>)"
| row_deleted: "doc_version d = 1 \<Longrightarrow>
     fleet_step s (s\<lparr>fl_world := (fl_world s)\<lparr>pw_db := commit_delete now d (pw_db (fl_world s))\<rparr>\<rparr>)"
| cache_used: "fleet_step s (s\<lparr>fl_world := (fl_world s)\<lparr>pw_cache := c\<rparr>\<rparr>)"
| port_fails: "fleet_step s (s\<lparr>fl_world := (fl_world s)\<lparr>pw_db := (pw_db (fl_world s))\<lparr>db_up := up\<rparr>,
       pw_engine := (pw_engine (fl_world s))\<lparr>ie_available := av\<rparr>\<rparr>\<rparr>)"

inductive_cases fleet_stepE: "fleet_step s s'"

text \<open>What a batch may hold: each row as it was read, whose identity and content the row still has.\<close>

definition snapshot_ok :: "database \<Rightarrow> string \<Rightarrow> document \<Rightarrow> bool" where
  "snapshot_ok db i d \<longleftrightarrow>
     i = str_uuid (doc_id d) \<and> row_ok d \<and>
     (\<exists>r. row_of db (doc_id d) = Some r \<and> doc_tenant_id r = doc_tenant_id d \<and> doc_title r = doc_title d \<and>
          doc_content r = doc_content d \<and> doc_content_type r = doc_content_type d \<and> doc_tags r = doc_tags d \<and>
          doc_metadata r = doc_metadata d \<and> (doc_status d = DELETED \<longrightarrow> doc_status r = DELETED))"

fun batch_ok :: "database \<Rightarrow> batch_point \<Rightarrow> bool" where
  "batch_ok db (BatchWrite latest skipped found) \<longleftrightarrow>
     distinct (map fst found) \<and> (\<forall>(i, d) \<in> set found. snapshot_ok db i d)"
| "batch_ok db pt \<longleftrightarrow> True"

text \<open>A stored document is some row's, under its tenant and with its content.\<close>

definition stored_own :: "database \<Rightarrow> string \<Rightarrow> stored_doc \<Rightarrow> bool" where
  "stored_own db k sd \<longleftrightarrow>
     (\<exists>u d. k = str_uuid u \<and> row_of db u = Some d \<and> sd_tenant_id sd = doc_tenant_id d \<and> sd_version sd = 1 \<and>
            same_content (sd_source sd) (d\<lparr>doc_version := 1\<rparr>))"

definition fleet_inv :: "fleet \<Rightarrow> bool" where
  "fleet_inv s \<longleftrightarrow>
     db_inv (pw_db (fl_world s)) \<and> engine_inv (pw_engine (fl_world s)) \<and>
     (\<forall>k sd. map_of (ie_docs (pw_engine (fl_world s))) k = Some sd \<longrightarrow> stored_own (pw_db (fl_world s)) k sd) \<and>
     (\<forall>i pt. fl_batches s i = Some pt \<longrightarrow> batch_ok (pw_db (fl_world s)) pt)"

text \<open>A batch that took the row of \<open>u\<close> before it was deleted, and has not written it yet.\<close>

fun holds_live :: "uuid \<Rightarrow> batch_point \<Rightarrow> bool" where
  "holds_live u (BatchWrite latest skipped found) \<longleftrightarrow> (\<exists>d. (str_uuid u, d) \<in> set found \<and> doc_status d \<noteq> DELETED)"
| "holds_live u pt \<longleftrightarrow> False"

definition row_gone :: "uuid \<Rightarrow> fleet \<Rightarrow> bool" where
  "row_gone u s \<longleftrightarrow> (\<exists>d. row_of (pw_db (fl_world s)) u = Some d \<and> doc_status d = DELETED)"

definition buried :: "uuid \<Rightarrow> fleet \<Rightarrow> bool" where
  "buried u s \<longleftrightarrow>
     row_gone u s \<and> map_of (ie_docs (pw_engine (fl_world s))) (str_uuid u) = None \<and>
     (\<forall>i pt. fl_batches s i = Some pt \<longrightarrow> \<not> holds_live u pt)"

subsection \<open>The points are the operation\<close>

abbreviation batch_turn ::
  "'c cache_ops option \<Rightarrow> 'e engine_ops \<Rightarrow> (string list \<Rightarrow> string list) \<Rightarrow> datetime \<Rightarrow> real \<Rightarrow> bool
   \<Rightarrow> batch_point \<times> ('c, 'e) proc_world \<Rightarrow> batch_point \<times> ('c, 'e) proc_world" where
  "batch_turn Bo E so now t ok \<equiv> (\<lambda>(pt, w). batch_resume Bo E so now t ok pt w)"

lemma turn_on: "f x = y \<Longrightarrow> \<exists>n. (f ^^ n) y = z \<Longrightarrow> \<exists>n. (f ^^ n) x = z" for f :: "'x \<Rightarrow> 'x"
  by (metis comp_apply funpow_Suc_right)

lemma turn_end: "f x = y \<Longrightarrow> \<exists>n. (f ^^ n) x = y" for f :: "'x \<Rightarrow> 'x"
  by (rule exI [of _ 1]) simp

lemma invalidate_turns:
  "\<exists>n. (batch_turn (Some B) E so now t ok ^^ n) (BatchInvalidate ts outcome, w) =
     (BatchDone (Inr outcome), w\<lparr>pw_cache := fold (\<lambda>tenant_id c. snd (cc_incr B t (search_generation_key tenant_id) c)) ts (pw_cache w)\<rparr>)"
proof (induction ts arbitrary: w)
  case Nil
  show ?case by (rule turn_end) simp
next
  case (Cons tn ts)
  show ?case
    using Cons [of "w\<lparr>pw_cache := snd (cc_incr B t (search_generation_key tn) (pw_cache w))\<rparr>"]
    by - (rule turn_on [of "batch_turn (Some B) E so now t ok"], rule refl, simp)
qed

lemma changed_turns:
  "\<exists>n. (batch_turn Bo E so now t ok ^^ n) (BatchInvalidate (changed_tenants Bo so' latest outcome) outcome, w) =
     (BatchDone (Inr outcome), w\<lparr>pw_cache := invalidate_changed Bo so' t latest outcome (pw_cache w)\<rparr>)"
proof (cases Bo)
  case None
  then show ?thesis by (intro turn_end) (simp add: invalidate_changed_def)
next
  case (Some B)
  then show ?thesis using invalidate_turns [of B E so now t ok "changed_tenants Bo so' latest outcome" outcome w]
    by (simp add: changed_tenants_def invalidate_changed_def Let_def)
qed

lemma mark_turns:
  "\<exists>n. (batch_turn Bo E so now t ok ^^ n) (BatchMark latest outcome, w) =
     (case repo_mark_indexed now (parsed_ids (po_indexed outcome)) (pw_db w) of
        Inl e \<Rightarrow> (BatchDone (Inl e), w)
      | Inr db1 \<Rightarrow>
          if \<not> ok then (BatchDone (Inl DatabaseErr), w)
          else (BatchDone (Inr outcome),
                w\<lparr>pw_db := db1, pw_cache := invalidate_changed Bo so t latest outcome (pw_cache w)\<rparr>))"
proof (cases "repo_mark_indexed now (parsed_ids (po_indexed outcome)) (pw_db w)")
  case (Inl e)
  then show ?thesis by (intro turn_end) simp
next
  case (Inr db1)
  show ?thesis
  proof (cases ok)
    case True
    with Inr show ?thesis
      using changed_turns [of Bo E so now t ok so latest outcome "w\<lparr>pw_db := db1\<rparr>"]
      by - (rule turn_on [of "batch_turn Bo E so now t ok"], rule refl, simp)
  next
    case False
    with Inr show ?thesis by (intro turn_end) simp
  qed
qed

lemma write_turns:
  assumes "found \<noteq> []"
  shows "\<exists>n. (batch_turn Bo E so now t ok ^^ n) (BatchWrite latest sk found, w) =
     (case write_batch Bo E so now t ok latest sk found w of (r, w') \<Rightarrow> (BatchDone r, w'))"
proof (cases "e_bulk E (map (\<lambda>(i, d). op_for i d) found) (pw_engine w)")
  case (Pair x en)
  show ?thesis
  proof (cases x)
    case (Inl e)
    with Pair assms show ?thesis by (intro turn_end) (simp add: write_batch_def Let_def)
  next
    case (Inr r)
    let ?o = "\<lparr>po_indexed = filter (\<lambda>i. i \<in> set (br_succeeded r)) (map fst (filter (\<lambda>(i, d). doc_status d \<noteq> DELETED) found)),
      po_deleted = filter (\<lambda>i. i \<in> set (br_succeeded r)) (map fst (filter (\<lambda>(i, d). doc_status d = DELETED) found)),
      po_failed = filter (\<lambda>i. i \<notin> set (br_succeeded r)) (map fst (filter (\<lambda>(i, d). doc_status d \<noteq> DELETED) found) @
        map fst (filter (\<lambda>(i, d). doc_status d = DELETED) found)), po_skipped = sk\<rparr>"
    have a: "batch_turn Bo E so now t ok (BatchWrite latest sk found, w) = (BatchMark latest ?o, w\<lparr>pw_engine := en\<rparr>)"
      using Pair Inr by (simp add: Let_def)
    have b: "write_batch Bo E so now t ok latest sk found w =
        (case repo_mark_indexed now (parsed_ids (po_indexed ?o)) (pw_db w) of
           Inl e \<Rightarrow> (Inl e, w\<lparr>pw_engine := en\<rparr>)
         | Inr db1 \<Rightarrow>
             if \<not> ok then (Inl DatabaseErr, w\<lparr>pw_engine := en\<rparr>)
             else (Inr ?o, w\<lparr>pw_engine := en, pw_db := db1, pw_cache := invalidate_changed Bo so t latest ?o (pw_cache w)\<rparr>))"
      using Pair Inr assms by (auto simp: write_batch_def Let_def split: sum.splits)
    have "\<exists>n. (batch_turn Bo E so now t ok ^^ n) (BatchMark latest ?o, w\<lparr>pw_engine := en\<rparr>) =
        (case write_batch Bo E so now t ok latest sk found w of (r, w') \<Rightarrow> (BatchDone r, w'))"
      using mark_turns [of Bo E so now t ok latest ?o "w\<lparr>pw_engine := en\<rparr>"] unfolding b by (auto split: sum.splits)
    then show ?thesis by (rule turn_on [of "batch_turn Bo E so now t ok", OF a])
  qed
qed

subsection \<open>Rows, snapshots and stored documents across one step\<close>

lemma commit_delete_rows: "keeps_rows db (commit_delete now d db)"
  by (auto simp: keeps_rows_def row_of_commit_delete)

lemma repo_create_rows: "repo_create d db = Inr db' \<Longrightarrow> keeps_rows db db'"
proof -
  assume c: "repo_create d db = Inr db'"
  then have "row_of db (doc_id d) = None" by (auto simp: repo_create_def row_of_None split: if_splits)
  then show ?thesis unfolding keeps_rows_def by (auto simp: repo_create_row [OF c])
qed

lemma batch_resume_db:
  "batch_resume Bo E so now t ok pt w = (pt', w') \<Longrightarrow>
   pw_db w' = pw_db w \<or> (\<exists>ids. repo_mark_indexed now ids (pw_db w) = Inr (pw_db w'))"
  by (cases pt) (auto simp: Let_def split: if_splits sum.splits prod.splits option.splits list.splits)

lemma batch_resume_rows: "batch_resume Bo E so now t ok pt w = (pt', w') \<Longrightarrow> keeps_rows (pw_db w) (pw_db w')"
  using batch_resume_db mark_indexed_rows by (metis keeps_rows_refl)

lemma batch_resume_inv: "batch_resume Bo E so now t ok pt w = (pt', w') \<Longrightarrow> db_inv (pw_db w) \<Longrightarrow> db_inv (pw_db w')"
  using batch_resume_db repo_mark_indexed_inv by metis

lemma batch_resume_engine:
  assumes "batch_resume Bo (inmemory_engine_ops so took) so' now t ok pt w = (pt', w')"
  shows "pw_engine w' = pw_engine w \<or>
    (\<exists>latest sk found. pt = BatchWrite latest sk found \<and>
       pw_engine w' = (pw_engine w)\<lparr>ie_docs := fold bulk_one (map (\<lambda>(i, d). op_for i d) found) (ie_docs (pw_engine w))\<rparr>)"
  using assms
  by (cases pt)
    (auto simp: Let_def inmemory_engine_ops_def ie_bulk_def ie_guard_def split: if_splits sum.splits prod.splits option.splits list.splits)

lemma fleet_step_rows: "fleet_step s s' \<Longrightarrow> keeps_rows (pw_db (fl_world s)) (pw_db (fl_world s'))"
  by (erule fleet_stepE)
    (auto simp: commit_delete_rows repo_create_rows batch_resume_rows keeps_rows_def [of _ "_\<lparr>db_up := _\<rparr>"])

lemma snapshot_ok_mono: "keeps_rows db db' \<Longrightarrow> snapshot_ok db i d \<Longrightarrow> snapshot_ok db' i d"
  unfolding snapshot_ok_def keeps_rows_def by metis

lemma batch_ok_mono: "keeps_rows db db' \<Longrightarrow> batch_ok db pt \<Longrightarrow> batch_ok db' pt"
  by (cases pt) (auto intro: snapshot_ok_mono)

lemma stored_own_mono:
  assumes "keeps_rows db db'" "stored_own db k sd"
  shows "stored_own db' k sd"
proof -
  obtain u d where u: "k = str_uuid u" "row_of db u = Some d" "sd_tenant_id sd = doc_tenant_id d" "sd_version sd = 1"
    "same_content (sd_source sd) (d\<lparr>doc_version := 1\<rparr>)" using assms(2) by (auto simp: stored_own_def)
  from assms(1) u(2) obtain d' where d': "row_of db' u = Some d'" "doc_tenant_id d' = doc_tenant_id d" "doc_title d' = doc_title d"
    "doc_content d' = doc_content d" "doc_content_type d' = doc_content_type d" "doc_tags d' = doc_tags d"
    "doc_metadata d' = doc_metadata d" unfolding keeps_rows_def by metis
  moreover have "doc_id d' = doc_id d" using row_of_Some u(2) d'(1) by metis
  ultimately have "same_content (sd_source sd) (d'\<lparr>doc_version := 1\<rparr>)" using u(5) by (simp add: same_content_def)
  with u d' show ?thesis unfolding stored_own_def by metis
qed

lemma read_snapshots:
  assumes "repo_get_many (parsed_ids keys) db = Inr ds" "db_inv db" "distinct ids"
  shows "distinct (map fst (found_rows ds ids))"
    and "(i, d) \<in> set (found_rows ds ids) \<Longrightarrow> row_of db (doc_id d) = Some d \<and> snapshot_ok db i d"
proof -
  note f = found_rows_spec [OF repo_get_many_filter [OF assms(1)], where ids = ids]
  show "distinct (map fst (found_rows ds ids))" using f(2) assms(3) .
  assume "(i, d) \<in> set (found_rows ds ids)"
  with f(1) obtain u where u: "i = str_uuid u" "row_of db u = Some d" by blast
  from row_of_Some [OF u(2)] assms(2) u show "row_of db (doc_id d) = Some d \<and> snapshot_ok db i d"
    by (auto simp: snapshot_ok_def db_inv_def)
qed

lemma batch_read_spec:
  assumes "batch_resume Bo E so now t ok (BatchRead events) w = (BatchWrite latest sk found, w')" "db_inv (pw_db w)"
  shows "distinct (map fst found) \<and> (\<forall>(i, d) \<in> set found. row_of (pw_db w) (doc_id d) = Some d \<and> snapshot_ok (pw_db w) i d) \<and> w' = w"
proof -
  let ?keys = "map fst (latest_events events)"
  obtain ds where ds: "repo_get_many (parsed_ids ?keys) (pw_db w) = Inr ds"
    "found = found_rows ds (filter (\<lambda>i. i \<notin> set (malformed_ids ?keys)) ?keys)" "w' = w"
    using assms(1) by (auto simp: Let_def split: if_splits sum.splits)
  have "distinct (filter (\<lambda>i. i \<notin> set (malformed_ids ?keys)) ?keys)" using latest_distinct by (rule distinct_filter)
  from read_snapshots [OF ds(1) assms(2) this] ds(2,3) show ?thesis by auto
qed

lemma batch_resume_point:
  assumes "batch_resume Bo E so now t ok pt w = (BatchWrite latest sk found, w')"
  shows "\<exists>events. pt = BatchRead events"
  using assms by (cases pt) (auto simp: Let_def split: if_splits sum.splits prod.splits option.splits list.splits)

lemma batch_resume_ok:
  assumes "batch_resume Bo E so now t ok pt w = (pt', w')" "db_inv (pw_db w)"
  shows "batch_ok (pw_db w') pt'"
proof (cases pt')
  case (BatchWrite latest sk found)
  with assms(1) batch_resume_point obtain events where "pt = BatchRead events" by metis
  with batch_read_spec assms BatchWrite show ?thesis by fastforce
qed simp_all

lemma write_effect:
  assumes "distinct (map fst found)"
  shows "map_of (fold bulk_one (map (\<lambda>(i, d). op_for i d) found) docs) k =
    (case map_of found k of None \<Rightarrow> map_of docs k | Some d \<Rightarrow> op_effect (op_for k d) (map_of docs k))"
proof -
  let ?ops = "map (\<lambda>(i, d). op_for i d) found"
  have ids: "map op_document_id ?ops = map fst found" by (simp add: comp_def split_def)
  show ?thesis
  proof (cases "map_of found k")
    case None
    then have "k \<notin> set (map op_document_id ?ops)" unfolding ids by (simp add: map_of_eq_None_iff)
    then have "k \<notin> op_document_id ` set ?ops" by (simp only: set_map not_False_eq_True)
    from map_of_fold_bulk_other [OF this] None show ?thesis by simp
  next
    case (Some d)
    then have "op_for k d \<in> set ?ops" by (force dest: map_of_SomeD)
    moreover have "distinct (map op_document_id ?ops)" unfolding ids by (rule assms)
    ultimately show ?thesis using map_of_fold_bulk [of ?ops "op_for k d" docs] Some by simp
  qed
qed

lemma write_own:
  assumes "distinct (map fst found)" "\<forall>(i, d) \<in> set found. snapshot_ok db i d"
    "\<And>k sd. map_of docs k = Some sd \<Longrightarrow> stored_own db k sd"
    "map_of (fold bulk_one (map (\<lambda>(i, d). op_for i d) found) docs) k = Some sd"
  shows "stored_own db k sd"
proof (cases "map_of found k")
  case None
  with assms(3,4) write_effect [OF assms(1)] show ?thesis by simp
next
  case (Some d)
  then have e: "op_effect (op_for k d) (map_of docs k) = Some sd" and d: "snapshot_ok db k d"
    using assms(2,4) write_effect [OF assms(1)] by (auto dest: map_of_SomeD)
  show ?thesis
  proof (cases "map_of docs k = Some sd")
    case True
    with assms(3) show ?thesis .
  next
    case False
    with e have "sd = \<lparr>sd_document_id = k, sd_tenant_id = doc_tenant_id d, sd_version = doc_version d, sd_source = to_search_source d\<rparr>"
      "doc_status d \<noteq> DELETED"
      by (auto simp: op_effect_def op_for_def split: option.splits if_splits)
    moreover from this(2) d have "doc_version d = 1" by (simp add: snapshot_ok_def row_ok_def)
    moreover from d obtain r where "row_of db (doc_id d) = Some r" "k = str_uuid (doc_id d)" "doc_tenant_id r = doc_tenant_id d"
      "doc_title r = doc_title d" "doc_content r = doc_content d" "doc_content_type r = doc_content_type d"
      "doc_tags r = doc_tags d" "doc_metadata r = doc_metadata d" by (auto simp: snapshot_ok_def)
    moreover from this(1) have "doc_id r = doc_id d" using row_of_Some by blast
    ultimately show ?thesis by (auto simp: stored_own_def same_content_def to_search_source_def)
  qed
qed

lemma fleet_step_inv:
  assumes "fleet_step s s'" "fleet_inv s"
  shows "fleet_inv s'"
proof -
  let ?db = "pw_db (fl_world s)" and ?db' = "pw_db (fl_world s')"
  have inv: "db_inv ?db" "engine_inv (pw_engine (fl_world s))"
    "\<And>k sd. map_of (ie_docs (pw_engine (fl_world s))) k = Some sd \<Longrightarrow> stored_own ?db k sd"
    "\<And>i pt. fl_batches s i = Some pt \<Longrightarrow> batch_ok ?db pt" using assms(2) by (auto simp: fleet_inv_def)
  note mono = fleet_step_rows [OF assms(1)]
  note keep = stored_own_mono [OF mono inv(3)] batch_ok_mono [OF mono inv(4)]
  have db: "db_inv ?db'"
    using assms(1) inv(1)
    by cases (auto intro: commit_delete_inv batch_resume_inv elim!: repo_create_inv [rotated 2] simp: new_document_def row_ok_def)
  from assms(1) show ?thesis
  proof cases
    case (resume_batch i pt so took so' now t ok pt' w)
    have own: "stored_own ?db k sd" if "map_of (ie_docs (pw_engine w)) k = Some sd" for k sd
      using batch_resume_engine [OF resume_batch(3)] that
    proof (elim disjE exE conjE)
      assume sd: "map_of (ie_docs (pw_engine w)) k = Some sd" and "pw_engine w = pw_engine (fl_world s)"
      with inv(3) show ?thesis by simp
    next
      fix latest sk found
      assume pt: "pt = BatchWrite latest sk found" and sd: "map_of (ie_docs (pw_engine w)) k = Some sd"
        and en: "pw_engine w = (pw_engine (fl_world s))\<lparr>ie_docs := fold bulk_one (map (\<lambda>(i, d). op_for i d) found) (ie_docs (pw_engine (fl_world s)))\<rparr>"
      from inv(4) [OF resume_batch(2)] pt have "distinct (map fst found)" "\<forall>(i, d) \<in> set found. snapshot_ok ?db i d" by auto
      from write_own [OF this inv(3)] sd en show ?thesis by simp
    qed
    have "engine_inv (pw_engine w)"
      using batch_resume_engine [OF resume_batch(3)] inv(2) by (auto simp: engine_inv_def fold_bulk_inv)
    with resume_batch db keep(2) batch_resume_ok [OF resume_batch(3) inv(1)] stored_own_mono [OF mono own] show ?thesis
      by (auto simp: fleet_inv_def)
  qed (use db keep inv in \<open>auto simp: fleet_inv_def engine_inv_def\<close>)
qed

lemma fleet_reach_inv: "rtranclp fleet_step s s' \<Longrightarrow> fleet_inv s \<Longrightarrow> fleet_inv s'"
  by (induction rule: rtranclp_induct) (auto intro: fleet_step_inv)

subsection \<open>A deleted document stays out of the index\<close>

lemma holds_live_found:
  "(\<forall>(i, d) \<in> set found. doc_status d = DELETED \<or> i \<noteq> str_uuid u) \<Longrightarrow> \<not> holds_live u (BatchWrite latest sk found)"
  by auto

lemma row_gone_step: "fleet_step s s' \<Longrightarrow> row_gone u s \<Longrightarrow> row_gone u s'"
  using keeps_rows_deleted [OF fleet_step_rows] by (simp add: row_gone_def)

lemma batch_resume_live:
  assumes "batch_resume Bo E so now t ok pt w = (pt', w')" "db_inv (pw_db w)"
    "row_of (pw_db w) u = Some r" "doc_status r = DELETED"
  shows "\<not> holds_live u pt'"
proof (cases pt')
  case (BatchWrite latest sk found)
  with assms(1) have r: "batch_resume Bo E so now t ok pt w = (BatchWrite latest sk found, w')" by simp
  obtain events where "pt = BatchRead events" using batch_resume_point [OF r] by blast
  from batch_read_spec [OF r [unfolded this] assms(2)]
  have "\<forall>(i, d) \<in> set found. row_of (pw_db w) (doc_id d) = Some d \<and> snapshot_ok (pw_db w) i d" by blast
  then have "\<forall>(i, d) \<in> set found. doc_status d = DELETED \<or> i \<noteq> str_uuid u"
    using assms(3,4) by (auto simp: snapshot_ok_def str_uuid_inject)
  then show ?thesis unfolding BatchWrite by (rule holds_live_found)
qed simp_all

lemma write_hides:
  assumes "distinct (map fst found)" "\<not> holds_live u (BatchWrite latest sk found)" "map_of docs (str_uuid u) = None"
  shows "map_of (fold bulk_one (map (\<lambda>(i, d). op_for i d) found) docs) (str_uuid u) = None"
proof (cases "map_of found (str_uuid u)")
  case None
  with assms(3) write_effect [OF assms(1)] show ?thesis by simp
next
  case (Some d)
  then have "doc_status d = DELETED" using assms(2) by (auto dest: map_of_SomeD)
  with Some assms(3) write_effect [OF assms(1), of docs "str_uuid u"] show ?thesis by (simp add: op_effect_def op_for_def)
qed

lemma buried_step:
  assumes "fleet_step s s'" "fleet_inv s" "buried u s"
  shows "buried u s'"
proof -
  have b: "row_gone u s" "map_of (ie_docs (pw_engine (fl_world s))) (str_uuid u) = None"
    "\<And>i pt. fl_batches s i = Some pt \<Longrightarrow> \<not> holds_live u pt" using assms(3) by (auto simp: buried_def)
  have inv: "db_inv (pw_db (fl_world s))" "\<And>i pt. fl_batches s i = Some pt \<Longrightarrow> batch_ok (pw_db (fl_world s)) pt"
    using assms(2) by (auto simp: fleet_inv_def)
  note row = row_gone_step [OF assms(1) b(1)]
  from assms(1) show ?thesis
  proof cases
    case (resume_batch i pt so took so' now t ok pt' w)
    have "map_of (ie_docs (pw_engine w)) (str_uuid u) = None"
      using batch_resume_engine [OF resume_batch(3)]
    proof (elim disjE exE conjE)
      fix latest sk found
      assume pt: "pt = BatchWrite latest sk found"
        and en: "pw_engine w = (pw_engine (fl_world s))\<lparr>ie_docs := fold bulk_one (map (\<lambda>(i, d). op_for i d) found) (ie_docs (pw_engine (fl_world s)))\<rparr>"
      from inv(2) [OF resume_batch(2)] pt have "distinct (map fst found)" by simp
      from write_hides [OF this b(3) [OF resume_batch(2), unfolded pt] b(2)] en show ?thesis by simp
    qed (use b(2) in simp)
    moreover have "\<not> holds_live u pt'" using batch_resume_live [OF resume_batch(3) inv(1)] b(1) by (auto simp: row_gone_def)
    ultimately show ?thesis using row b(3) by (simp add: buried_def resume_batch)
  qed (use row b in \<open>auto simp: buried_def\<close>)
qed

lemma buried_reach: "rtranclp fleet_step s s' \<Longrightarrow> fleet_inv s \<Longrightarrow> buried u s \<Longrightarrow> buried u s' \<and> fleet_inv s'"
  by (induction rule: rtranclp_induct) (auto intro: fleet_step_inv buried_step)

lemma stored_hit:
  assumes "engine_inv en" "ie_search so took q en = (Inr r, en')" "h \<in> set (er_hits r)"
  shows "\<exists>sd. map_of (ie_docs en) (eh_document_id h) = Some sd \<and> sd_tenant_id sd = sq_tenant_id q \<and>
    eh_title h = src_title (sd_source sd) \<and> eh_tags h = src_tags (sd_source sd) \<and> eh_metadata h = src_metadata (sd_source sd)"
proof -
  obtain score sd where h: "h = to_hit score sd (tokenize (sq_text q)) (sq_highlight q)"
    "sd \<in> set (corpus_of (sq_tenant_id q) en)" using ie_hit_origin [OF assms(2,3)] scored_docs_corpus by (fastforce simp: ranked_set)
  then have "sd_tenant_id sd = sq_tenant_id q" "sd \<in> snd ` set (ie_docs en)" by (auto simp: corpus_of_def)
  then obtain k where "(k, sd) \<in> set (ie_docs en)" by auto
  moreover from this assms(1) have "sd_document_id sd = k" "distinct (map fst (ie_docs en))" by (auto simp: engine_inv_def docs_ok_def)
  ultimately have "map_of (ie_docs en) (sd_document_id sd) = Some sd" by simp
  with h \<open>sd_tenant_id sd = sq_tenant_id q\<close> show ?thesis by (intro exI [of _ sd]) (simp add: to_hit_def)
qed

text \<open>Workers at rest over a world whose index is still empty.\<close>

definition idle_fleet :: "(inmemory_cache, inmemory_engine) proc_world \<Rightarrow> fleet" where
  "idle_fleet w = \<lparr>fl_world = w, fl_batches = Map.empty\<rparr>"

lemma idle_inv: "db_inv (pw_db w) \<Longrightarrow> ie_docs (pw_engine w) = [] \<Longrightarrow> fleet_inv (idle_fleet w)"
  by (simp add: fleet_inv_def idle_fleet_def engine_inv_def docs_ok_def)

lemma reach_from_idle:
  "rtranclp fleet_step (idle_fleet w) s \<Longrightarrow> db_inv (pw_db w) \<Longrightarrow> ie_docs (pw_engine w) = [] \<Longrightarrow> fleet_inv s"
  by (rule fleet_reach_inv [OF _ idle_inv])

lemma write_resume:
  assumes "batch_resume Bo (inmemory_engine_ops so took) so' now t ok (BatchWrite latest sk found) w = (pt', w')"
    "ie_available (pw_engine w)"
  shows "pw_engine w' = (pw_engine w)\<lparr>ie_docs := fold bulk_one (map (\<lambda>(i, d). op_for i d) found) (ie_docs (pw_engine w))\<rparr> \<and>
    pw_db w' = pw_db w \<and> (\<forall>u. \<not> holds_live u pt')"
  using assms by (auto simp: Let_def inmemory_engine_ops_def ie_bulk_def ie_guard_def)

lemma delete_buries:
  assumes "fleet_inv s" "fl_batches s i = Some (BatchWrite latest sk found)" "(str_uuid u, d) \<in> set found" "doc_status d = DELETED"
    "\<And>j pt. j \<noteq> i \<Longrightarrow> fl_batches s j = Some pt \<Longrightarrow> \<not> holds_live u pt" "ie_available (pw_engine (fl_world s))"
    "batch_resume Bo (inmemory_engine_ops so took) so' now t ok (BatchWrite latest sk found) (fl_world s) = (pt', w')"
  shows "buried u (s\<lparr>fl_world := w', fl_batches := (fl_batches s)(i \<mapsto> pt')\<rparr>)"
proof -
  note w' = write_resume [OF assms(7,6)]
  have found: "distinct (map fst found)" and d: "snapshot_ok (pw_db (fl_world s)) (str_uuid u) d"
    using assms(1,2,3) by (fastforce simp: fleet_inv_def)+
  from d assms(4) have gone: "\<exists>r. row_of (pw_db w') u = Some r \<and> doc_status r = DELETED" and v: "doc_version d = 2"
    using w' by (auto simp: snapshot_ok_def str_uuid_inject row_ok_def)
  have "map_of (ie_docs (pw_engine w')) (str_uuid u) =
      op_effect (op_for (str_uuid u) d) (map_of (ie_docs (pw_engine (fl_world s))) (str_uuid u))"
    using w' write_effect [OF found, of _ "str_uuid u"] map_of_is_SomeI [OF found assms(3)] by simp
  moreover have "sd_version sd = 1" if "map_of (ie_docs (pw_engine (fl_world s))) (str_uuid u) = Some sd" for sd
    using assms(1) that by (auto simp: fleet_inv_def stored_own_def)
  ultimately have "map_of (ie_docs (pw_engine w')) (str_uuid u) = None"
    using assms(4) v by (auto simp: op_effect_def op_for_def split: option.splits)
  with gone assms(5) w' show ?thesis by (auto simp: buried_def row_gone_def)
qed

lemma single_read:
  assumes "row_of (pw_db w) u = Some d" "db_up (pw_db w)" "ev_document_id e = str_uuid u"
  shows "batch_resume Bo E so now t ok (BatchRead [e]) w = (BatchWrite [(str_uuid u, e)] [] [(str_uuid u, d)], w)"
  using single_event [OF assms] by auto

text \<open>Two runs used to evaluate the properties: a batch reads the row, alone or after the row was deleted.\<close>

lemma read_run:
  assumes "rtranclp fleet_step s0 s" "fl_batches s i = None" "row_of (pw_db (fl_world s)) u = Some d" "db_up (pw_db (fl_world s))"
    "ev_document_id e = str_uuid u"
  shows "rtranclp fleet_step s0 (s\<lparr>fl_batches := (fl_batches s)(i \<mapsto> BatchWrite [(str_uuid u, e)] [] [(str_uuid u, d)])\<rparr>)"
proof -
  let ?s1 = "s\<lparr>fl_batches := (fl_batches s)(i \<mapsto> BatchRead [e])\<rparr>"
  have r1: "rtranclp fleet_step s0 ?s1"
    using assms(1) fleet_step.take_batch [of s i "[e]", OF assms(2)] by (rule rtranclp.rtrancl_into_rtrancl)
  have "batch_resume (Some inmemory_ops) (inmemory_engine_ops id 0) id sample_time 0 True (BatchRead [e]) (fl_world ?s1) =
      (BatchWrite [(str_uuid u, e)] [] [(str_uuid u, d)], fl_world s)"
    using single_read [OF assms(3-5)] by simp
  from fleet_step.resume_batch [of ?s1 i, OF _ this]
  have "fleet_step ?s1 (s\<lparr>fl_batches := (fl_batches s)(i \<mapsto> BatchWrite [(str_uuid u, e)] [] [(str_uuid u, d)])\<rparr>)"
    by simp
  with r1 show ?thesis by (rule rtranclp.rtrancl_into_rtrancl)
qed

definition fleet_world :: "(inmemory_cache, inmemory_engine) proc_world" where
  "fleet_world = \<lparr>pw_db = pw_db sample_world, pw_cache = new_inmemory_cache, pw_engine = new_inmemory_engine\<rparr>"

abbreviation sample_write :: "document \<Rightarrow> batch_point" where
  "sample_write d \<equiv> BatchWrite [(str_uuid 77, sample_event)] [] [(str_uuid 77, d)]"

lemma fleet_world_facts:
  "db_inv (pw_db fleet_world)" "ie_docs (pw_engine fleet_world) = []" "ie_available (pw_engine fleet_world)"
  "row_of (pw_db fleet_world) 77 = Some sample_row" "db_up (pw_db fleet_world)" "ev_document_id sample_event = str_uuid 77"
  "doc_status sample_row \<noteq> DELETED" "doc_version sample_row = 1" "doc_id sample_row = 77"
  by (simp_all add: fleet_world_def sample_world_def new_inmemory_engine_def db_inv_def row_ok_def sample_row_def new_document_def
      row_of_def sample_event_def event_of_def)

definition gone_world :: "(inmemory_cache, inmemory_engine) proc_world" where
  "gone_world = fleet_world\<lparr>pw_db := commit_delete sample_time sample_row (pw_db fleet_world)\<rparr>"

lemma gone_world_facts:
  "row_of (pw_db gone_world) 77 = Some (deleted_row sample_time sample_row)" "db_up (pw_db gone_world)"
  "ie_docs (pw_engine gone_world) = []" "ie_available (pw_engine gone_world)" "doc_status (deleted_row sample_time sample_row) = DELETED"
  by (simp_all add: gone_world_def row_of_commit_delete fleet_world_facts deleted_row_def)
    (simp_all add: commit_delete_def update_rows_def fleet_world_facts)

lemma live_run:
  "rtranclp fleet_step (idle_fleet fleet_world) \<lparr>fl_world = fleet_world, fl_batches = [0 \<mapsto> sample_write sample_row]\<rparr>"
  using read_run [where i = 0, OF rtranclp.rtrancl_refl [of fleet_step "idle_fleet fleet_world"] _ _ _ fleet_world_facts(6)] fleet_world_facts(4,5)
  by (simp add: idle_fleet_def)

lemma gone_run:
  assumes "rtranclp fleet_step s0 \<lparr>fl_world = fleet_world, fl_batches = bs\<rparr>" "bs 1 = None"
  shows "rtranclp fleet_step s0 \<lparr>fl_world = gone_world, fl_batches = bs(1 \<mapsto> sample_write (deleted_row sample_time sample_row))\<rparr>"
proof -
  have "fleet_step \<lparr>fl_world = fleet_world, fl_batches = bs\<rparr> \<lparr>fl_world = gone_world, fl_batches = bs\<rparr>"
    using fleet_step.row_deleted [OF fleet_world_facts(8), of "\<lparr>fl_world = fleet_world, fl_batches = bs\<rparr>" sample_time]
    by (simp add: gone_world_def)
  with assms(1) have "rtranclp fleet_step s0 \<lparr>fl_world = gone_world, fl_batches = bs\<rparr>" by (rule rtranclp.rtrancl_into_rtrancl)
  from read_run [OF this _ _ _ fleet_world_facts(6), where i = 1] assms(2) gone_world_facts(1,2) show ?thesis by simp
qed

subsection \<open>Properties\<close>

text \<open>
  Run without interruption, the points of a batch are exactly the handler \<open>process\<close>.
\<close>

theorem batch_points_refine:
  "\<exists>n. (batch_turn Bo E so now t ok ^^ n) (BatchRead events, w) =
     (case process Bo E so now t ok events w of (r, w') \<Rightarrow> (BatchDone r, w'))"
proof (cases "events = []")
  case True
  then show ?thesis by (intro turn_end) (simp add: process_def)
next
  case False
  let ?latest = "latest_events events" and ?db = "pw_db w"
  let ?valid = "filter (\<lambda>i. i \<notin> set (malformed_ids (map fst ?latest))) (map fst ?latest)"
  show ?thesis
  proof (cases "repo_get_many (parsed_ids (map fst ?latest)) ?db")
    case (Inl e)
    with False show ?thesis by (intro turn_end) (simp add: process_def Let_def)
  next
    case (Inr ds)
    show ?thesis
    proof (cases "found_rows ds ?valid = []")
      case True
      with Inr False show ?thesis by (intro turn_end) (simp add: process_def write_batch_def Let_def)
    next
      case ne: False
      then show ?thesis using Inr False write_turns [OF ne]
        by - (rule turn_on [of "batch_turn Bo E so now t ok"], rule refl, simp add: process_def Let_def)
    qed
  qed
qed



text \<open>
  C14: Once a batch that read a row as deleted has been written, while no other batch holds the row as it was before, no
  later search of any tenant returns the document, whatever batches, deletions, creations and outages follow.
\<close>

theorem late_delete_final:
  assumes "rtranclp fleet_step (idle_fleet w) s" "db_inv (pw_db w)" "ie_docs (pw_engine w) = []"
    "fl_batches s i = Some (BatchWrite latest sk found)" "(str_uuid u, d) \<in> set found" "doc_status d = DELETED"
    "\<And>j pt. j \<noteq> i \<Longrightarrow> fl_batches s j = Some pt \<Longrightarrow> \<not> holds_live u pt" "ie_available (pw_engine (fl_world s))"
    "batch_resume (Some inmemory_ops) (inmemory_engine_ops so took) so' now t ok (BatchWrite latest sk found) (fl_world s) = (pt', w')"
    "rtranclp fleet_step (s\<lparr>fl_world := w', fl_batches := (fl_batches s)(i \<mapsto> pt')\<rparr>) s'"
    "ie_search so2 took2 q (pw_engine (fl_world s')) = (Inr r, en)"
  shows "str_uuid u \<notin> eh_document_id ` set (er_hits r)"
proof
  let ?s1 = "s\<lparr>fl_world := w', fl_batches := (fl_batches s)(i \<mapsto> pt')\<rparr>"
  have inv: "fleet_inv s" by (rule reach_from_idle [OF assms(1-3)])
  have "fleet_inv ?s1" using fleet_step_inv [OF fleet_step.resume_batch [OF assms(4,9)] inv] .
  from buried_reach [OF assms(10) this delete_buries [OF inv assms(4-9)]]
  have b: "buried u s'" "engine_inv (pw_engine (fl_world s'))" by (auto simp: fleet_inv_def)
  assume "str_uuid u \<in> eh_document_id ` set (er_hits r)"
  then obtain h where "h \<in> set (er_hits r)" "eh_document_id h = str_uuid u" by auto
  with stored_hit [OF b(2) assms(11)] b(1) show False by (fastforce simp: buried_def)
qed

theorem late_delete_final_witness:
  "\<exists>s w' pt'. rtranclp fleet_step (idle_fleet fleet_world) s \<and>
     batch_resume (Some inmemory_ops) (inmemory_engine_ops id 0) id sample_time 0 True
       (sample_write (deleted_row sample_time sample_row)) (fl_world s) = (pt', w') \<and>
     \<not> (\<exists>s' q r en. rtranclp fleet_step (s\<lparr>fl_world := w', fl_batches := (fl_batches s)(1 \<mapsto> pt')\<rparr>) s' \<and>
          ie_search id 0 q (pw_engine (fl_world s')) = (Inr r, en) \<and> str_uuid 77 \<in> eh_document_id ` set (er_hits r))"
proof -
  let ?d = "deleted_row sample_time sample_row"
  let ?s = "\<lparr>fl_world = gone_world, fl_batches = [1 \<mapsto> sample_write ?d]\<rparr>"
  have s: "rtranclp fleet_step (idle_fleet fleet_world) ?s"
    using gone_run [of "idle_fleet fleet_world" Map.empty] by (simp add: idle_fleet_def)
  obtain pt' w' where b: "batch_resume (Some inmemory_ops) (inmemory_engine_ops id 0) id sample_time 0 True (sample_write ?d)
      (fl_world ?s) = (pt', w')" by force
  have "str_uuid 77 \<notin> eh_document_id ` set (er_hits r)"
    if "rtranclp fleet_step (?s\<lparr>fl_world := w', fl_batches := (fl_batches ?s)(1 \<mapsto> pt')\<rparr>) s'"
      "ie_search id 0 q (pw_engine (fl_world s')) = (Inr r, en)" for s' q r en
    by (rule late_delete_final [OF s fleet_world_facts(1,2) _ _ gone_world_facts(5) _ _ b that])
      (auto simp: gone_world_facts split: if_splits)
  with s b show ?thesis by blast
qed

text \<open>
  C23: The other case: a batch that read the row before it was deleted and writes it after the delete has been indexed puts the deleted document
  back into the index, since the in-memory engine forgets the version of what it deletes; and no sweep ever takes the row up again.
\<close>

theorem overtaken_batch_resurrects:
  assumes "rtranclp fleet_step (idle_fleet w) s" "db_inv (pw_db w)" "ie_docs (pw_engine w) = []"
    "fl_batches s i = Some (BatchWrite latest sk found)" "(str_uuid u, d) \<in> set found" "doc_status d \<noteq> DELETED"
    "buried u (s\<lparr>fl_batches := (fl_batches s)(i := None)\<rparr>)" "ie_available (pw_engine (fl_world s))"
    "batch_resume (Some inmemory_ops) (inmemory_engine_ops so took) so' now t ok (BatchWrite latest sk found) (fl_world s) = (pt', w')"
  shows "(\<exists>sd. map_of (ie_docs (pw_engine w')) (str_uuid u) = Some sd \<and> sd_tenant_id sd = doc_tenant_id d) \<and>
    (\<exists>r. row_of (pw_db w') u = Some r \<and> doc_status r = DELETED) \<and>
    (\<forall>now older limit ds. repo_find_stale now older limit (pw_db w') = Inr ds \<longrightarrow> u \<notin> doc_id ` set ds)"
proof (intro conjI allI impI)
  note w' = write_resume [OF assms(9,8)]
  have inv: "fleet_inv s" by (rule reach_from_idle [OF assms(1-3)])
  then have found: "distinct (map fst found)" using assms(4) by (fastforce simp: fleet_inv_def)
  have "map_of (ie_docs (pw_engine w')) (str_uuid u) =
      op_effect (op_for (str_uuid u) d) (map_of (ie_docs (pw_engine (fl_world s))) (str_uuid u))"
    using w' write_effect [OF found, of _ "str_uuid u"] map_of_is_SomeI [OF found assms(5)] by simp
  then show "\<exists>sd. map_of (ie_docs (pw_engine w')) (str_uuid u) = Some sd \<and> sd_tenant_id sd = doc_tenant_id d"
    using assms(6,7) by (auto simp: buried_def op_effect_def op_for_def)
  obtain r where r: "row_of (pw_db w') u = Some r" "doc_status r = DELETED"
    using assms(7) w' by (auto simp: buried_def row_gone_def)
  then show "\<exists>r. row_of (pw_db w') u = Some r \<and> doc_status r = DELETED" by blast
  fix now older limit ds
  assume "repo_find_stale now older limit (pw_db w') = Inr ds"
  then show "u \<notin> doc_id ` set ds"
    using repo_find_stale_set row_of_unique r inv w' by (fastforce simp: fleet_inv_def db_inv_def)
qed

theorem overtaken_batch_resurrects_witness:
  "\<exists>s w' pt' out sd. rtranclp fleet_step (idle_fleet fleet_world) s \<and>
     fl_batches s 1 = Some (BatchMark [(str_uuid 77, sample_event)] out) \<and> po_deleted out = [str_uuid 77] \<and>
     batch_resume (Some inmemory_ops) (inmemory_engine_ops id 0) id sample_time 0 True (sample_write sample_row) (fl_world s) = (pt', w') \<and>
     map_of (ie_docs (pw_engine w')) (str_uuid 77) = Some sd"
proof -
  let ?d = "deleted_row sample_time sample_row" and ?live = "sample_write sample_row"
  let ?s1 = "\<lparr>fl_world = gone_world, fl_batches = [0 \<mapsto> ?live, 1 \<mapsto> sample_write ?d]\<rparr>"
  have s1: "rtranclp fleet_step (idle_fleet fleet_world) ?s1" using gone_run [OF live_run] by simp
  obtain out w1 where b1: "batch_resume (Some inmemory_ops) (inmemory_engine_ops id 0) id sample_time 0 True (sample_write ?d) gone_world =
      (BatchMark [(str_uuid 77, sample_event)] out, w1)" "po_deleted out = [str_uuid 77]"
    using gone_world_facts by (simp add: inmemory_engine_ops_def ie_bulk_def ie_guard_def Let_def)
  let ?s = "\<lparr>fl_world = w1, fl_batches = [0 \<mapsto> ?live, 1 \<mapsto> BatchMark [(str_uuid 77, sample_event)] out]\<rparr>"
  have "fleet_step ?s1 ?s" 
    using fleet_step.resume_batch [of ?s1 1 "sample_write ?d" id 0 id sample_time 0 True "BatchMark [(str_uuid 77, sample_event)] out" w1] b1(1)
    by simp
  with s1 have s: "rtranclp fleet_step (idle_fleet fleet_world) ?s" by (rule rtranclp.rtrancl_into_rtrancl)
  note w1 = write_resume [OF b1(1) gone_world_facts(4)]
  have e: "ie_docs (pw_engine w1) = []" "ie_available (pw_engine w1)"
    using w1 gone_world_facts by (simp_all add: bulk_one_def op_for_def)
  have b: "buried 77 (?s\<lparr>fl_batches := (fl_batches ?s)(0 := None)\<rparr>)"
    using w1 e gone_world_facts by (auto simp: buried_def row_gone_def)
  obtain pt' w' where r: "batch_resume (Some inmemory_ops) (inmemory_engine_ops id 0) id sample_time 0 True ?live (fl_world ?s) = (pt', w')"
    by force
  from overtaken_batch_resurrects [OF s fleet_world_facts(1,2) _ _ fleet_world_facts(7) b _ r] e(2)
  obtain sd where "map_of (ie_docs (pw_engine w')) (str_uuid 77) = Some sd" by auto
  with s b1(2) r show ?thesis by (intro exI [of _ ?s]) auto
qed

end
