(* ===== verification/Spec2Isabelle.thy ===== *)
theory Spec2Isabelle
  imports Journey Consumer Container OpenSearch_Engine Single_Flight Health Search_Interleaving Retry_Cycle Routes Worker_Interleaving
begin

text \<open>
  A verification of the multi-tenant document search service under \<open>src/doc-search/app\<close>.

  \<^bold>\<open>The program.\<close>  HTTP handlers authenticate a tenant by its API key, apply a per-tenant rate limit and call one of two
  services.  The document service writes rows to PostgreSQL (the source of truth), publishes thin events and keeps a per-tenant cache;
  the search service answers queries from the cache or from the search engine (the read model).  Workers consume
  the events in batches, re-read the rows and write them to the engine with one versioned bulk request; a reconciler
  republishes what was lost.  Redis, RabbitMQ and OpenSearch sit behind ports, each with an in-memory adapter.

  \<^bold>\<open>Theories and sources.\<close>
  \<^item> \<open>Prelude\<close>: JSON values, the exceptions of the program (\<open>exn\<close>), \<open>result\<close> = exception or value, and the Python
    library functions the code uses (\<open>strip\<close>, \<open>lower\<close>, slices, \<open>int\<close>, \<open>round\<close>, word runs).  \<open>Uuid\<close>: \<open>uuid.UUID\<close> as a 128-bit word with
    its parser and printer.  \<open>Datetime\<close>: \<open>isoformat\<close> and \<open>fromisoformat\<close>.
  \<^item> \<open>Errors\<close>: \<open>core/errors.py\<close>, \<open>api/exception_handlers.py\<close>.  \<open>Resilience\<close>: \<open>core/resilience.py\<close>, also as a step
    relation of interleaved calls.  \<open>Config\<close>: \<open>core/config.py\<close>.
  \<^item> \<open>Cache_Keys\<close>: \<open>services/cache_keys.py\<close>.  \<open>Cache\<close>: \<open>clients/cache.py\<close>; the locale \<open>cache_backend\<close> is the contract of a
    backend, interpreted on the in-memory one.
  \<^item> \<open>Queue\<close>: \<open>clients/queue.py\<close> (locale \<open>event_publisher\<close>).  \<open>Search_Engine\<close>: \<open>clients/search_engine.py\<close> (locale
    \<open>search_engine\<close>).  \<open>InMemory_Engine\<close>: \<open>clients/inmemory_engine.py\<close>.  \<open>OpenSearch_Engine\<close>: \<open>clients/opensearch_engine.py\<close>.
  \<^item> \<open>Documents\<close>: \<open>models\<close>, \<open>schemas/document.py\<close>, \<open>repositories/document_repository.py\<close>; the database is a record of rows,
    tenants and whether it answers.
  \<^item> \<open>Search_Service\<close>, \<open>Document_Service\<close>: the two services, proved in the locales \<open>search_service\<close> and
    \<open>document_service\<close>, which combine the contracts of the ports.  \<open>Codec\<close>: a concrete codec and digest.  \<open>Services\<close>: their
    properties.  \<open>Single_Flight\<close>: the coalescing of concurrent misses as a step relation.  \<open>Interleaving\<close>, \<open>Search_Interleaving\<close>: the
    reads, deletes and searches of both services cut at their \<open>await\<close>s and interleaved, with the proof that an uninterrupted
    run is the operation of the service.  \<open>Worker_Interleaving\<close>: the same for the batches of several workers.
  \<^item> \<open>Rate_Limiter\<close>: \<open>services/rate_limiter.py\<close>; the locale \<open>token_bucket\<close> is interpreted on the Lua script and on the
    process-local bucket.
  \<^item> \<open>Processor\<close>, \<open>Reconciler\<close>, \<open>Consumer\<close>: \<open>workers\<close>.  \<open>Retry_Cycle\<close>: an event on its way through the declared queues and the
    consumer, over a broker of which the locale \<open>dead_lettering\<close> states the documented counting.  \<open>Health\<close>: \<open>services/health_service.py\<close>, \<open>api/routes/health.py\<close>.
  \<^item> \<open>Api\<close>: \<open>api/deps.py\<close>, \<open>api/routes\<close>, \<open>middleware/request_context.py\<close>.  \<open>Container\<close>: \<open>container.py\<close>, \<open>db/database.py\<close>.
  \<^item> \<open>Lifecycle\<close>: the start, the loop and the closing of the worker process (\<open>IndexingConsumer.run\<close>), the lifespan of the API
    process (\<open>main.py\<close>), the production wiring and the pool options.  \<open>Tooling\<close>: the declared metrics, the log line and the log levels (\<open>core/metrics.py\<close>, \<open>core/logging.py\<close>), the requests of
    \<open>scripts/seed_demo.py\<close> and \<open>scripts/bench.py\<close>, its phases and its percentiles.  \<open>Routes\<close>: the declarations of \<open>api/routes\<close> and
    \<open>create_app\<close>, with the answers each route documents.
  \<^item> \<open>System\<close>: requests, batches, sweeps and outages as steps of the service over its in-memory adapters, with the invariant of the
    reachable states.  \<open>Requests\<close>: guarantees of one request.  \<open>Isolation\<close>: what a request of one tenant can change for
    another.  \<open>Indexing\<close>: the write path from end to end.  \<open>Delivery\<close>, \<open>Journey\<close>: a write over HTTP, its event, the batch of the
    worker and the next search of the tenant, stage by stage and as a whole.  This theory: the properties that span them.

  \<^bold>\<open>State and effects.\<close>  Every operation passes its state explicitly (\<open>inmemory_cache\<close>, \<open>inmemory_engine\<close>, \<open>database\<close>,
  \<open>doc_world\<close>, \<open>proc_world\<close>, \<open>app_world\<close>) and returns it on every branch.  Raised exceptions are values; what the environment
  decides is an argument: clock readings, random numbers, drawn identifiers, whether \<open>COMMIT\<close> succeeds, the iteration order of
  a Python set.  The clients of Redis, RabbitMQ and OpenSearch, SHA-256, the JSON codec of the response models and the
  framework's UUID converter are parameters; \<open>hex_text\<close> and \<open>codec_ok\<close> say what is relied on of them.

  \<^bold>\<open>What is shown.\<close>  Tenant isolation of every answer in every reachable state, and non-interference of requests across
  tenants; coherence of index and cache with the rows; recovery of lost index events, findability of indexed documents and
  disappearance of deleted ones, from the request that posts or deletes them to the search that shows or no longer shows them; correctness of exact search, pagination and the one-edit test; the bounds of the rate
  limiter and the agreement of its two implementations; settlement of every delivery and an orderly end of the worker; coalescing of equal searches;
  freshness, reuse and fail-open behaviour of the caches, also when requests overlap, and the one race in which a deleted document
  is served from the cache; what overlapping batches of several workers keep, and the one race that puts a deleted document back into
  the in-memory index; scoping of the requests sent to OpenSearch and the reading of its replies;
  validation, round trips, page window, authentication, startup and health; and that no request is answered with a status its route does not document, short of
  a failing database or a broken configuration.

  \<^bold>\<open>Bounds.\<close>  All functions are total; no fuel is used.  The retry loop and the scans recurse on a number of attempts or on a list;
  loops that run until the process is stopped (consumer, reconciler) take the sequence of their turns as an argument, of any length.

  \<^bold>\<open>Approximations.\<close>  Characters are Isabelle's 256, floats are real numbers.  \<open>System\<close> runs a request or batch as
  one step; requests that overlap are interleaved in \<open>Interleaving\<close>, \<open>Search_Interleaving\<close> and \<open>Single_Flight\<close>, batches that
  overlap in \<open>Worker_Interleaving\<close>, calls of a dependency in
  \<open>Resilience\<close>.

  \<^bold>\<open>Not modelled.\<close>  The increments of the metrics, which nothing reads, but for the gauge of the circuit breaker; how the framework
  matches a path to a route and builds the OpenAPI document; the installation of signal handlers; printing, argument parsing and
  the HTTP client of the scripts; the external services.
\<close>

section \<open>Tenants\<close>

text \<open>
  C1: Tenant isolation.  In every state the service can reach (any interleaving of requests, worker batches, sweeps and outages, with
  any content in the caches that this produced), an answer other than an error is given only to a request whose API key hashes to
  that of an active tenant, and everything in it belongs to that tenant: a search response names the tenant and
  each hit is the identifier of a row of that tenant, a document response and an acceptance are the tenant's own.
\<close>

theorem tenant_isolation:
  assumes "sys_reach st C hexdigest loads set_order parse_path tenants (T, w)" "hex_text hexdigest" "codec_ok C"
    "ordered_readings T rg"
    "endpoint (build_test_container st C hexdigest loads set_order took) rg parse_path x_api_key req w = (Inr rsp, d, w')"
  shows "\<exists>tn k. tn \<in> set (db_tenants (aw_db w)) \<and> tn_status tn = ''active'' \<and> x_api_key = Some k \<and>
    tn_api_key_hash tn = hexdigest k \<and>
    (\<forall>b. rsp_payload rsp = SearchBody b \<longrightarrow> response_of (owned (aw_db w)) (tn_id tn) b) \<and>
    (\<forall>b. rsp_payload rsp = DocumentBody b \<longrightarrow> rs_tenant_id b = tn_id tn) \<and>
    (\<forall>b. rsp_payload rsp = Accepted b \<longrightarrow> da_tenant_id b = tn_id tn)"
  using endpoint_answer [OF assms(5) _ assms(4,2,3)] sys_reach_inv [OF assms(1,2)] by simp

theorem tenant_isolation_witness:
  "\<exists>rsp d w' a. endpoint sample_services sample_readings parse_uuid (Some ''key'')
     (PostDocument [(''title'', JStr ''T''), (''content'', JStr ''c'')]) sample_app = (Inr rsp, d, w') \<and>
     rsp_payload rsp = Accepted a \<and> da_tenant_id a = ''acme''"
proof -
  obtain rsp d w' a where e: "endpoint sample_services sample_readings parse_uuid (Some ''key'')
      (PostDocument [(''title'', JStr ''T''), (''content'', JStr ''c'')]) sample_app = (Inr rsp, d, w')" "rsp_payload rsp = Accepted a"
    using sample_post by blast
  have "ordered_readings 1 sample_readings" by (simp add: ordered_readings_def sample_readings_def)
  from tenant_isolation [OF sample_reach sample_hypotheses(2,1) this e(1) [unfolded sample_services_def]] e(2)
  have "da_tenant_id a = ''acme''" by (auto simp: sample_app_def sample_tenant_def)
  with e show ?thesis by blast
qed

text \<open>
  C2: Separation of tenants.  A request that does not authenticate as tenant \<open>t\<close> leaves all that \<open>t\<close> can observe as it was: its
  rows, its searchable documents, every entry of the cache under one of its keys, its rate-limit buckets (no noisy
  neighbour) and its pending events.
\<close>

theorem request_isolated:
  assumes "sys_reach st C hexdigest loads set_order parse_path tenants (T, w)" "hex_text hexdigest" "ordered_readings T rg"
    "endpoint (build_test_container st C hexdigest loads set_order took) rg parse_path x_api_key req w = (r, d, w')"
    "foreign_request st C hexdigest loads set_order took rg x_api_key t w"
  shows "same_view hexdigest (rg_t5 rg) t w w'"
  using request_frame [OF assms(4,5,3) _ assms(2)] sys_reach_inv [OF assms(1,2)] by (simp add: sys_inv_def)

theorem request_isolated_witness:
  "\<exists>rsp d w'. endpoint sample_services sample_readings parse_uuid (Some ''key'')
     (PostDocument [(''title'', JStr ''T''), (''content'', JStr ''c'')]) sample_app = (Inr rsp, d, w') \<and>
     same_view sample_digest 1 ''globex'' sample_app w'"
proof -
  obtain rsp d w' where e: "endpoint sample_services sample_readings parse_uuid (Some ''key'')
      (PostDocument [(''title'', JStr ''T''), (''content'', JStr ''c'')]) sample_app = (Inr rsp, d, w')"
    using sample_post by blast
  have o: "ordered_readings 1 sample_readings" and t: "rg_t1 sample_readings = 1" "rg_t2 sample_readings = 1" "rg_t5 sample_readings = 1"
    by (simp_all add: ordered_readings_def sample_readings_def)
  have "foreign_request default_settings sample_codec sample_digest (\<lambda>_. Inl ValueErr) id 0 sample_readings (Some ''key'') ''globex'' sample_app"
    using sample_tenant_found by (simp add: foreign_request_def t sample_services_def sample_tenant_def)
  from request_isolated [OF sample_reach sample_hypotheses(2) o e [unfolded sample_services_def] this] e t(3) show ?thesis by auto
qed

section \<open>The two stores\<close>

text \<open>
  C3: In every reachable state the source of truth is well formed (identifiers are unique, a row is deleted exactly if it has a time of
  deletion), the search index is coherent with it (no foreign, newer or resurrected document), every visible
  cache entry is of the tenant its key names, and every pending event names a row of its tenant.
\<close>

theorem reachable_coherent:
  assumes "sys_reach st C hexdigest loads set_order parse_path tenants (T, w)" "hex_text hexdigest"
  shows "db_inv (aw_db w) \<and> coherent (aw_db w) (aw_engine w) \<and> cache_ok C hexdigest (aw_db w) T (aw_cache w) \<and>
    events_known (aw_db w) (aw_pub w)"
  using sys_reach_inv [OF assms] reach_known [OF assms] by (simp add: sys_inv_def)

theorem reachable_coherent_witness:
  "db_inv (aw_db sample_app) \<and> coherent (aw_db sample_app) (aw_engine sample_app) \<and>
   cache_ok sample_codec sample_digest (aw_db sample_app) 1 (aw_cache sample_app) \<and>
   events_known (aw_db sample_app) (aw_pub sample_app)"
  by (rule reachable_coherent [OF sample_reach sample_hypotheses(2)])

text \<open>
  C6: Lost index events are made up for.  With the dependencies up, a sweep followed by a batch with what is then pending brings
  the search index up to date for every document the sweep took up: the batch succeeds, the index shows the
  document as its row is, and a pending row has become indexed.
\<close>

theorem sweep_recovers:
  assumes "sys_reach st C hexdigest loads set_order parse_path tenants (T, w)" "hex_text hexdigest"
    "db_up (aw_db w)" "ie_available (aw_engine w)" "mp_available (aw_pub w)"
    "sweep_once inmemory_publisher_ops st now evid occ (aw_db w) (aw_pub w) = (n, p')" "d \<in> set (swept st now (aw_db w))"
    "process (Some inmemory_ops) (inmemory_engine_ops set_order took) set_order now t True (mp_events p')
       \<lparr>pw_db = aw_db w, pw_cache = aw_cache w, pw_engine = aw_engine w\<rparr> = (r, pw)"
  shows "is_ok r \<and> (\<exists>d'. row_of (pw_db pw) (doc_id d) = Some d' \<and> up_to_date d' (pw_engine pw) \<and>
    (doc_status d = PENDING \<longrightarrow> doc_status d' = INDEXED \<and> doc_indexed_at d' = Some now))"
  using sweep_repairs [OF _ _ assms(3-8)] sys_reach_inv [OF assms(1,2)] by (simp add: sys_inv_def)

theorem sweep_recovers_witness:
  "\<exists>w d d' n p' r pw. sys_reach default_settings sample_codec sample_digest (\<lambda>_. Inl ValueErr) id parse_uuid [sample_tenant] (1, w) \<and>
     d \<in> set (db_documents (aw_db w)) \<and> doc_status d = PENDING \<and> map_of (ie_docs (aw_engine w)) (str_uuid (doc_id d)) = None \<and>
     sweep_once inmemory_publisher_ops default_settings (sample_moment\<lparr>dt_hour := 9\<rparr>) (\<lambda>_. ''e'') (\<lambda>_. ''now'') (aw_db w) (aw_pub w) = (n, p') \<and>
     process (Some inmemory_ops) (inmemory_engine_ops id 0) id (sample_moment\<lparr>dt_hour := 9\<rparr>) 2 True (mp_events p')
       \<lparr>pw_db = aw_db w, pw_cache = aw_cache w, pw_engine = aw_engine w\<rparr> = (r, pw) \<and>
     row_of (pw_db pw) (doc_id d) = Some d' \<and> up_to_date d' (pw_engine pw) \<and> doc_status d' = INDEXED"
proof -
  let ?now = "sample_moment\<lparr>dt_hour := 9\<rparr>"
  obtain rsp dd w a c where e: "endpoint sample_services sample_readings parse_uuid (Some ''key'')
      (PostDocument [(''title'', JStr ''T''), (''content'', JStr ''c'')]) sample_app = (Inr rsp, dd, w)"
    and w: "aw_engine w = new_inmemory_engine" "mp_available (aw_pub w)"
      "aw_db w = \<lparr>db_documents = [new_document sample_moment sample_moment 78 ''acme'' c], db_tenants = [sample_tenant], db_up = True\<rparr>"
    using sample_post by blast
  let ?d = "new_document sample_moment sample_moment 78 ''acme'' c"
  have "ordered_readings 1 sample_readings" "rg_t5 sample_readings = 1" by (simp_all add: ordered_readings_def sample_readings_def)
  with sys_reach.more [OF sample_reach sys_step.request [OF _ e [unfolded sample_services_def]]]
  have reach: "sys_reach default_settings sample_codec sample_digest (\<lambda>_. Inl ValueErr) id parse_uuid [sample_tenant] (1, w)" by simp
  have d: "?d \<in> set (swept default_settings ?now (aw_db w))" "doc_status ?d = PENDING"
    by (simp_all add: swept_def stale_docs_def w(3) before_cutoff_def instant_def sample_moment_def new_document_def default_settings_def)
  obtain n p' where s: "sweep_once inmemory_publisher_ops default_settings ?now (\<lambda>_. ''e'') (\<lambda>_. ''now'') (aw_db w) (aw_pub w) = (n, p')" by force
  obtain r pw where p: "process (Some inmemory_ops) (inmemory_engine_ops id 0) id ?now 2 True (mp_events p')
       \<lparr>pw_db = aw_db w, pw_cache = aw_cache w, pw_engine = aw_engine w\<rparr> = (r, pw)" by force
  have up: "db_up (aw_db w)" "ie_available (aw_engine w)" by (simp_all add: w new_inmemory_engine_def)
  have m: "?d \<in> set (db_documents (aw_db w))" "map_of (ie_docs (aw_engine w)) (str_uuid (doc_id ?d)) = None"
    by (simp_all add: w new_inmemory_engine_def)
  from sweep_recovers [OF reach sample_hypotheses(2) up w(2) s d(1) p] d(2) reach s p m show ?thesis by blast
qed

text \<open>
  C7: Once a batch has carried a document to the index, its tenant finds it: a first page that is long enough for all results
  of an exact query, all of whose terms occur in title or content, lists the document.
\<close>

theorem indexed_is_found:
  assumes "coherent (pw_db w) (pw_engine w)" "ie_available (pw_engine w)"
    "process Bo (inmemory_engine_ops so took) so' now t ok events w = (Inr out, w')"
    "e \<in> set events" "ev_document_id e = str_uuid u" "row_of (pw_db w') u = Some d" "doc_status d \<noteq> DELETED"
    "execute (inmemory_engine_ops so took) (doc_tenant_id d) q (pw_engine w') = (Inr resp, en)"
    "sq_tenant_id q = doc_tenant_id d" "\<not> sq_fuzzy q" "tokenize (sq_text q) \<noteq> []" "row_matches (tokenize (sq_text q)) d"
    "sq_page q = 1" "sr_total resp \<le> sq_size q"
  shows "str_uuid u \<in> sh_id ` set (sr_hits resp)"
proof -
  have inv: "engine_inv (pw_engine w')" using process_coherent [OF assms(1,3)] by (simp add: coherent_def)
  have u: "doc_id d = u" using row_of_Some [OF assms(6)] by simp
  obtain r where r: "e_search (inmemory_engine_ops so took) q (pw_engine w') = (Inr r, en)" "sr_total resp = er_total r"
    "sh_id ` set (sr_hits resp) = eh_document_id ` set (er_hits r)" using execute_hits [OF assms(8)] .
  then have "ie_search so took q (pw_engine w') = (Inr r, en)" by (simp add: inmemory_engine_ops_def)
  from up_to_date_found [OF inv process_up_to_date [OF assms(1-6)] assms(7) this assms(10,11,13,9,12)] r(2,3) assms(14) u
  show ?thesis by simp
qed

theorem indexed_is_found_witness:
  "\<exists>out w' resp en. process None (inmemory_engine_ops id 0) id sample_time 0 True [sample_event] sample_world = (Inr out, w') \<and>
     execute (inmemory_engine_ops id 0) ''acme'' (sample_query\<lparr>sq_text := ''Plan''\<rparr>) (pw_engine w') = (Inr resp, en) \<and>
     str_uuid 77 \<in> sh_id ` set (sr_hits resp)"
proof -
  let ?q = "sample_query\<lparr>sq_text := ''Plan''\<rparr>"
  obtain out w' where p: "process None (inmemory_engine_ops id 0) id sample_time 0 True [sample_event] sample_world = (Inr out, w')"
    and row: "row_of (pw_db w') 77 = Some (sample_row\<lparr>doc_status := INDEXED, doc_indexed_at := Some sample_time, doc_updated_at := sample_time\<rparr>)"
    and en: "length (ie_docs (pw_engine w')) = 1" "ie_available (pw_engine w')" using sample_indexed by blast
  have q: "\<not> sq_fuzzy ?q" "tokenize (sq_text ?q) \<noteq> []" "sq_page ?q = 1" "0 \<le> sq_size ?q" "1 \<le> sq_size ?q"
    by (simp_all add: sample_query_def sample_words)
  obtain resp where x: "execute (inmemory_engine_ops id 0) ''acme'' ?q (pw_engine w') = (Inr resp, pw_engine w')"
    using ss.execute_ok [OF en(2)] by metis
  have "engine_inv (pw_engine w')" using process_coherent [OF sample_coherent p] by (simp add: coherent_def)
  then have t: "sr_total resp \<le> sq_size ?q" using few_results [OF _ x q(1-4)] en(1) q(5) by simp
  have o: "ie_available (pw_engine sample_world)" "sample_event \<in> set [sample_event]" "ev_document_id sample_event = str_uuid 77"
    by (simp_all add: sample_world_def new_inmemory_engine_def sample_event_def event_of_def sample_row_def new_document_def)
  let ?d = "sample_row\<lparr>doc_status := INDEXED, doc_indexed_at := Some sample_time, doc_updated_at := sample_time\<rparr>"
  have d: "doc_tenant_id ?d = ''acme''" "sq_tenant_id ?q = ''acme''" "doc_status ?d \<noteq> DELETED" "row_matches (tokenize (sq_text ?q)) ?d"
    using sample_words(2) by (simp_all add: sample_row_def new_document_def sample_query_def)
  have "str_uuid 77 \<in> sh_id ` set (sr_hits resp)"
    by (rule indexed_is_found [OF sample_coherent o(1) p o(2,3) row d(3) _ _ q(1,2) d(4) q(3) t, where en = "pw_engine w'"])
       (simp_all only: d x)
  with p x show ?thesis by blast
qed

text \<open>
  C8: Once a batch has carried a deletion to the index, no search of any tenant, exact or fuzzy, on any page, returns the document.
\<close>

theorem deleted_is_hidden:
  assumes "coherent (pw_db w) (pw_engine w)" "ie_available (pw_engine w)"
    "process Bo (inmemory_engine_ops so took) so' now t ok events w = (Inr out, w')"
    "e \<in> set events" "ev_document_id e = str_uuid u" "row_of (pw_db w') u = Some d" "doc_status d = DELETED"
    "execute (inmemory_engine_ops so took) tn q (pw_engine w') = (Inr resp, en)"
  shows "str_uuid u \<notin> sh_id ` set (sr_hits resp)"
proof -
  have inv: "engine_inv (pw_engine w')" using process_coherent [OF assms(1,3)] by (simp add: coherent_def)
  have u: "doc_id d = u" using row_of_Some [OF assms(6)] by simp
  obtain r where r: "e_search (inmemory_engine_ops so took) q (pw_engine w') = (Inr r, en)" "sr_total resp = er_total r"
    "sh_id ` set (sr_hits resp) = eh_document_id ` set (er_hits r)" using execute_hits [OF assms(8)] .
  from up_to_date_hidden [OF inv process_up_to_date [OF assms(1-6)] assms(7) r(1)] r(3) u show ?thesis by simp
qed

theorem deleted_is_hidden_witness:
  "\<exists>out w' resp en. process None (inmemory_engine_ops id 0) id sample_time 0 True [sample_event] sample_deleted_world = (Inr out, w') \<and>
     execute (inmemory_engine_ops id 0) ''acme'' sample_query (pw_engine w') = (Inr resp, en) \<and>
     str_uuid 77 \<notin> sh_id ` set (sr_hits resp)"
proof -
  obtain out w' where p: "process None (inmemory_engine_ops id 0) id sample_time 0 True [sample_event] sample_deleted_world = (Inr out, w')"
    using process_total [of sample_deleted_world None id 0 id sample_time 0 "[sample_event]"] by (auto simp: sample_deleted_world_def)
  have row: "row_of (pw_db w') 77 = Some (deleted_row sample_time sample_row)"
    using process_effect(2) [OF p]
    by (auto simp: repo_mark_indexed_row) (auto simp: sample_deleted_world_def row_of_def deleted_row_def sample_row_def new_document_def)
  have o: "ie_available (pw_engine sample_deleted_world)" "sample_event \<in> set [sample_event]" "ev_document_id sample_event = str_uuid 77"
    "doc_status (deleted_row sample_time sample_row) = DELETED"
    by (simp_all add: sample_deleted_world_def sample_event_def event_of_def sample_row_def new_document_def deleted_row_def)
  have "ie_available (pw_engine w')"
    using process_effect(1) [OF p] o(1) by auto
  then obtain resp where x: "execute (inmemory_engine_ops id 0) ''acme'' sample_query (pw_engine w') = (Inr resp, pw_engine w')"
    using ss.execute_ok by metis
  from deleted_is_hidden [OF sample_deleted_coherent o(1) p o(2,3) row o(4) x] p x show ?thesis by blast
qed

end
